(* ===== verification/MS_Prelude.thy ===== *)
theory MS_Prelude
  imports Main "HOL-Library.Word" "HOL-Library.AList"
begin

text \<open>
  The prelude of the development: the machine types of the C++ code, the value type that
  stands for a C++ execution that may stop early, bounds-checked memory, and the generic
  lemmas the component theories share.

  A C++ expression that has no defined behaviour, that fails an assertion or that throws is
  a value \<open>Inl s\<close> of the sum type \<open>'a cxx\<close>; an ordinary result is \<open>Inr v\<close>. So every early
  stop of the source is a branch of the model, and a statement such as ``never reads out of
  bounds'' is a statement about the value of the model.
\<close>

unbundle bit_operations_syntax

subsection \<open>Machine types\<close>

type_synonym u8 = "8 word"
type_synonym u16 = "16 word"
type_synonym u32 = "32 word"
type_synonym u64 = "64 word"
type_synonym bytes = "8 word list"

text \<open>Why a C++ execution stops before it returns.\<close>

datatype stop =
    OutOfBounds      \<comment> \<open>a read or a write outside the bytes the pointer may touch\<close>
  | MemcpyOverlap    \<comment> \<open>\<open>memcpy\<close> on overlapping regions\<close>
  | AssertFail       \<comment> \<open>\<open>assert\<close> (the build does not define \<open>NDEBUG\<close>)\<close>
  | DivByZero        \<comment> \<open>integer division or remainder by zero\<close>
  | NegShift         \<comment> \<open>a shift by a negative amount or by the width or more\<close>
  | NullDeref        \<comment> \<open>use of a null pointer or of an \<open>end()\<close> iterator\<close>
  | Throw string     \<comment> \<open>\<open>MS_THROW_ERROR\<close>\<close>
  | BadConv          \<comment> \<open>a floating-point value that does not fit the integer type it is converted to\<close>
  | UninitRead       \<comment> \<open>use of memory that was never written\<close>
  | Diverges         \<comment> \<open>a loop that never ends\<close>
  | OutOfFuel        \<comment> \<open>no C++ behaviour: the model's recursion bound was too small\<close>

type_synonym 'a cxx = "stop + 'a"

fun cxx_bind :: "'a cxx \<Rightarrow> ('a \<Rightarrow> 'b cxx) \<Rightarrow> 'b cxx" where
  "cxx_bind (Inl e) f = Inl e"
| "cxx_bind (Inr v) f = f v"

text \<open>The collections that the component proofs unfold.\<close>

named_theorems mem_simps \<open>equations of the bounds-checked memory operations\<close>
named_theorems codec_simps \<open>round trips and lengths of the fixed-width codecs\<close>

lemma cxx_bind_Inr_iff: "cxx_bind m f = Inr r \<longleftrightarrow> (\<exists>v. m = Inr v \<and> f v = Inr r)"
  by (cases m) auto

lemma cxx_bind_Inl_iff: "cxx_bind m f = Inl e \<longleftrightarrow> m = Inl e \<or> (\<exists>v. m = Inr v \<and> f v = Inl e)"
  by (cases m) auto

lemma case_option_eq: "(case m of None \<Rightarrow> a | Some x \<Rightarrow> f x) = y \<longleftrightarrow> (m = None \<and> a = y) \<or> (\<exists>x. m = Some x \<and> f x = y)"
  by (cases m) auto

lemma cxx_bind_cong [fundef_cong]:
  "m = m' \<Longrightarrow> (\<And>v. m' = Inr v \<Longrightarrow> f v = f' v) \<Longrightarrow> cxx_bind m f = cxx_bind m' f'"
  by (cases m') auto

lemma cxx_bind_assoc: "cxx_bind (cxx_bind m f) g = cxx_bind m (\<lambda>v. cxx_bind (f v) g)"
  by (cases m) auto

subsection \<open>Bounds-checked memory\<close>

text \<open>
  A C array or heap block is the list of its bytes. \<open>mem_at\<close> is \<open>p[i]\<close>, \<open>mem_read\<close> reads
  \<open>n\<close> consecutive bytes and \<open>mem_write\<close> is a \<open>memcpy\<close> into the block from elsewhere.
\<close>

definition mem_at :: "bytes \<Rightarrow> nat \<Rightarrow> u8 cxx" where
  "mem_at m i = (if i < length m then Inr (m ! i) else Inl OutOfBounds)"

definition mem_read :: "bytes \<Rightarrow> nat \<Rightarrow> nat \<Rightarrow> bytes cxx" where
  "mem_read m i n = (if i + n \<le> length m then Inr (take n (drop i m)) else Inl OutOfBounds)"

definition mem_write :: "bytes \<Rightarrow> nat \<Rightarrow> bytes \<Rightarrow> bytes cxx" where
  "mem_write m i xs =
     (if i + length xs \<le> length m
      then Inr (take i m @ xs @ drop (i + length xs) m) else Inl OutOfBounds)"

lemma mem_at_ok [mem_simps]: "i < length m \<Longrightarrow> mem_at m i = Inr (m ! i)"
  by (simp add: mem_at_def)

lemma mem_read_ok [mem_simps]:
  "i + n \<le> length m \<Longrightarrow> mem_read m i n = Inr (take n (drop i m))"
  by (simp add: mem_read_def)

lemma mem_write_ok [mem_simps]:
  "i + length xs \<le> length m \<Longrightarrow> mem_write m i xs = Inr (take i m @ xs @ drop (i + length xs) m)"
  by (simp add: mem_write_def)

lemma mem_write_length: "mem_write m i xs = Inr m' \<Longrightarrow> length m' = length m"
  by (auto simp: mem_write_def split: if_splits)

lemma mem_at_stop: "mem_at m i = Inl e \<longleftrightarrow> e = OutOfBounds \<and> length m \<le> i"
  by (auto simp: mem_at_def)

text \<open>
  \<open>cxx_le m m'\<close>: whatever \<open>m\<close> returns, \<open>m'\<close> returns too. A parser run on a prefix of the input
  is below the same parser run on the whole input, since its only reads are bounds-checked.
\<close>

definition cxx_le :: "'a cxx \<Rightarrow> 'a cxx \<Rightarrow> bool" where
  "cxx_le m m' \<longleftrightarrow> (\<forall>v. m = Inr v \<longrightarrow> m' = Inr v)"

named_theorems le_intros \<open>monotonicity of the bounds-checked readers in their input\<close>

lemma cxx_le_refl [le_intros, simp]: "cxx_le m m"
  by (simp add: cxx_le_def)

lemma cxx_le_bind [le_intros]:
  "cxx_le m m' \<Longrightarrow> (\<And>v. cxx_le (f v) (f' v)) \<Longrightarrow> cxx_le (cxx_bind m f) (cxx_bind m' f')"
  unfolding cxx_le_def by (auto simp: cxx_bind_Inr_iff)

lemma cxx_leD: "cxx_le m m' \<Longrightarrow> m = Inr v \<Longrightarrow> m' = Inr v"
  by (simp add: cxx_le_def)

lemma mem_at_le [le_intros]: "cxx_le (mem_at p i) (mem_at (p @ ys) i)"
  by (auto simp: cxx_le_def mem_at_def nth_append split: if_splits)

lemma mem_read_le [le_intros]: "cxx_le (mem_read p i n) (mem_read (p @ ys) i n)"
  by (auto simp: cxx_le_def mem_read_def split: if_splits)

text \<open>\<open>cxx_ok m\<close>: the execution \<open>m\<close> returns.\<close>

definition cxx_ok :: "'a cxx \<Rightarrow> bool" where
  "cxx_ok m \<longleftrightarrow> (\<exists>v. m = Inr v)"

named_theorems ok_intros \<open>executions that return\<close>

lemma cxx_ok_Inr [ok_intros, simp]: "cxx_ok (Inr v)"
  by (simp add: cxx_ok_def)

lemma cxx_ok_Inl [simp]: "\<not> cxx_ok (Inl e)"
  by (simp add: cxx_ok_def)

lemma cxx_ok_bind [ok_intros]:
  "cxx_ok m \<Longrightarrow> (\<And>v. m = Inr v \<Longrightarrow> cxx_ok (f v)) \<Longrightarrow> cxx_ok (cxx_bind m f)"
  by (cases m) auto

lemma cxx_ok_if [ok_intros]:
  "(b \<Longrightarrow> cxx_ok m) \<Longrightarrow> (\<not> b \<Longrightarrow> cxx_ok m') \<Longrightarrow> cxx_ok (if b then m else m')"
  by simp

lemma cxx_ok_prod [ok_intros]: "(\<And>a b. p = (a, b) \<Longrightarrow> cxx_ok (f a b)) \<Longrightarrow> cxx_ok (case p of (a, b) \<Rightarrow> f a b)"
  by (cases p) auto

lemma cxx_ok_option [ok_intros]:
  "(x = None \<Longrightarrow> cxx_ok m) \<Longrightarrow> (\<And>v. x = Some v \<Longrightarrow> cxx_ok (f v)) \<Longrightarrow> cxx_ok (case x of None \<Rightarrow> m | Some v \<Rightarrow> f v)"
  by (cases x) auto

lemma cxx_ok_mem [ok_intros]: "i < length m \<Longrightarrow> cxx_ok (mem_at m i)" "i + n \<le> length m \<Longrightarrow> cxx_ok (mem_read m i n)"
  by (simp_all add: cxx_ok_def mem_at_def mem_read_def)

lemma cxx_okD: "cxx_ok m \<Longrightarrow> \<exists>v. m = Inr v"
  by (simp add: cxx_ok_def)

subsection \<open>Strings and lists\<close>

text \<open>A \<open>std::string\<close> is the list of its bytes; \<open>lit\<close> is a string literal.\<close>

definition lit :: "string \<Rightarrow> bytes" where
  "lit s = map of_char s"

lemma length_lit [simp]: "length (lit s) = length s"
  by (simp add: lit_def)

lemma lit_Nil_iff [simp]: "lit s = [] \<longleftrightarrow> s = []"
  by (simp add: lit_def)

lemma take_app_exact: "length xs = n \<Longrightarrow> take n (xs @ ys) = xs"
  by simp

lemma drop_app_exact: "length xs = n \<Longrightarrow> drop n (xs @ ys) = ys"
  by simp

lemma list_ge_1: "1 \<le> length xs \<Longrightarrow> \<exists>a ys. xs = a # ys"
  by (cases xs) auto

lemma Suc_le_length_conv: "Suc n \<le> length xs \<longleftrightarrow> (\<exists>a ys. xs = a # ys \<and> n \<le> length ys)"
  by (cases xs) auto

lemma length_numeral_split:
  "numeral k \<le> length xs \<longleftrightarrow> (\<exists>a ys. xs = a # ys \<and> pred_numeral k \<le> length ys)"
  by (simp add: numeral_eq_Suc Suc_le_length_conv)

lemma uint_int: "uint w = int (unat w)"
  by simp

lemma unat_lt_iff: "unat w < n \<longleftrightarrow> uint w < int n"
  by (simp add: uint_int del: of_nat_unat)

lemma unat_ucast_le:
  "LENGTH('a::len) \<le> LENGTH('b::len) \<Longrightarrow> unat (ucast (w::'a word) :: 'b word) = unat w"
  by transfer (simp add: take_bit_nat_eq_self min_absorb2)

subsection \<open>Maps as association lists\<close>

text \<open>
  A \<open>std::map\<close> or \<open>std::unordered_map\<close> is an association list, which gives it an iteration
  order. \<open>insert\<close> keeps the value of a key that is present, \<open>m[k] = v\<close> is \<open>AList.update\<close>,
  \<open>erase\<close> is \<open>AList.delete\<close> and \<open>find\<close> is \<open>map_of\<close>.
\<close>

definition um_insert :: "'k \<Rightarrow> 'v \<Rightarrow> ('k \<times> 'v) list \<Rightarrow> ('k \<times> 'v) list" where
  "um_insert k v m = (if map_of m k = None then (k, v) # m else m)"

abbreviation distinct_keys :: "('k \<times> 'v) list \<Rightarrow> bool" where
  "distinct_keys m \<equiv> distinct (map fst m)"

lemma map_of_um_insert: "map_of (um_insert k v m) = (if map_of m k = None then (map_of m)(k \<mapsto> v) else map_of m)"
  by (simp add: um_insert_def)

lemma distinct_um_insert: "distinct_keys m \<Longrightarrow> distinct_keys (um_insert k v m)"
  by (auto simp: um_insert_def map_of_eq_None_iff)

lemma map_of_AList_update: "map_of (AList.update k v m) = (map_of m)(k \<mapsto> v)"
  by (simp add: update_conv')

lemma map_of_AList_delete: "map_of (AList.delete k m) = (map_of m)(k := None)"
  by (rule delete_conv')

lemma distinct_AList: "distinct_keys m \<Longrightarrow> distinct_keys (AList.update k v m)"
    "distinct_keys m \<Longrightarrow> distinct_keys (AList.delete k m)"
  by (simp_all add: distinct_update distinct_delete)

lemmas um_simps = map_of_um_insert map_of_AList_update map_of_AList_delete

end
