(* ===== verification/Data_Buffer.thy ===== *)
theory Data_Buffer
  imports MS_Prelude
begin

text \<open>
  The growable byte buffer of \<open>src/utils/data_buffer.cpp\<close>, which every protocol component
  uses to collect received bytes and to build messages. The record keeps the allocated block
  itself, so the model has the three branches of \<open>append_data\<close> (reallocate, move to the
  front, append in place) with their \<open>memcpy\<close> calls bounds-checked.

  \<open>content\<close> abstracts a buffer to the byte sequence a client sees. The locale \<open>byte_fifo\<close> is
  the contract the protocol components rely on when they treat a buffer as a byte sequence;
  it is interpreted on the model of the class.
\<close>

definition EXTRA_LEN :: int where "EXTRA_LEN = 10 * 1024"
definition PRE_RESERVE_HEADER_SIZE :: int where "PRE_RESERVE_HEADER_SIZE = 200"

text \<open>
  \<open>int\<close> fields are mathematical integers reduced by \<open>i32\<close> where the code assigns them;
  \<open>to_size\<close> is the conversion to \<open>size_t\<close>, whose arithmetic is modulo \<open>2 ^ 64\<close>.
\<close>

definition i32 :: "int \<Rightarrow> int" where "i32 x = signed_take_bit 31 x"
definition to_size :: "int \<Rightarrow> nat" where "to_size i = nat (i mod 2 ^ 64)"

record data_buffer =
  db_buffer :: bytes
  db_buffer_size :: nat
  db_data_len :: int
  db_start :: int
  db_end :: int

text \<open>Memory accessed at a signed offset, and \<open>memcpy\<close> inside one block.\<close>

definition imem_read :: "bytes \<Rightarrow> int \<Rightarrow> int \<Rightarrow> bytes cxx" where
  "imem_read m i n = (if i < 0 \<or> n < 0 then Inl OutOfBounds else mem_read m (nat i) (nat n))"

definition imem_write :: "bytes \<Rightarrow> int \<Rightarrow> bytes \<Rightarrow> bytes cxx" where
  "imem_write m i xs = (if i < 0 then Inl OutOfBounds else mem_write m (nat i) xs)"

definition memcpy_within :: "bytes \<Rightarrow> int \<Rightarrow> int \<Rightarrow> int \<Rightarrow> bytes cxx" where
  "memcpy_within m dst src n =
     (if 0 < n \<and> dst < src + n \<and> src < dst + n then Inl MemcpyOverlap
      else cxx_bind (imem_read m src n) (imem_write m dst))"

text \<open>\<open>new char[n]\<close>: the contents of fresh memory are arbitrary, given by \<open>fresh\<close>.\<close>

definition new_char :: "(nat \<Rightarrow> u8) \<Rightarrow> int \<Rightarrow> bytes cxx" where
  "new_char fresh n =
     (if n < 0 then Inl (Throw ''bad_array_new_length'') else Inr (map fresh [0..<nat n]))"

subsection \<open>The operations of the class\<close>

definition new_data_buffer :: "(nat \<Rightarrow> u8) \<Rightarrow> nat \<Rightarrow> data_buffer" where
  "new_data_buffer fresh data_size =
     \<lparr>db_buffer = replicate data_size 0 @ map fresh [data_size ..< data_size + 200],
      db_buffer_size = data_size, db_data_len = 0,
      db_start = PRE_RESERVE_HEADER_SIZE, db_end = PRE_RESERVE_HEADER_SIZE\<rparr>"

definition append_data :: "(nat \<Rightarrow> u8) \<Rightarrow> bytes \<Rightarrow> data_buffer \<Rightarrow> (int \<times> data_buffer) cxx" where
  "append_data fresh input b =
     (if input = [] then Inr (0, b)
      else
       let n = int (length input);
           cap = to_size (int (db_buffer_size b) - PRE_RESERVE_HEADER_SIZE)
       in if cap < to_size (db_end b + n) then
            if cap \<le> to_size (db_data_len b + n) then
              let new_len = i32 (db_data_len b + i32 n + EXTRA_LEN) in
              cxx_bind (new_char fresh new_len) (\<lambda>m0.
              cxx_bind (imem_read (db_buffer b) (db_start b) (db_data_len b)) (\<lambda>old.
              cxx_bind (imem_write m0 PRE_RESERVE_HEADER_SIZE old) (\<lambda>m1.
              cxx_bind (imem_write m1 (PRE_RESERVE_HEADER_SIZE + db_data_len b) input) (\<lambda>m2.
              let data_len' = i32 (db_data_len b + n) in
              Inr (data_len', b\<lparr>db_buffer := m2, db_buffer_size := nat new_len,
                 db_data_len := data_len', db_start := PRE_RESERVE_HEADER_SIZE,
                 db_end := i32 (PRE_RESERVE_HEADER_SIZE + data_len')\<rparr>)))))
            else
              cxx_bind
                (if db_start b \<le> db_data_len b then
                   cxx_bind (imem_read (db_buffer b) (db_start b) (db_data_len b))
                     (imem_write (db_buffer b) PRE_RESERVE_HEADER_SIZE)
                 else memcpy_within (db_buffer b) PRE_RESERVE_HEADER_SIZE (db_start b) (db_data_len b)) (\<lambda>m1.
              cxx_bind (imem_write m1 (PRE_RESERVE_HEADER_SIZE + db_data_len b) input) (\<lambda>m2.
              let data_len' = i32 (db_data_len b + n) in
              Inr (data_len', b\<lparr>db_buffer := m2, db_data_len := data_len',
                 db_start := PRE_RESERVE_HEADER_SIZE,
                 db_end := i32 (PRE_RESERVE_HEADER_SIZE + data_len')\<rparr>)))
          else
            cxx_bind (imem_write (db_buffer b) (db_end b) input) (\<lambda>m1.
            let data_len' = i32 (db_data_len b + i32 n) in
            Inr (data_len', b\<lparr>db_buffer := m1, db_data_len := data_len',
               db_end := i32 (db_end b + i32 n)\<rparr>)))"

text \<open>\<open>consume_data\<close> returns the new data pointer (an offset into the block) or null.\<close>

definition consume_data :: "int \<Rightarrow> data_buffer \<Rightarrow> int option \<times> data_buffer" where
  "consume_data consume_len b =
     (if db_data_len b < consume_len then (None, b)
      else if consume_len < 0 \<and> db_start b + consume_len < 0 then (None, b)
      else (Some (db_start b + consume_len),
            b\<lparr>db_start := db_start b + consume_len, db_data_len := db_data_len b - consume_len\<rparr>))"

definition reset_buffer :: "data_buffer \<Rightarrow> data_buffer" where
  "reset_buffer b = b\<lparr>db_start := PRE_RESERVE_HEADER_SIZE, db_end := PRE_RESERVE_HEADER_SIZE,
     db_data_len := 0\<rparr>"

definition data_pointer :: "data_buffer \<Rightarrow> int" where
  "data_pointer b = db_start b"

definition data_length :: "data_buffer \<Rightarrow> nat" where
  "data_length b = to_size (db_data_len b)"

definition require_len :: "nat \<Rightarrow> data_buffer \<Rightarrow> bool" where
  "require_len len b = (i32 (int len) \<le> db_data_len b)"

subsection \<open>Abstraction and invariant\<close>

definition content :: "data_buffer \<Rightarrow> bytes" where
  "content b = take (nat (db_data_len b)) (drop (nat (db_start b)) (db_buffer b))"

definition db_inv :: "data_buffer \<Rightarrow> bool" where
  "db_inv b \<longleftrightarrow> 0 \<le> db_start b \<and> 0 \<le> db_data_len b \<and> db_end b = db_start b + db_data_len b \<and>
     db_end b \<le> int (length (db_buffer b)) \<and> db_buffer_size b \<le> length (db_buffer b) \<and>
     length (db_buffer b) < 2 ^ 31 \<and> 200 \<le> db_buffer_size b"

text \<open>Where \<open>append_data\<close> calls \<open>memcpy\<close> on overlapping regions.\<close>

definition overlap_case :: "data_buffer \<Rightarrow> nat \<Rightarrow> bool" where
  "overlap_case b n \<longleftrightarrow> 0 < n \<and> 0 < db_data_len b \<and> db_data_len b < db_start b \<and>
     db_start b < 200 + db_data_len b \<and> 200 < db_start b + db_data_len b \<and>
     int (db_buffer_size b) - 200 < db_end b + int n \<and>
     db_data_len b + int n < int (db_buffer_size b) - 200"

definition INT_LIMIT :: nat where "INT_LIMIT = 2 ^ 31 - 10 * 1024 - 201"

text \<open>What a correct append gives.\<close>

definition appends :: "data_buffer \<Rightarrow> bytes \<Rightarrow> (int \<times> data_buffer) cxx \<Rightarrow> bool" where
  "appends b xs r \<longleftrightarrow> (\<exists>b'. r = Inr (int (length (content b @ xs)), b') \<and> db_inv b' \<and> content b' = content b @ xs)"

subsection \<open>Sequences of operations, and their specification on byte sequences\<close>

datatype fifo_op = Put bytes | Take nat | Clear

fun run_op :: "(nat \<Rightarrow> u8) \<Rightarrow> fifo_op \<Rightarrow> data_buffer \<Rightarrow> data_buffer cxx" where
  "run_op fresh (Put xs) b = cxx_bind (append_data fresh xs b) (\<lambda>(r, b'). Inr b')"
| "run_op fresh (Take n) b = Inr (snd (consume_data (int n) b))"
| "run_op fresh Clear b = Inr (reset_buffer b)"

fun run_ops :: "('op \<Rightarrow> 'b \<Rightarrow> 'b cxx) \<Rightarrow> 'op list \<Rightarrow> 'b \<Rightarrow> 'b cxx" where
  "run_ops step [] b = Inr b"
| "run_ops step (x # xs) b = cxx_bind (step x b) (run_ops step xs)"

text \<open>A \<open>Take\<close> of more bytes than there are is refused and changes nothing.\<close>

fun fifo_spec :: "fifo_op \<Rightarrow> bytes \<Rightarrow> bytes" where
  "fifo_spec (Put xs) c = c @ xs"
| "fifo_spec (Take n) c = (if n \<le> length c then drop n c else c)"
| "fifo_spec Clear c = []"

fun fifo_within :: "nat \<Rightarrow> fifo_op list \<Rightarrow> bytes \<Rightarrow> bool" where
  "fifo_within lim [] c \<longleftrightarrow> length c \<le> lim"
| "fifo_within lim (x # xs) c \<longleftrightarrow> length c \<le> lim \<and> fifo_within lim xs (fifo_spec x c)"

subsection \<open>Lemmas on the arithmetic and the block\<close>

lemma i32_id: "- (2 ^ 31) \<le> x \<Longrightarrow> x < 2 ^ 31 \<Longrightarrow> i32 x = x"
  unfolding i32_def by (rule signed_take_bit_int_eq_self) auto

lemma to_size_id: "0 \<le> x \<Longrightarrow> x < 2 ^ 64 \<Longrightarrow> to_size x = nat x"
  by (simp add: to_size_def)

lemma mem_write_adjacent:
  assumes "mem_write m i xs = Inr m1" and "mem_write m1 (i + length xs) ys = Inr m2"
  shows "take (length xs + length ys) (drop i m2) = xs @ ys"
    and "length m2 = length m" and "i + length xs + length ys \<le> length m"
  using assms by (auto simp: mem_write_def split: if_splits)

lemma length_content: "db_inv b \<Longrightarrow> length (content b) = nat (db_data_len b)"
  by (auto simp: content_def db_inv_def)

lemma db_inv_reads:
  "db_inv b \<Longrightarrow> imem_read (db_buffer b) (db_start b) (db_data_len b) = Inr (content b)"
  by (auto simp: db_inv_def imem_read_def mem_read_def content_def)

text \<open>A block that holds old contents and new bytes from offset 200 on.\<close>

lemma content_after_move:
  assumes "imem_write m 200 old = Inr m1" "imem_write m1 (200 + int (length old)) xs = Inr m2"
    and "db_buffer b = m2" "db_start b = 200" "db_data_len b = int (length old + length xs)"
  shows "content b = old @ xs"
proof -
  have "mem_write m 200 old = Inr m1" "mem_write m1 (200 + length old) xs = Inr m2"
    using assms(1,2) by (simp_all add: imem_write_def nat_add_distrib)
  then show ?thesis
    using mem_write_adjacent(1) [of m 200 old m1 xs m2] assms(3-5)
    by (simp add: content_def nat_add_distrib)
qed

lemma move_writes:
  assumes "200 + length old + length xs \<le> length m"
  shows "\<exists>m1 m2. imem_write m 200 old = Inr m1 \<and>
     imem_write m1 (200 + int (length old)) xs = Inr m2 \<and> length m2 = length m"
  using assms by (auto simp: imem_write_def mem_write_def nat_add_distrib)

lemma append_guards:
  assumes "db_inv b" and "length (content b) + length xs \<le> INT_LIMIT"
  shows "db_data_len b = int (length (content b))"
    and "to_size (int (db_buffer_size b) - 200) < to_size (db_end b + int (length xs)) \<longleftrightarrow>
      int (db_buffer_size b) - 200 < db_end b + int (length xs)"
    and "to_size (int (db_buffer_size b) - 200) \<le> to_size (int (length (content b)) + int (length xs)) \<longleftrightarrow>
      int (db_buffer_size b) - 200 \<le> int (length (content b)) + int (length xs)"
    and "i32 (int (length xs)) = int (length xs)"
    and "i32 (int (length (content b)) + int (length xs)) = int (length (content b)) + int (length xs)"
    and "i32 (int (length (content b)) + int (length xs) + 10240) = int (length (content b)) + int (length xs) + 10240"
    and "i32 (200 + (int (length (content b)) + int (length xs))) = 200 + (int (length (content b)) + int (length xs))"
    and "nat (int (length (content b)) + int (length xs) + 10240) = length (content b) + length xs + 10240"
proof -
  show dl: "db_data_len b = int (length (content b))"
    using length_content assms(1) by (simp add: db_inv_def)
  have e: "0 \<le> db_end b" "db_end b < 2 ^ 31" "db_buffer_size b < 2 ^ 31" "200 \<le> db_buffer_size b" 
    using assms(1) by (auto simp: db_inv_def)
  show "to_size (int (db_buffer_size b) - 200) < to_size (db_end b + int (length xs)) \<longleftrightarrow>
      int (db_buffer_size b) - 200 < db_end b + int (length xs)"
    "to_size (int (db_buffer_size b) - 200) \<le> to_size (int (length (content b)) + int (length xs)) \<longleftrightarrow>
      int (db_buffer_size b) - 200 \<le> int (length (content b)) + int (length xs)"
    using e assms(2) by (auto simp: to_size_id INT_LIMIT_def nat_le_eq_zle nat_less_eq_zless)
qed (use assms(2) in \<open>auto simp: i32_id INT_LIMIT_def nat_add_distrib\<close>)

lemma append_realloc:
  assumes inv: "db_inv b" and ne: "xs \<noteq> []" and lim: "length (content b) + length xs \<le> INT_LIMIT"
    and c1: "int (db_buffer_size b) - 200 < db_end b + int (length xs)"
    and c2: "int (db_buffer_size b) - 200 \<le> db_data_len b + int (length xs)"
  shows "appends b xs (append_data fresh xs b)"
proof -
  let ?n = "length xs" let ?dl = "length (content b)"
  note g = append_guards [OF inv lim]
  note dl = g(1)
  have rd: "imem_read (db_buffer b) (db_start b) (int ?dl) = Inr (content b)"
    using db_inv_reads [OF inv] dl by simp
  let ?m0 = "map fresh [0..<?dl + ?n + 10240]"
  obtain m1 m2 where w: "imem_write ?m0 200 (content b) = Inr m1"
     "imem_write m1 (200 + int ?dl) xs = Inr m2" "length m2 = length ?m0"
    using move_writes [of "content b" xs ?m0] by auto
  let ?b = "b\<lparr>db_buffer := m2, db_buffer_size := ?dl + ?n + 10240, db_data_len := int (?dl + ?n),
      db_start := 200, db_end := 200 + int (?dl + ?n)\<rparr>"
  have "append_data fresh xs b = Inr (int (?dl + ?n), ?b)"
    using ne c1 c2 inv
    by (simp add: append_data_def Let_def g EXTRA_LEN_def PRE_RESERVE_HEADER_SIZE_def new_char_def rd w)
  moreover have "content ?b = content b @ xs" 
    by (rule content_after_move [OF w(1,2)]) auto
  moreover have "db_inv ?b" using w(3) lim by (simp add: db_inv_def INT_LIMIT_def)
  ultimately show ?thesis by (auto simp: appends_def)
qed
lemma append_move:
  assumes inv: "db_inv b" and ne: "xs \<noteq> []" and lim: "length (content b) + length xs \<le> INT_LIMIT"
    and c1: "int (db_buffer_size b) - 200 < db_end b + int (length xs)"
    and c2: "\<not> int (db_buffer_size b) - 200 \<le> db_data_len b + int (length xs)"
  shows "if overlap_case b (length xs) then append_data fresh xs b = Inl MemcpyOverlap
     else appends b xs (append_data fresh xs b)"
proof -
  let ?n = "length xs" let ?dl = "length (content b)"
  note g = append_guards [OF inv lim]
  note dl = g(1)
  obtain m1 m2 where w: "imem_write (db_buffer b) 200 (content b) = Inr m1"
     "imem_write m1 (200 + int ?dl) xs = Inr m2" "length m2 = length (db_buffer b)"
    using move_writes [of "content b" xs "db_buffer b"] c2 inv dl by (auto simp: db_inv_def)
  let ?b = "b\<lparr>db_buffer := m2, db_data_len := int (?dl + ?n),
      db_start := 200, db_end := 200 + int (?dl + ?n)\<rparr>"
  let ?cp = "if db_start b \<le> db_data_len b then
        cxx_bind (imem_read (db_buffer b) (db_start b) (db_data_len b)) (imem_write (db_buffer b) 200)
      else memcpy_within (db_buffer b) 200 (db_start b) (db_data_len b)"
  have eq: "append_data fresh xs b = cxx_bind ?cp (\<lambda>m1. cxx_bind (imem_write m1 (200 + int ?dl) xs)
      (\<lambda>m2. Inr (int (?dl + ?n), b\<lparr>db_buffer := m2, db_data_len := int (?dl + ?n),
      db_start := 200, db_end := 200 + int (?dl + ?n)\<rparr>)))"
    using ne c1 c2 inv by (simp add: append_data_def Let_def g PRE_RESERVE_HEADER_SIZE_def)
  have rd: "imem_read (db_buffer b) (db_start b) (db_data_len b) = Inr (content b)"
    by (rule db_inv_reads [OF inv])
  show ?thesis
  proof (cases "overlap_case b ?n")
    case True
    then have "?cp = Inl MemcpyOverlap" by (auto simp: overlap_case_def memcpy_within_def)
    with True show ?thesis by (simp only: eq) simp
  next
    case False
    then have "?cp = Inr m1"
      using c1 c2 ne rd w(1) by (auto simp: overlap_case_def memcpy_within_def)
    then have "append_data fresh xs b = Inr (int (?dl + ?n), ?b)" by (simp only: eq) (simp add: w(2))
    moreover have "content ?b = content b @ xs"
      by (rule content_after_move [OF w(1,2)]) auto
    moreover have "db_inv ?b" using w(3) lim c2 dl inv by (simp add: db_inv_def INT_LIMIT_def)
    ultimately show ?thesis using False by (auto simp: appends_def)
  qed
qed

lemma append_in_place:
  assumes inv: "db_inv b" and ne: "xs \<noteq> []" and lim: "length (content b) + length xs \<le> INT_LIMIT"
    and c1: "\<not> int (db_buffer_size b) - 200 < db_end b + int (length xs)"
  shows "appends b xs (append_data fresh xs b)"
proof -
  let ?n = "length xs" let ?dl = "length (content b)"
  note g = append_guards [OF inv lim]
  note dl = g(1)
  have i: "i32 (db_end b + int ?n) = db_end b + int ?n"
    using inv c1 by (auto simp: i32_id db_inv_def)
  have p: "0 \<le> db_end b" using inv by (simp add: db_inv_def)
  have fits: "nat (db_end b) + ?n \<le> length (db_buffer b)" and se: "nat (db_end b) = nat (db_start b) + ?dl"
    using inv c1 dl by (auto simp: db_inv_def)
  have wr: "imem_write (db_buffer b) (db_end b) xs =
      Inr (take (nat (db_end b)) (db_buffer b) @ xs @ drop (nat (db_end b) + ?n) (db_buffer b))"
    using p fits by (simp add: imem_write_def mem_write_def)
  let ?m = "take (nat (db_end b)) (db_buffer b) @ xs @ drop (nat (db_end b) + ?n) (db_buffer b)"
  let ?b = "b\<lparr>db_buffer := ?m, db_data_len := int (?dl + ?n), db_end := db_end b + int ?n\<rparr>"
  have "append_data fresh xs b = Inr (int (?dl + ?n), ?b)"
    using ne c1 by (simp add: append_data_def Let_def g i PRE_RESERVE_HEADER_SIZE_def wr)
  moreover have "content ?b = content b @ xs"
  proof -
    obtain k where k: "length (content b) = k" by simp
    then have dlk: "db_data_len b = int k" using dl by simp
    have cb: "content b = take k (drop (nat (db_start b)) (db_buffer b))"
      by (simp add: content_def dlk)
    have "content ?b = take (k + ?n) (drop (nat (db_start b)) ?m)"
      unfolding content_def [of ?b] by (simp add: k nat_add_distrib)
    with fits se k show ?thesis by (simp add: cb drop_take)
  qed
  moreover have "db_inv ?b" using fits se inv dl by (simp add: db_inv_def)
  ultimately show ?thesis by (auto simp: appends_def)
qed

lemma append_contract:
  assumes "db_inv b" and "length (content b) + length xs \<le> INT_LIMIT"
  shows "if overlap_case b (length xs) then append_data fresh xs b = Inl MemcpyOverlap
     else \<exists>r b'. append_data fresh xs b = Inr (r, b') \<and> db_inv b' \<and> content b' = content b @ xs \<and>
       (xs \<noteq> [] \<longrightarrow> r = int (length (content b')))"
proof (cases "xs = []")
  case True
  with assms show ?thesis by (simp add: append_data_def overlap_case_def)
next
  case False
  note g = append_guards [OF assms]
  consider "\<not> int (db_buffer_size b) - 200 < db_end b + int (length xs)"
    | "int (db_buffer_size b) - 200 < db_end b + int (length xs)" "int (db_buffer_size b) - 200 \<le> db_data_len b + int (length xs)"
    | "int (db_buffer_size b) - 200 < db_end b + int (length xs)" "\<not> int (db_buffer_size b) - 200 \<le> db_data_len b + int (length xs)"
    by blast
  then show ?thesis
  proof cases
    case 1
    with append_in_place [OF assms(1) False assms(2)] show ?thesis
      by (fastforce simp: appends_def overlap_case_def)
  next
    case 2
    with append_realloc [OF assms(1) False assms(2)] show ?thesis
      by (fastforce simp: appends_def overlap_case_def)
  next
    case 3
    with append_move [OF assms(1) False assms(2), of fresh] show ?thesis
      by (auto simp: appends_def split: if_splits)
  qed
qed

lemma consume_refines:
  assumes "db_inv b" "n \<le> length (content b)"
  shows "\<exists>p. fst (consume_data (int n) b) = Some p" "db_inv (snd (consume_data (int n) b))"
    "content (snd (consume_data (int n) b)) = drop n (content b)"
proof -
  have dl: "db_data_len b = int (length (content b))" using assms(1) length_content by (simp add: db_inv_def)
  with assms(2) have c: "\<not> db_data_len b < int n" by simp
  then show "\<exists>p. fst (consume_data (int n) b) = Some p" by (simp add: consume_data_def)
  show "db_inv (snd (consume_data (int n) b))"
    using assms c by (auto simp: consume_data_def db_inv_def)
  show "content (snd (consume_data (int n) b)) = drop n (content b)"
    using assms c by (auto simp: consume_data_def content_def db_inv_def drop_take nat_add_distrib nat_diff_distrib add.commute)
qed

lemma prepend_refines:
  assumes "db_inv b" "int k \<le> db_start b" 
  shows "db_inv (snd (consume_data (- int k) b))"
    "fst (consume_data (- int k) b) = Some (db_start b - int k)"
    "content (snd (consume_data (- int k) b)) = take k (drop (nat (db_start b) - k) (db_buffer b)) @ content b"
proof -
  have dl: "0 \<le> db_data_len b" using assms(1) by (simp add: db_inv_def)
  show "db_inv (snd (consume_data (- int k) b))" "fst (consume_data (- int k) b) = Some (db_start b - int k)"
    using assms dl by (auto simp: consume_data_def db_inv_def)
  have e: "nat (db_start b - int k) = nat (db_start b) - k" "nat (db_data_len b + int k) = k + nat (db_data_len b)"
    using assms dl by auto
  have "k \<le> nat (db_start b)" using assms by simp
  then show "content (snd (consume_data (- int k) b)) = take k (drop (nat (db_start b) - k) (db_buffer b)) @ content b"
    using assms dl by (simp add: consume_data_def content_def e take_add drop_drop) 
qed

lemma require_refines: "db_inv b \<Longrightarrow> n < 2 ^ 31 \<Longrightarrow> require_len n b \<longleftrightarrow> n \<le> length (content b)"
  by (auto simp: require_len_def i32_id length_content db_inv_def)

lemma reset_refines: "db_inv b \<Longrightarrow> db_inv (reset_buffer b) \<and> content (reset_buffer b) = []"
  by (auto simp: reset_buffer_def db_inv_def content_def PRE_RESERVE_HEADER_SIZE_def)

lemma new_refines:
  assumes "200 \<le> n" "n + 200 < 2 ^ 31" shows "db_inv (new_data_buffer fresh n) \<and> content (new_data_buffer fresh n) = []"
  using assms by (auto simp: new_data_buffer_def db_inv_def content_def PRE_RESERVE_HEADER_SIZE_def)

lemma empty_no_overlap: "db_inv b \<Longrightarrow> content b = [] \<Longrightarrow> \<not> overlap_case b n"
  using length_content [of b] by (auto simp: overlap_case_def)

subsection \<open>The buffer as a byte queue\<close>

locale byte_fifo =
  fixes inv :: "'b \<Rightarrow> bool"
    and cont :: "'b \<Rightarrow> bytes"
    and step :: "fifo_op \<Rightarrow> 'b \<Rightarrow> 'b cxx"
    and lim :: nat
  assumes step_ok: "inv b \<Longrightarrow> length (cont b) \<le> lim \<Longrightarrow> length (fifo_spec x (cont b)) \<le> lim \<Longrightarrow>
      step x b = Inr b' \<Longrightarrow> inv b' \<and> cont b' = fifo_spec x (cont b)"
    and step_stop: "inv b \<Longrightarrow> length (cont b) \<le> lim \<Longrightarrow> length (fifo_spec x (cont b)) \<le> lim \<Longrightarrow>
      step x b = Inl e \<Longrightarrow> e = MemcpyOverlap"
begin

lemma within_head: "fifo_within lim xs c \<Longrightarrow> length c \<le> lim"
  by (cases xs) auto

lemma run_refines:
  assumes "inv b" and "fifo_within lim xs (cont b)"
  shows "case run_ops step xs b of Inl e \<Rightarrow> e = MemcpyOverlap
     | Inr b' \<Rightarrow> inv b' \<and> cont b' = fold fifo_spec xs (cont b)"
  using assms
proof (induction xs arbitrary: b)
  case Nil
  then show ?case by simp
next
  case (Cons x xs)
  then have w: "length (cont b) \<le> lim" "fifo_within lim xs (fifo_spec x (cont b))" by simp_all
  note w' = within_head [OF w(2)]
  show ?case
  proof (cases "step x b")
    case (Inl e)
    with step_stop [OF Cons.prems(1) w(1) w'] show ?thesis by simp
  next
    case (Inr b')
    with step_ok [OF Cons.prems(1) w(1) w'] have "inv b'" "cont b' = fifo_spec x (cont b)" by blast+
    with Cons.IH [of b'] w(2) Inr show ?thesis by (auto split: sum.splits)
  qed
qed

end

interpretation dbq: byte_fifo db_inv content "run_op fresh" INT_LIMIT for fresh
proof
  fix b x b' e
  assume b: "db_inv b" "length (content b) \<le> INT_LIMIT" "length (fifo_spec x (content b)) \<le> INT_LIMIT"
  have big: "\<not> n \<le> length (content b) \<Longrightarrow> consume_data (int n) b = (None, b)" for n
    using b(1) length_content [of b] by (auto simp: consume_data_def db_inv_def)
  {
    assume "run_op fresh x b = Inr b'"
    then show "db_inv b' \<and> content b' = fifo_spec x (content b)"
      using b append_contract [OF b(1), of _ fresh] consume_refines [OF b(1)] big reset_refines [OF b(1)]
      by (cases x) (fastforce simp: cxx_bind_Inr_iff split: if_splits)+
  next
    assume "run_op fresh x b = Inl e"
    then show "e = MemcpyOverlap"
      using b append_contract [OF b(1), of _ fresh]
      by (cases x) (fastforce simp: cxx_bind_Inl_iff split: if_splits)+
  }
qed

text \<open>
  \<open>append_data\<close> implements appending: on a well-formed buffer whose length stays below the
  \<open>int\<close> limit it keeps the invariant, the visible bytes become the old ones followed by the
  input and the result is the new length, in each of its three branches and whatever fresh
  memory contains. It never writes outside its block. The one exception is exactly
  \<open>overlap_case\<close>: the data has to be moved to the front, is shorter than its offset and the
  two regions overlap, and then \<open>memcpy\<close> is called on overlapping regions.
\<close>
theorem append_data_refines:
  assumes "db_inv b" and "length (content b) + length xs \<le> INT_LIMIT"
  shows "if overlap_case b (length xs) then append_data fresh xs b = Inl MemcpyOverlap
     else \<exists>r b'. append_data fresh xs b = Inr (r, b') \<and> db_inv b' \<and> content b' = content b @ xs \<and>
       (xs \<noteq> [] \<longrightarrow> r = int (length (content b')))"
  by (rule append_contract [OF assms])

theorem append_data_refines_witness:
  "\<exists>r b'. append_data (\<lambda>_. 7) [1, 2, 3] (new_data_buffer (\<lambda>_. 7) 10240) = Inr (r, b') \<and>
     db_inv b' \<and> content b' = [1, 2, 3] \<and> r = 3"
  using append_data_refines [of "new_data_buffer (\<lambda>_. 7) 10240" "[1, 2, 3]" "\<lambda>_. 7"]
    new_refines [of 10240 "\<lambda>_. 7"]
    empty_no_overlap [of "new_data_buffer (\<lambda>_. 7) 10240"]
  by (auto simp: INT_LIMIT_def)

text \<open>
  C24. Any sequence of appends, consumes and resets on a buffer made by the constructor
  behaves as the same sequence on a plain byte sequence, as long as the visible length stays
  below the \<open>int\<close> limit: the run gives a well-formed buffer with exactly the specified bytes,
  or it stops in the overlapping \<open>memcpy\<close> of C1. This is what lets the protocol components
  be modelled on byte sequences.
\<close>

theorem data_buffer_refines_queue:
  assumes "200 \<le> n" and "n + 200 < 2 ^ 31" and "fifo_within INT_LIMIT xs []"
  shows "case run_ops (run_op fresh) xs (new_data_buffer fresh n) of
       Inl e \<Rightarrow> e = MemcpyOverlap
     | Inr b' \<Rightarrow> db_inv b' \<and> content b' = fold fifo_spec xs []"
proof -
  from new_refines [OF assms(1,2)] have "db_inv (new_data_buffer fresh n)"
    and "content (new_data_buffer fresh n) = []" by auto
  with dbq.run_refines [of "new_data_buffer fresh n" xs fresh] assms(3) show ?thesis
    by (auto split: sum.splits)
qed

theorem data_buffer_refines_queue_witness:
  "case run_ops (run_op (\<lambda>_. 7)) [Put [1, 2], Take 1, Put [3], Take 9, Take 1]
      (new_data_buffer (\<lambda>_. 7) 10240) of
       Inl e \<Rightarrow> e = MemcpyOverlap
     | Inr b' \<Rightarrow> db_inv b' \<and> content b' = [3]"
  using data_buffer_refines_queue [of 10240 "[Put [1, 2], Take 1, Put [3], Take 9, Take 1]" "\<lambda>_. 7"]
  by (auto simp: INT_LIMIT_def simp del: run_ops.simps split: sum.splits)

end
