(* ===== verification/Http.thy ===== *)
theory Http
  imports Data_Buffer
begin

text \<open>
  HTTP: the string helper \<open>string_split\<close> (\<open>src/utils/stringex.hpp\<close>), the activity counter
  (\<open>src/utils/session_aliver.hpp\<close>), requests and responses (\<open>src/net/http/http_common.hpp\<close>),
  the session's header parser and read handler (\<open>src/net/http/http_session.cpp\<close>) and the
  handler lookup (\<open>src/net/http/http_server.cpp\<close>). Buffers are byte sequences; what a session
  asks of its socket and its server are effects in the result.
\<close>

subsection \<open>Strings of the standard library\<close>

text \<open>\<open>std::string::find\<close>, \<open>substr(pos)\<close> (which throws beyond the end) and \<open>atoi\<close>.\<close>

fun str_find :: "bytes \<Rightarrow> bytes \<Rightarrow> nat option" where
  "str_find pat s =
     (if take (length pat) s = pat then Some 0
      else case s of [] \<Rightarrow> None | c # s' \<Rightarrow> map_option Suc (str_find pat s'))"

declare str_find.simps [simp del]

definition substr_from :: "nat \<Rightarrow> bytes \<Rightarrow> bytes cxx" where
  "substr_from pos s = (if length s < pos then Inl (Throw ''out_of_range'') else Inr (drop pos s))"

fun digits_val :: "int \<Rightarrow> bytes \<Rightarrow> int" where
  "digits_val acc [] = acc"
| "digits_val acc (c # cs) = (if 48 \<le> c \<and> c \<le> 57 then digits_val (10 * acc + uint (c - 48)) cs else acc)"

definition is_space :: "u8 \<Rightarrow> bool" where
  "is_space c \<longleftrightarrow> c = 32 \<or> (9 \<le> c \<and> c \<le> 13)"

text \<open>\<open>atoi\<close> is the conversion of \<open>strtol\<close>, which saturates at 64 bits, to \<open>int\<close>.\<close>

definition atoi :: "bytes \<Rightarrow> int" where
  "atoi s =
     (let s1 = dropWhile is_space s;
          v = (case s1 of [] \<Rightarrow> 0
               | c # cs \<Rightarrow> if c = 45 then - digits_val 0 cs else if c = 43 then digits_val 0 cs else digits_val 0 s1)
      in i32 (max (- (2 ^ 63)) (min (2 ^ 63 - 1) v)))"

fun show_nat :: "nat \<Rightarrow> bytes" where
  "show_nat n = (if n < 10 then [of_nat (48 + n)] else show_nat (n div 10) @ [of_nat (48 + n mod 10)])"

declare show_nat.simps [simp del]

text \<open>\<open>string_split\<close>; with an empty separator the loop never ends, which is \<open>OutOfFuel\<close> here.\<close>

fun split_loop :: "nat \<Rightarrow> bytes \<Rightarrow> bytes \<Rightarrow> bytes list cxx" where
  "split_loop 0 split_str s = Inl OutOfFuel"
| "split_loop (Suc fuel) split_str s =
     (case str_find split_str s of
        None \<Rightarrow> Inr [s]
      | Some pos \<Rightarrow>
          let rest = drop (pos + length split_str) s in
          if rest = [] then Inr [take pos s]
          else cxx_bind (split_loop fuel split_str rest) (\<lambda>v. Inr (take pos s # v)))"

definition string_split :: "bytes \<Rightarrow> bytes \<Rightarrow> bytes list cxx" where
  "string_split s split_str = (if s = [] then Inr [] else split_loop (Suc (length s)) split_str s)"

subsection \<open>The activity counter\<close>

record session_aliver =
  not_alive_cnt :: int
  try_max :: int

definition new_session_aliver :: session_aliver where
  "new_session_aliver = \<lparr>not_alive_cnt = 0, try_max = 4\<rparr>"

definition keep_alive :: "session_aliver \<Rightarrow> session_aliver" where
  "keep_alive a = a\<lparr>not_alive_cnt := 0\<rparr>"

definition is_alive :: "session_aliver \<Rightarrow> bool \<times> session_aliver" where
  "is_alive a = (\<not> try_max a < not_alive_cnt a, a\<lparr>not_alive_cnt := not_alive_cnt a + 1\<rparr>)"

subsection \<open>Requests, responses and sessions\<close>

record http_request =
  req_method :: bytes
  req_uri :: bytes
  req_version :: bytes
  req_content_body :: "bytes option"
  req_content_length :: int
  req_headers :: "(bytes \<times> bytes) list"

definition new_http_request :: http_request where
  "new_http_request = \<lparr>req_method = [], req_uri = [], req_version = [], req_content_body = None,
     req_content_length = 0, req_headers = []\<rparr>"

record http_response =
  resp_is_close :: bool
  written_header :: bool
  resp_status :: bytes
  resp_status_code :: nat
  resp_proto :: bytes
  resp_version :: bytes
  resp_headers :: "(bytes \<times> bytes) list"
  resp_session :: bool

definition new_http_response :: http_response where
  "new_http_response = \<lparr>resp_is_close = False, written_header = False, resp_status = lit ''OK'', resp_status_code = 200,
     resp_proto = lit ''HTTP'', resp_version = lit ''1.1'', resp_headers = [], resp_session = True\<rparr>"

definition CRLF :: bytes where "CRLF = [13, 10]"

definition response_head :: "nat \<Rightarrow> bool \<Rightarrow> http_response \<Rightarrow> bytes" where
  "response_head len continue_flag r =
     resp_proto r @ lit ''/'' @ resp_version r @ lit '' '' @ show_nat (resp_status_code r) @ lit '' '' @ resp_status r @ CRLF @
     (if continue_flag then [] else lit ''Content-Length:'' @ show_nat len @ CRLF) @
     concat (map (\<lambda>(k, v). k @ lit '': '' @ v @ CRLF) (resp_headers r)) @ CRLF"

text \<open>\<open>write\<close> gives the writes it asks of the session, in order.\<close>

definition response_write :: "bytes \<Rightarrow> bool \<Rightarrow> http_response \<Rightarrow> int \<times> bytes list \<times> http_response" where
  "response_write data continue_flag r =
     (if resp_is_close r \<or> \<not> resp_session r then (-1, [], r)
      else
        let (head, r') = (if \<not> written_header r
                          then ([response_head (length data) continue_flag r], r\<lparr>written_header := True\<rparr>)
                          else ([], r))
        in (0, head @ [data], r'))"

text \<open>\<open>close\<close>; the flag in the result says that the session is closed too.\<close>

definition response_close :: "http_response \<Rightarrow> (bool \<times> http_response) cxx" where
  "response_close r =
     (if resp_is_close r then Inr (False, r)
      else if \<not> resp_session r then Inl NullDeref
      else Inr (True, r\<lparr>resp_is_close := True, resp_session := False\<rparr>))"

definition set_close :: "bool \<Rightarrow> http_response \<Rightarrow> http_response" where
  "set_close flag r = r\<lparr>resp_is_close := flag, resp_session := False\<rparr>"

record http_session =
  header_data :: bytes
  content_data :: bytes
  hs_request :: http_request
  content_start :: int
  header_is_ready :: bool
  hs_is_closed :: bool
  hs_response :: "http_response option"
  hs_aliver :: session_aliver

definition new_http_session :: http_session where
  "new_http_session = \<lparr>header_data = [], content_data = [], hs_request = new_http_request, content_start = -1,
     header_is_ready = False, hs_is_closed = False, hs_response = None, hs_aliver = new_session_aliver\<rparr>"

definition session_close :: "http_session \<Rightarrow> http_session" where
  "session_close h =
     (if hs_is_closed h then h
      else h\<lparr>hs_is_closed := True, hs_response := map_option (set_close True) (hs_response h)\<rparr>)"

text \<open>One header line of \<open>analyze_header\<close>, and the loop; \<open>None\<close> is the return of -1.\<close>

definition header_line :: "bytes \<Rightarrow> http_request \<Rightarrow> http_request option cxx" where
  "header_line info_line rq =
     (case str_find (lit '':'') info_line of
        None \<Rightarrow> Inr None
      | Some pos \<Rightarrow>
          cxx_bind (substr_from (pos + 2) info_line) (\<lambda>value.
          let key = take pos info_line;
              rq1 = (if key = lit ''Content-Length'' then rq\<lparr>req_content_length := atoi value\<rparr> else rq)
          in Inr (Some (rq1\<lparr>req_headers := um_insert key value (req_headers rq1)\<rparr>))))"

fun header_lines :: "bytes list \<Rightarrow> http_request \<Rightarrow> (bool \<times> http_request) cxx" where
  "header_lines [] rq = Inr (True, rq)"
| "header_lines (l # ls) rq =
     cxx_bind (header_line l rq) (\<lambda>r. case r of None \<Rightarrow> Inr (False, rq) | Some rq' \<Rightarrow> header_lines ls rq')"

definition analyze_header :: "http_session \<Rightarrow> (int \<times> http_session) cxx" where
  "analyze_header h =
     (case str_find (CRLF @ CRLF) (header_data h) of
        None \<Rightarrow> Inr (0, h\<lparr>header_is_ready := False\<rparr>)
      | Some pos \<Rightarrow>
          let h1 = h\<lparr>content_start := i32 (int pos) + 4, header_is_ready := True\<rparr> in
          cxx_bind (string_split (take pos (header_data h)) CRLF) (\<lambda>header_vec.
          if header_vec = [] then Inr (-1, h1)
          else
            cxx_bind (string_split (hd header_vec) (lit '' '')) (\<lambda>version_vec.
            if length version_vec \<noteq> 3 then Inr (-1, h1)
            else
              let rq1 = (hs_request h1)\<lparr>req_method := version_vec ! 0, req_uri := version_vec ! 1\<rparr>;
                  version_info = version_vec ! 2 in
              case str_find (lit ''HTTP'') version_info of
                None \<Rightarrow> Inr (-1, h1\<lparr>hs_request := rq1\<rparr>)
              | Some vpos \<Rightarrow>
                  cxx_bind (substr_from (vpos + 5) version_info) (\<lambda>version.
                  cxx_bind (header_lines (tl header_vec) (rq1\<lparr>req_version := version\<rparr>)) (\<lambda>(ok, rq2).
                  Inr (if ok then 0 else -1, h1\<lparr>hs_request := rq2\<rparr>))))))"

datatype http_effect = TryRead | OnClose | CallHandle http_request

text \<open>Calling the handler of the request, or closing when there is none.\<close>

definition call_handle :: "(http_request \<Rightarrow> 'h option) \<Rightarrow> http_request \<Rightarrow> http_session \<Rightarrow> http_effect list \<times> http_session" where
  "call_handle get_handle rq h =
     (case get_handle rq of
        None \<Rightarrow> ([], session_close h)
      | Some f \<Rightarrow> ([CallHandle rq], h\<lparr>hs_response := Some new_http_response, hs_request := rq\<rparr>))"

definition serve_request :: "(http_request \<Rightarrow> 'h option) \<Rightarrow> http_session \<Rightarrow> http_effect list \<times> http_session" where
  "serve_request get_handle h =
     (let rq = hs_request h in
      if req_content_length rq = 0 \<or> req_method rq = lit ''GET'' then call_handle get_handle rq h
      else if req_content_length rq \<le> i32 (int (length (content_data h)))
      then call_handle (\<lambda>_. get_handle rq) (rq\<lparr>req_content_body := Some (content_data h)\<rparr>) h
      else ([TryRead], h))"

definition on_read :: "(http_request \<Rightarrow> 'h option) \<Rightarrow> int \<Rightarrow> bytes \<Rightarrow> http_session \<Rightarrow> (http_effect list \<times> http_session) cxx" where
  "on_read get_handle ret_code data h =
     (let h0 = (if ret_code \<noteq> 0 then session_close h else h);
          h1 = h0\<lparr>hs_aliver := keep_alive (hs_aliver h0)\<rparr> in
      if \<not> header_is_ready h1 then
        cxx_bind (analyze_header (h1\<lparr>header_data := header_data h1 @ data\<rparr>)) (\<lambda>(ret, h2).
        if ret \<noteq> 0 then Inr ([OnClose], h2)
        else if \<not> header_is_ready h2 then Inr ([TryRead], h2)
        else Inr (serve_request get_handle
               (h2\<lparr>content_data := content_data h2 @ drop (nat (content_start h2)) (header_data h2)\<rparr>)))
      else Inr (serve_request get_handle (h1\<lparr>content_data := content_data h1 @ data\<rparr>)))"

definition on_write :: "int \<Rightarrow> http_session \<Rightarrow> http_session" where
  "on_write ret_code h =
     (let h0 = (if ret_code \<noteq> 0 then session_close h else h) in h0\<lparr>hs_aliver := keep_alive (hs_aliver h0)\<rparr>)"

text \<open>
  \<open>get_handle\<close> of the server. Its last test compares an iterator of \<open>get_handle_map_\<close> with the
  end of \<open>post_handle_map_\<close>; both ends are null in the library used, so it is the test meant.
\<close>

record 'h http_server =
  get_handle_map :: "(bytes \<times> 'h) list"
  post_handle_map :: "(bytes \<times> 'h) list"

definition add_get_handle :: "bytes \<Rightarrow> 'h \<Rightarrow> 'h http_server \<Rightarrow> 'h http_server" where
  "add_get_handle uri f s = s\<lparr>get_handle_map := um_insert uri f (get_handle_map s)\<rparr>"

definition add_post_handle :: "bytes \<Rightarrow> 'h \<Rightarrow> 'h http_server \<Rightarrow> 'h http_server" where
  "add_post_handle uri f s = s\<lparr>post_handle_map := um_insert uri f (post_handle_map s)\<rparr>"

definition get_handle :: "'h http_server \<Rightarrow> http_request \<Rightarrow> 'h option" where
  "get_handle s rq =
     (let found = (if req_method rq = lit ''GET'' then map_of (get_handle_map s) (req_uri rq)
                   else if req_method rq = lit ''POST'' then map_of (post_handle_map s) (req_uri rq) else None)
      in case found of Some f \<Rightarrow> Some f | None \<Rightarrow> map_of (get_handle_map s) (lit ''/''))"

subsection \<open>Finding and splitting\<close>

lemma str_find_skip:
  assumes "\<And>i. i < length xs \<Longrightarrow> take (length pat) (drop i (xs @ ys)) \<noteq> pat"
  shows "str_find pat (xs @ ys) = map_option ((+) (length xs)) (str_find pat ys)"
  using assms
proof (induction xs)
  case Nil
  then show ?case by (simp add: option.map_id0 [unfolded id_def])
next
  case (Cons x xs)
  have "str_find pat (xs @ ys) = map_option ((+) (length xs)) (str_find pat ys)"
    using Cons.IH Cons.prems [of "Suc _"] by simp
  moreover have "take (length pat) ((x # xs) @ ys) \<noteq> pat" using Cons.prems [of 0] by simp
  ultimately show ?case
    by (subst str_find.simps) (cases "str_find pat ys", auto)
qed

lemma str_find_here: "str_find pat (pat @ ys) = Some 0"
  by (subst str_find.simps) simp

lemma str_find_sep:
  assumes "c \<notin> set seg" shows "str_find (c # cs) (seg @ (c # cs) @ rest) = Some (length seg)"
proof -
  have "take (length (c # cs)) (drop i (seg @ (c # cs) @ rest)) \<noteq> c # cs" if "i < length seg" for i
  proof -
    have "hd (drop i (seg @ (c # cs) @ rest)) = seg ! i" using that by (simp add: hd_append hd_drop_conv_nth)
    moreover have "seg ! i \<noteq> c" using that assms nth_mem by metis
    ultimately show ?thesis by (cases "drop i (seg @ (c # cs) @ rest)") auto
  qed
  from str_find_skip [OF this] show ?thesis by (simp add: str_find_here [of "c # cs", simplified])
qed

lemma str_find_none: "c \<notin> set s \<Longrightarrow> str_find (c # cs) s = None"
  by (induction s) (auto simp: str_find.simps)

lemma str_find_Some: "str_find pat s = Some n \<Longrightarrow> take (length pat) (drop n s) = pat \<and> n \<le> length s"
proof (induction s arbitrary: n)
  case Nil
  then show ?case by (subst (asm) str_find.simps) (auto split: if_splits)
next
  case (Cons c s)
  then show ?case
    by (subst (asm) (2) str_find.simps) (auto split: if_splits)
qed

lemma str_find_fits: "str_find pat s = Some n \<Longrightarrow> n + length pat \<le> length s"
proof -
  assume "str_find pat s = Some n"
  then have *: "take (length pat) (drop n s) = pat" "n \<le> length s" using str_find_Some by blast+
  from arg_cong [OF *(1), of length] *(2) show ?thesis by (simp add: min_def split: if_splits)
qed

text \<open>With a separator the loop of \<open>string_split\<close> always ends.\<close>

lemma split_loop_total: "pat \<noteq> [] \<Longrightarrow> length s < fuel \<Longrightarrow> \<exists>v. split_loop fuel pat s = Inr v"
proof (induction fuel arbitrary: s)
  case (Suc fuel)
  show ?case
  proof (cases "str_find pat s")
    case (Some pos)
    have "length (drop (pos + length pat) s) < fuel"
      using str_find_fits [OF Some] Suc.prems by (cases pat) auto
    then obtain v where "split_loop fuel pat (drop (pos + length pat) s) = Inr v" using Suc by blast
    with Some show ?thesis by (auto simp: Let_def)
  qed simp
qed simp

fun join :: "bytes \<Rightarrow> bytes list \<Rightarrow> bytes" where
  "join pat [] = []"
| "join pat [s] = s"
| "join pat (s # t # ss) = s @ pat @ join pat (t # ss)"

lemma join_Cons: "ss \<noteq> [] \<Longrightarrow> join pat (s # ss) = s @ pat @ join pat ss"
  by (cases ss) auto

lemma join_not_Nil: "ss \<noteq> [] \<Longrightarrow> last ss \<noteq> [] \<Longrightarrow> join pat ss \<noteq> []"
  by (induction pat ss rule: join.induct) auto

lemma split_loop_join:
  assumes "\<forall>s \<in> set ss. c \<notin> set s" "ss \<noteq> []" "last ss \<noteq> []" "length (join (c # cs) ss) < fuel"
  shows "split_loop fuel (c # cs) (join (c # cs) ss) = Inr ss"
  using assms
proof (induction ss arbitrary: fuel)
  case (Cons s ss)
  obtain f where f: "fuel = Suc f" using Cons.prems(4) by (cases fuel) auto
  show ?case
  proof (cases "ss = []")
    case True
    then show ?thesis using Cons.prems(1) f by (simp add: str_find_none)
  next
    case False
    have j: "join (c # cs) (s # ss) = s @ (c # cs) @ join (c # cs) ss" using False by (simp add: join_Cons)
    have "join (c # cs) ss \<noteq> []" using join_not_Nil [OF False] Cons.prems(3) False by simp
    moreover have "split_loop f (c # cs) (join (c # cs) ss) = Inr ss"
      using Cons.IH [of f] Cons.prems False f j by simp
    moreover have "str_find (c # cs) (join (c # cs) (s # ss)) = Some (length s)"
      unfolding j by (rule str_find_sep) (use Cons.prems(1) in simp)
    ultimately show ?thesis by (simp add: f Let_def) (simp add: j)
  qed
qed simp

lemma string_split_join:
  assumes "\<forall>s \<in> set ss. c \<notin> set s" "ss \<noteq> []" "last ss \<noteq> []"
  shows "string_split (join (c # cs) ss) (c # cs) = Inr ss"
  using split_loop_join [OF assms, of cs "Suc (length (join (c # cs) ss))"] join_not_Nil [OF assms(2,3)]
  by (simp add: string_split_def del: split_loop.simps)

subsection \<open>Parsing a request\<close>

text \<open>A request as the client writes it.\<close>

definition header_line_text :: "bytes \<times> bytes \<Rightarrow> bytes" where
  "header_line_text kv = fst kv @ lit '': '' @ snd kv"

definition request_lines :: "bytes \<Rightarrow> bytes \<Rightarrow> bytes \<Rightarrow> (bytes \<times> bytes) list \<Rightarrow> bytes list" where
  "request_lines method uri version headers =
     join (lit '' '') [method, uri, lit ''HTTP/'' @ version] # map header_line_text headers"

definition request_text :: "bytes \<Rightarrow> bytes \<Rightarrow> bytes \<Rightarrow> (bytes \<times> bytes) list \<Rightarrow> bytes" where
  "request_text method uri version headers = join CRLF (request_lines method uri version headers) @ CRLF @ CRLF"

text \<open>Names without separators; a header field name is not empty and has no colon.\<close>

definition token :: "bytes \<Rightarrow> bool" where
  "token s \<longleftrightarrow> 13 \<notin> set s \<and> 32 \<notin> set s"

definition field_ok :: "bytes \<times> bytes \<Rightarrow> bool" where
  "field_ok kv \<longleftrightarrow> 13 \<notin> set (fst kv) \<and> 58 \<notin> set (fst kv) \<and> 13 \<notin> set (snd kv)"

definition request_ok :: "bytes \<Rightarrow> bytes \<Rightarrow> bytes \<Rightarrow> (bytes \<times> bytes) list \<Rightarrow> bool" where
  "request_ok method uri version headers \<longleftrightarrow> token method \<and> token uri \<and> token version \<and>
     (\<forall>kv \<in> set headers. field_ok kv) \<and> distinct_keys headers"

lemma lit_bytes: "lit '' '' = [32]" "lit '':'' = [58]" "lit '': '' = [58, 32]" "lit ''HTTP'' = [72, 84, 84, 80]"
  "lit ''HTTP/'' = [72, 84, 84, 80, 47]"
  by (simp_all add: lit_def of_char_def)

text \<open>The blank line is found after the last line: no line is empty or has a carriage return.\<close>

lemma no_blank_line:
  assumes "\<forall>l \<in> set ls. 13 \<notin> set l \<and> l \<noteq> []" "ls \<noteq> []" "i < length (join CRLF ls)"
  shows "take 4 (drop i (join CRLF ls @ CRLF @ CRLF @ rest)) \<noteq> CRLF @ CRLF"
  using assms
proof (induction ls arbitrary: i)
  case (Cons l ls)
  have in_line: "take 4 (drop i (l @ ys)) \<noteq> CRLF @ CRLF" if "i < length l" for ys
  proof -
    have "hd (drop i (l @ ys)) = l ! i" using that by (simp add: hd_append hd_drop_conv_nth)
    moreover have "l ! i \<noteq> 13" using that Cons.prems(1) nth_mem by fastforce
    ultimately show ?thesis by (cases "drop i (l @ ys)") (auto simp: CRLF_def)
  qed
  show ?case
  proof (cases "ls = []")
    case True
    then show ?thesis using in_line [of "CRLF @ CRLF @ rest"] Cons.prems(3) by (simp only: join.simps simp_thms)
  next
    case False
    define R where "R = join CRLF ls @ CRLF @ CRLF @ rest"
    have j: "join CRLF (l # ls) @ CRLF @ CRLF @ rest = l @ CRLF @ R" using False by (simp add: join_Cons R_def)
    have first: "\<exists>c r. R = c # r \<and> c \<noteq> 13"
      using Cons.prems(1) False unfolding R_def by (cases ls; cases "hd ls") (auto simp: join_Cons split: list.splits, (metis append_Cons join.simps(2) join_Cons)+)
    consider "i < length l" | "i = length l" | "i = Suc (length l)" | "length l + 2 \<le> i" by linarith
    then show ?thesis
    proof cases
      case 1
      then show ?thesis unfolding j by (rule in_line)
    next
      case 2
      with first show ?thesis unfolding j by (auto simp: CRLF_def)
    next
      case 3
      then show ?thesis unfolding j by (auto simp: CRLF_def)
    next
      case 4
      then have "take 4 (drop (i - (length l + 2)) R) \<noteq> CRLF @ CRLF"
        using Cons.IH [of "i - (length l + 2)"] Cons.prems False by (simp add: join_Cons CRLF_def R_def)
      moreover have "drop i (l @ CRLF @ R) = drop (i - (length l + 2)) R" 
      proof -
        obtain k where "i = length l + 2 + k" using 4 le_Suc_ex by blast
        then show ?thesis by (simp add: CRLF_def)
      qed
      ultimately show ?thesis unfolding j by simp
    qed
  qed
qed simp

lemma find_blank_line:
  assumes "\<forall>l \<in> set ls. 13 \<notin> set l \<and> l \<noteq> []" "ls \<noteq> []"
  shows "str_find (CRLF @ CRLF) (join CRLF ls @ CRLF @ CRLF @ rest) = Some (length (join CRLF ls))"
proof -
  have l: "length (CRLF @ CRLF) = 4" by (simp add: CRLF_def)
  have "str_find (CRLF @ CRLF) (join CRLF ls @ CRLF @ CRLF @ rest) =
      map_option ((+) (length (join CRLF ls))) (str_find (CRLF @ CRLF) (CRLF @ CRLF @ rest))"
    by (rule str_find_skip) (simp only: l no_blank_line [OF assms] not_False_eq_True)
  then show ?thesis using str_find_here [of "CRLF @ CRLF" rest] by simp
qed

lemma header_line_parses:
  assumes "field_ok (k, v)"
  shows "header_line (header_line_text (k, v)) rq =
     Inr (Some (rq\<lparr>req_content_length := (if k = lit ''Content-Length'' then atoi v else req_content_length rq),
       req_headers := um_insert k v (req_headers rq)\<rparr>))"
proof -
  have "str_find [58] (k @ [58] @ 32 # v) = Some (length k)"
    by (rule str_find_sep) (use assms in \<open>simp add: field_ok_def\<close>)
  then show ?thesis
    by (simp add: header_line_def header_line_text_def lit_bytes substr_from_def Let_def)
qed

lemma header_lines_parse:
  assumes "\<forall>kv \<in> set hs. field_ok kv" "distinct_keys hs" "\<forall>kv \<in> set hs. map_of (req_headers rq) (fst kv) = None"
  shows "\<exists>rq'. header_lines (map header_line_text hs) rq = Inr (True, rq') \<and> req_method rq' = req_method rq \<and>
     req_uri rq' = req_uri rq \<and> req_version rq' = req_version rq \<and>
     map_of (req_headers rq') = map_of (req_headers rq) ++ map_of hs \<and>
     req_content_length rq' = (case map_of hs (lit ''Content-Length'') of None \<Rightarrow> req_content_length rq | Some v \<Rightarrow> atoi v)"
  using assms
proof (induction hs arbitrary: rq)
  case (Cons kv hs)
  obtain k v where kv: "kv = (k, v)" by (cases kv)
  let ?rq = "rq\<lparr>req_content_length := (if k = lit ''Content-Length'' then atoi v else req_content_length rq),
       req_headers := um_insert k v (req_headers rq)\<rparr>"
  have kn: "map_of hs k = None" "map_of (req_headers rq) k = None"
    using Cons.prems(2,3) kv by (auto simp: map_of_eq_None_iff)
  have "\<forall>x \<in> set hs. map_of (req_headers ?rq) (fst x) = None"
    using Cons.prems(2,3) kv by (auto simp: um_simps image_iff)
  from Cons.IH [OF _ _ this] Cons.prems(1,2) obtain rq' where r: "header_lines (map header_line_text hs) ?rq = Inr (True, rq')"
     "req_method rq' = req_method rq" "req_uri rq' = req_uri rq" "req_version rq' = req_version rq"
     "map_of (req_headers rq') = map_of (req_headers ?rq) ++ map_of hs"
     "req_content_length rq' = (case map_of hs (lit ''Content-Length'') of None \<Rightarrow> req_content_length ?rq | Some v \<Rightarrow> atoi v)"
    by auto
  have "map_of (req_headers rq') = map_of (req_headers rq) ++ map_of (kv # hs)"
    using r(5) kn kv by (auto simp: um_simps map_add_def fun_eq_iff split: option.splits)
  moreover have "req_content_length rq' = (case map_of (kv # hs) (lit ''Content-Length'') of None \<Rightarrow> req_content_length rq | Some v \<Rightarrow> atoi v)"
    using r(6) kn(1) kv by (auto split: option.splits)
  ultimately show ?case using r(1-4) Cons.prems(1) kv
    by (simp add: header_line_parses del: map_of_Cons_code map_of.simps)
qed simp

lemma request_lines_ok:
  assumes "request_ok method uri version headers"
  shows "\<forall>l \<in> set (request_lines method uri version headers). 13 \<notin> set l \<and> l \<noteq> []"
  using assms by (auto simp: request_lines_def request_ok_def token_def field_ok_def header_line_text_def lit_bytes)

lemma first_line_split:
  assumes "request_ok method uri version headers"
  shows "string_split (hd (request_lines method uri version headers)) (lit '' '') = Inr [method, uri, lit ''HTTP/'' @ version]"
proof -
  have "\<forall>x \<in> set [method, uri, lit ''HTTP/'' @ version]. 32 \<notin> set x"
    using assms by (auto simp: request_ok_def token_def lit_bytes)
  from string_split_join [OF this, of "[]"] show ?thesis by (simp add: request_lines_def lit_bytes)
qed

lemma analyze_request:
  assumes ok: "request_ok method uri version headers" and hd: "header_data h = request_text method uri version headers @ body"
    and new: "hs_request h = new_http_request" and small: "length (header_data h) < 2 ^ 31"
  shows "\<exists>h' rq. analyze_header h = Inr (0, h') \<and> header_is_ready h' \<and> hs_request h' = rq \<and>
     req_method rq = method \<and> req_uri rq = uri \<and> req_version rq = version \<and> map_of (req_headers rq) = map_of headers \<and>
     req_content_length rq = (case map_of headers (lit ''Content-Length'') of None \<Rightarrow> 0 | Some v \<Rightarrow> atoi v) \<and>
     header_data h' = header_data h \<and> content_data h' = content_data h \<and>
     drop (nat (content_start h')) (header_data h) = body"
proof -
  let ?ls = "request_lines method uri version headers"
  let ?n = "length (join CRLF ?ls)"
  have ne: "?ls \<noteq> []" by (simp add: request_lines_def)
  note lok = request_lines_ok [OF ok]
  have f: "str_find (CRLF @ CRLF) (header_data h) = Some ?n"
    using find_blank_line [OF lok ne, of body] hd by (simp add: request_text_def)
  have sp: "string_split (take ?n (header_data h)) CRLF = Inr ?ls"
    using string_split_join [of ?ls 13 "[10]"] lok ne hd by (simp add: request_text_def CRLF_def)
  have n: "i32 (int ?n) = int ?n" "nat (int ?n + 4) = ?n + 4" using small hd by (auto simp: i32_id request_text_def)
  have v: "str_find (lit ''HTTP'') (lit ''HTTP/'' @ version) = Some 0"
    using str_find_here [of "lit ''HTTP''" "47 # version"] by (simp add: lit_bytes)
  let ?rq = "new_http_request\<lparr>req_method := method, req_uri := uri, req_version := version\<rparr>"
  obtain rq' where rq: "header_lines (map header_line_text headers) ?rq = Inr (True, rq')" "req_method rq' = method"
     "req_uri rq' = uri" "req_version rq' = version" "map_of (req_headers rq') = map_of headers"
     "req_content_length rq' = (case map_of headers (lit ''Content-Length'') of None \<Rightarrow> 0 | Some v \<Rightarrow> atoi v)"
  proof -
    have "req_content_length ?rq = 0" "req_headers ?rq = []" by (simp_all add: new_http_request_def)
    with header_lines_parse [of headers ?rq] ok that show ?thesis by (auto simp: request_ok_def split: option.splits)
  qed
  have "tl ?ls = map header_line_text headers" by (simp add: request_lines_def)
  then show ?thesis
    using f sp n v rq ne first_line_split [OF ok] new hd
    by (auto simp: analyze_header_def Let_def substr_from_def lit_bytes request_text_def CRLF_def)
qed

subsection \<open>Properties\<close>

text \<open>
  C28. A well-formed request is understood: when the bytes of a request (request line, header
  fields, blank line and what follows) have arrived at a new session, the parser returns 0 and
  the request has exactly its method, URI, version, header fields and \<open>Content-Length\<close>, and
  the body starts right after the blank line.
\<close>

theorem http_request_parsed:
  assumes "request_ok method uri version headers"
    and "header_data h = request_text method uri version headers @ body"
    and "hs_request h = new_http_request" and "length (header_data h) < 2 ^ 31"
  shows "\<exists>h'. analyze_header h = Inr (0, h') \<and> header_is_ready h' \<and>
     req_method (hs_request h') = method \<and> req_uri (hs_request h') = uri \<and> req_version (hs_request h') = version \<and>
     map_of (req_headers (hs_request h')) = map_of headers \<and>
     req_content_length (hs_request h') =
       (case map_of headers (lit ''Content-Length'') of None \<Rightarrow> 0 | Some v \<Rightarrow> atoi v) \<and>
     drop (nat (content_start h')) (header_data h) = body"
  using analyze_request [OF assms] by blast

theorem http_request_parsed_witness:
  "\<exists>h'. analyze_header (new_http_session\<lparr>header_data :=
       request_text (lit ''GET'') (lit ''/live/a.flv'') (lit ''1.1'') [(lit ''Host'', lit ''x'')] @ [1, 2]\<rparr>) = Inr (0, h') \<and>
     req_uri (hs_request h') = lit ''/live/a.flv'' \<and> map_of (req_headers (hs_request h')) (lit ''Host'') = Some (lit ''x'')"
  using http_request_parsed [of "lit ''GET''" "lit ''/live/a.flv''" "lit ''1.1''" "[(lit ''Host'', lit ''x'')]"
     "new_http_session\<lparr>header_data :=
       request_text (lit ''GET'') (lit ''/live/a.flv'') (lit ''1.1'') [(lit ''Host'', lit ''x'')] @ [1, 2]\<rparr>" "[1, 2]"]
  by (auto simp: request_ok_def token_def field_ok_def lit_def of_char_def new_http_session_def
    request_text_def request_lines_def header_line_text_def CRLF_def)

text \<open>
  A request line whose version is just \<open>HTTP\<close> makes the parser throw: \<open>substr(pos+5)\<close> is
  beyond the end of the string. The exception leaves the read handler and the event loop, so
  one such request ends the server.
\<close>

theorem http_bare_version_throws:
  assumes "token method" "token uri" "\<not> header_is_ready h" "header_data h = []"
    and "data = join (lit '' '') [method, uri, lit ''HTTP''] @ CRLF @ CRLF"
  shows "on_read gh 0 data h = Inl (Throw ''out_of_range'')"
proof -
  let ?l = "join (lit '' '') [method, uri, lit ''HTTP'']"
  have l: "\<forall>x \<in> set [?l]. 13 \<notin> set x \<and> x \<noteq> []" using assms(1,2) by (auto simp: token_def lit_bytes)
  have f: "str_find (CRLF @ CRLF) data = Some (length ?l)" using find_blank_line [OF l, of "[]"] assms(5) by simp
  have s1: "string_split (take (length ?l) data) CRLF = Inr [?l]"
    using string_split_join [of "[?l]" 13 "[10]"] l assms(5) by (simp add: CRLF_def)
  have "\<forall>x \<in> set [method, uri, lit ''HTTP'']. 32 \<notin> set x" using assms(1,2) by (auto simp: token_def lit_bytes)
  from string_split_join [OF this, of "[]"] have s2: "string_split ?l (lit '' '') = Inr [method, uri, lit ''HTTP'']"
    by (simp add: lit_bytes)
  have v: "str_find (lit ''HTTP'') (lit ''HTTP'') = Some 0" using str_find_here [of "lit ''HTTP''" "[]"] by simp
  show ?thesis using f s1 s2 v assms(3,4)
    by (simp add: on_read_def analyze_header_def Let_def substr_from_def)
qed

theorem http_bare_version_throws_witness:
  "on_read (\<lambda>_. Some ()) 0 (join (lit '' '') [lit ''GET'', lit ''/'', lit ''HTTP''] @ CRLF @ CRLF) new_http_session =
     Inl (Throw ''out_of_range'')"
  by (rule http_bare_version_throws [of "lit ''GET''" "lit ''/''"])
    (simp_all add: token_def lit_def of_char_def new_http_session_def)

fun check_alive :: "nat \<Rightarrow> session_aliver \<Rightarrow> bool list" where
  "check_alive 0 a = []"
| "check_alive (Suc n) a = fst (is_alive a) # check_alive n (snd (is_alive a))"

text \<open>
  The activity counter: a session that is kept alive and then left alone is reported alive
  at exactly the next \<open>try_max + 1\<close> checks and dead at the one after.
\<close>

theorem aliver_expires:
  assumes "0 \<le> try_max a"
  shows "check_alive (nat (try_max a) + 2) (keep_alive a) = replicate (nat (try_max a) + 1) True @ [False]"
proof -
  have "check_alive (n + 1) (a\<lparr>not_alive_cnt := try_max a + 1 - int n\<rparr>) = replicate n True @ [False]" for n
  proof (induction n)
    case (Suc n)
    have "a\<lparr>not_alive_cnt := try_max a + 1 - int (Suc n) + 1\<rparr> = a\<lparr>not_alive_cnt := try_max a + 1 - int n\<rparr>" by simp
    with Suc show ?case by (simp add: is_alive_def)
  qed (simp add: is_alive_def)
  from this [of "nat (try_max a) + 1"] assms show ?thesis by (simp add: keep_alive_def)
qed

theorem aliver_expires_witness: "check_alive 6 (keep_alive new_session_aliver) = [True, True, True, True, True, False]"
  using aliver_expires [of new_session_aliver] by (simp add: new_session_aliver_def numeral_eq_Suc)

end
