(* ===== verification/Byte_Stream.thy ===== *)
theory Byte_Stream
  imports MS_Prelude
begin

text \<open>
  The fixed-width big-endian readers and writers of \<open>src/utils/byte_stream.cpp\<close>. The C++
  writes an integer through a byte pointer to it, on a little-endian machine: \<open>from_mem\<close>
  and \<open>to_mem\<close> are that view of an integer as the bytes it has in memory.

  The locale \<open>field_codec\<close> is what the protocol components rely on: a writer of fixed width
  and a reader that undoes it whatever bytes follow. It is interpreted for every width.
\<close>

subsection \<open>Integers as bytes in memory (little-endian)\<close>

fun from_mem :: "bytes \<Rightarrow> 'a::len word" where
  "from_mem [] = 0"
| "from_mem (b # bs) = ucast b OR push_bit 8 (from_mem bs)"

fun to_mem :: "nat \<Rightarrow> 'a::len word \<Rightarrow> bytes" where
  "to_mem 0 w = []"
| "to_mem (Suc n) w = ucast w # to_mem n (drop_bit 8 w)"

subsection \<open>The operations\<close>

fun read_8bytes :: "bytes \<Rightarrow> u64 cxx" where
  "read_8bytes (d0 # d1 # d2 # d3 # d4 # d5 # d6 # d7 # _) =
     Inr (from_mem [d7, d6, d5, d4, d3, d2, d1, d0])"
| "read_8bytes _ = Inl OutOfBounds"

fun read_4bytes :: "bytes \<Rightarrow> u32 cxx" where
  "read_4bytes (d0 # d1 # d2 # d3 # _) = Inr (from_mem [d3, d2, d1, d0])"
| "read_4bytes _ = Inl OutOfBounds"

fun read_3bytes :: "bytes \<Rightarrow> u32 cxx" where
  "read_3bytes (d0 # d1 # d2 # _) = Inr (from_mem [d2, d1, d0, 0])"
| "read_3bytes _ = Inl OutOfBounds"

fun read_2bytes :: "bytes \<Rightarrow> u16 cxx" where
  "read_2bytes (d0 # d1 # _) = Inr (from_mem [d1, d0])"
| "read_2bytes _ = Inl OutOfBounds"

text \<open>The writers give the bytes they store from \<open>data\<close> on.\<close>

definition write_8bytes :: "u64 \<Rightarrow> bytes" where
  "write_8bytes value = (let pp = to_mem 8 value in
     [pp ! 7, pp ! 6, pp ! 5, pp ! 4, pp ! 3, pp ! 2, pp ! 1, pp ! 0])"

definition write_4bytes :: "u32 \<Rightarrow> bytes" where
  "write_4bytes value = (let pp = to_mem 4 value in [pp ! 3, pp ! 2, pp ! 1, pp ! 0])"

definition write_4bytes_be :: "u32 \<Rightarrow> bytes" where
  "write_4bytes_be value = (let pp = to_mem 4 value in [pp ! 0, pp ! 1, pp ! 2, pp ! 3])"

definition write_3bytes :: "u32 \<Rightarrow> bytes" where
  "write_3bytes value = (let pp = to_mem 4 value in [pp ! 2, pp ! 1, pp ! 0])"

definition write_2bytes :: "u16 \<Rightarrow> bytes" where
  "write_2bytes value = (let pp = to_mem 2 value in [pp ! 1, pp ! 0])"

fun bytes_is_equal :: "bytes \<Rightarrow> bytes \<Rightarrow> nat \<Rightarrow> bool cxx" where
  "bytes_is_equal p1 p2 0 = Inr True"
| "bytes_is_equal (a # p1) (b # p2) (Suc len) =
     (if a \<noteq> b then Inr False else bytes_is_equal p1 p2 len)"
| "bytes_is_equal _ _ (Suc len) = Inl OutOfBounds"

definition pad_to_4bytes_u16 :: "u16 \<Rightarrow> u16" where
  "pad_to_4bytes_u16 sz = (if sz AND 0x03 \<noteq> 0 then (sz AND 0xFFFC) + 4 else sz)"

definition pad_to_4bytes_u32 :: "u32 \<Rightarrow> u32" where
  "pad_to_4bytes_u32 sz = (if sz AND 0x03 \<noteq> 0 then (sz AND 0xFFFFFFFC) + 4 else sz)"

subsection \<open>The memory view of an integer\<close>

lemma length_to_mem [simp]: "length (to_mem n w) = n"
  by (induction n arbitrary: w) auto

declare from_mem.simps [simp del] to_mem.simps [simp del]

lemma bit_from_mem:
  "bit (from_mem bs :: 'a::len word) i \<longleftrightarrow>
     i < LENGTH('a) \<and> i div 8 < length bs \<and> bit (bs ! (i div 8)) (i mod 8)"
proof (induction bs arbitrary: i)
  case Nil
  then show ?case by (simp add: from_mem.simps)
next
  case (Cons b bs)
  have b: "bit b i \<Longrightarrow> i < 8" using bit_imp_le_length [of b i] by simp
  show ?case
  proof (cases "i < 8")
    case True
    then show ?thesis by (auto simp: from_mem.simps bit_simps)
  next
    case False
    then have "i div 8 = Suc ((i - 8) div 8)" and "i mod 8 = (i - 8) mod 8"
      by (simp_all add: le_div_geq le_mod_geq)
    with False Cons [of "i - 8"] b show ?thesis
      by (auto simp: from_mem.simps bit_or_iff bit_push_bit_iff bit_unsigned_iff)
  qed
qed

lemma bit_to_mem: "k < n \<Longrightarrow> bit (to_mem n (w::'a::len word) ! k) j \<longleftrightarrow> j < 8 \<and> bit w (8 * k + j)"
proof (induction n arbitrary: k w)
  case (Suc n)
  then show ?case
    by (cases k) (auto simp: to_mem.simps bit_simps algebra_simps dest: bit_imp_le_length)
qed simp

lemma from_mem_to_mem: "LENGTH('a) \<le> 8 * n \<Longrightarrow> from_mem (to_mem n w) = (w :: 'a::len word)"
  by (rule bit_word_eqI) (auto simp: bit_from_mem bit_to_mem less_mult_imp_div_less mult.commute)

lemma to_mem_from_mem:
  "8 * n \<le> LENGTH('a) \<Longrightarrow> length bs = n \<Longrightarrow> to_mem n (from_mem bs :: 'a::len word) = bs"
proof (intro nth_equalityI bit_word_eqI)
  fix i j
  assume *: "8 * n \<le> LENGTH('a)" "length bs = n"
    "i < length (to_mem n (from_mem bs :: 'a word))" "j < LENGTH(8)"
  then have "8 * i + j < LENGTH('a)" by simp
  with * show "bit (to_mem n (from_mem bs :: 'a word) ! i) j = bit (bs ! i) j"
    by (simp add: bit_to_mem bit_from_mem)
qed simp

lemma read_write_8 [codec_simps]: "read_8bytes (write_8bytes v @ rest) = Inr v"
proof -
  have "[to_mem 8 v ! 0, to_mem 8 v ! 1, to_mem 8 v ! 2, to_mem 8 v ! 3,
      to_mem 8 v ! 4, to_mem 8 v ! 5, to_mem 8 v ! 6, to_mem 8 v ! 7] = to_mem 8 v"
    by (rule nth_equalityI) (auto simp: nth_Cons' numeral_eq_Suc less_Suc_eq)
  then show ?thesis
    by (simp add: write_8bytes_def Let_def from_mem_to_mem)
qed

lemma read_write_4 [codec_simps]: "read_4bytes (write_4bytes v @ rest) = Inr v"
proof -
  have "[to_mem 4 v ! 0, to_mem 4 v ! 1, to_mem 4 v ! 2, to_mem 4 v ! 3] = to_mem 4 v"
    by (rule nth_equalityI) (auto simp: nth_Cons' numeral_eq_Suc less_Suc_eq)
  then show ?thesis by (simp add: write_4bytes_def Let_def from_mem_to_mem)
qed

lemma read_write_2 [codec_simps]: "read_2bytes (write_2bytes v @ rest) = Inr v"
proof -
  have "[to_mem 2 v ! 0, to_mem 2 v ! 1] = to_mem 2 v"
    by (rule nth_equalityI) (auto simp: nth_Cons' numeral_eq_Suc less_Suc_eq)
  then show ?thesis by (simp add: write_2bytes_def Let_def from_mem_to_mem)
qed

lemma div_8_cases: "i div 8 < (4::nat) \<Longrightarrow> i div 8 = 0 \<or> i div 8 = 1 \<or> i div 8 = 2 \<or> i div 8 = 3"
  by auto

lemma read_write_3 [codec_simps]: "read_3bytes (write_3bytes v @ rest) = Inr (take_bit 24 v)"
proof -
  have "bit (from_mem [to_mem 4 v ! 0, to_mem 4 v ! 1, to_mem 4 v ! 2, 0] :: u32) i = bit (take_bit 24 v) i"
    if "i < 32" for i
  proof -
    have eq: "8 * (i div 8) + i mod 8 = i" "i mod 8 < 8" by simp_all
    from that have "i div 8 < 4" by simp
    from div_8_cases [OF this] eq show ?thesis
      by (elim disjE) (simp_all add: bit_from_mem bit_take_bit_iff bit_to_mem that, linarith+)
  qed
  then have "from_mem [to_mem 4 v ! 0, to_mem 4 v ! 1, to_mem 4 v ! 2, 0] = take_bit 24 v"
    by (intro bit_word_eqI) simp
  then show ?thesis by (simp add: write_3bytes_def Let_def)
qed

lemma from_mem_3: "take_bit 24 (from_mem [a, b, c, 0] :: u32) = from_mem [a, b, c, 0]"
proof (rule bit_word_eqI)
  fix i :: nat
  assume "i < LENGTH(32)"
  moreover have "i div 8 = 3" if "24 \<le> i" "i < 32" using that by linarith
  ultimately show "bit (take_bit 24 (from_mem [a, b, c, 0] :: u32)) i = bit (from_mem [a, b, c, 0] :: u32) i"
    by (cases "i < 24") (simp_all add: bit_from_mem bit_take_bit_iff)
qed

lemma read_3bytes_lt:
  assumes "read_3bytes bs = Inr v" shows "unat v < 2^24"
proof -
  from assms have "take_bit 24 v = v" by (auto elim!: read_3bytes.elims simp: from_mem_3)
  then have "take_bit 24 (unat v) = unat v" by (metis unsigned_take_bit_eq)
  then show ?thesis by (metis take_bit_nat_less_exp)
qed

subsection \<open>Round trips and exact domains of the readers\<close>

lemma length_write [simp, codec_simps]:
  "length (write_8bytes a) = 8" "length (write_4bytes b) = 4" "length (write_4bytes_be b) = 4"
  "length (write_3bytes b) = 3" "length (write_2bytes c) = 2"
  by (simp_all add: write_8bytes_def write_4bytes_def write_4bytes_be_def write_3bytes_def
      write_2bytes_def Let_def)

lemma write_read_4: "read_4bytes bs = Inr v \<Longrightarrow> write_4bytes v = take 4 bs"
  by (auto elim!: read_4bytes.elims simp: write_4bytes_def Let_def to_mem_from_mem)

lemma write_read_2: "read_2bytes bs = Inr v \<Longrightarrow> write_2bytes v = take 2 bs"
  by (auto elim!: read_2bytes.elims simp: write_2bytes_def Let_def to_mem_from_mem)

lemma write_read_8: "read_8bytes bs = Inr v \<Longrightarrow> write_8bytes v = take 8 bs"
  by (auto elim!: read_8bytes.elims simp: write_8bytes_def Let_def to_mem_from_mem)

lemma write_read_3: "read_3bytes bs = Inr v \<Longrightarrow> write_3bytes v = take 3 bs"
  by (auto elim!: read_3bytes.elims simp: write_3bytes_def Let_def to_mem_from_mem)

lemma take_bit_word_id: "unat v < 2 ^ n \<Longrightarrow> take_bit n v = v"
  by (metis take_bit_nat_eq_self unsigned_take_bit_eq word_unat_eq_iff)

lemma take_bit_24_id: "unat (v :: u32) < 2 ^ 24 \<Longrightarrow> take_bit 24 v = v"
  by (metis take_bit_nat_eq_self unsigned_take_bit_eq word_unat_eq_iff)

lemma read_write_3_small:
  "unat v < 2 ^ 24 \<Longrightarrow> read_3bytes (write_3bytes v @ rest) = Inr v"
  by (simp add: read_write_3 take_bit_24_id)

lemma read_2_total: "2 \<le> length bs \<Longrightarrow> \<exists>v. read_2bytes bs = Inr v"
  by (auto simp: length_numeral_split Suc_le_length_conv)

lemma read_3_total: "3 \<le> length bs \<Longrightarrow> \<exists>v. read_3bytes bs = Inr v"
  by (auto simp: length_numeral_split Suc_le_length_conv)

lemma read_4_total: "4 \<le> length bs \<Longrightarrow> \<exists>v. read_4bytes bs = Inr v"
  by (auto simp: length_numeral_split Suc_le_length_conv)

lemma read_8_total: "8 \<le> length bs \<Longrightarrow> \<exists>v. read_8bytes bs = Inr v"
  by (auto simp: length_numeral_split Suc_le_length_conv)

lemma read_2_short: "length bs < 2 \<Longrightarrow> read_2bytes bs = Inl OutOfBounds"
  by (rule read_2bytes.cases [of bs]) auto

lemma read_3_short: "length bs < 3 \<Longrightarrow> read_3bytes bs = Inl OutOfBounds"
  by (rule read_3bytes.cases [of bs]) auto

lemma read_4_short: "length bs < 4 \<Longrightarrow> read_4bytes bs = Inl OutOfBounds"
  by (rule read_4bytes.cases [of bs]) auto

lemma read_8_short: "length bs < 8 \<Longrightarrow> read_8bytes bs = Inl OutOfBounds"
  by (rule read_8bytes.cases [of bs]) auto

subsection \<open>The interface of a fixed-width field\<close>

locale field_codec =
  fixes enc :: "'v \<Rightarrow> bytes"
    and dec :: "bytes \<Rightarrow> 'v cxx"
    and width :: nat
    and ok :: "'v \<Rightarrow> bool"
  assumes enc_length: "length (enc v) = width"
    and dec_enc: "ok v \<Longrightarrow> dec (enc v @ rest) = Inr v"
    and dec_total: "width \<le> length bs \<Longrightarrow> \<exists>v. dec bs = Inr v"
    and dec_short: "length bs < width \<Longrightarrow> dec bs = Inl OutOfBounds"
    and enc_dec: "dec bs = Inr v \<Longrightarrow> enc v = take width bs \<and> ok v"
begin

lemma dec_stop_iff: "dec bs = Inl e \<longleftrightarrow> length bs < width \<and> e = OutOfBounds"
  using dec_total [of bs] dec_short [of bs] by (cases "width \<le> length bs") auto

lemma dec_append: "width \<le> length bs \<Longrightarrow> dec (bs @ rest) = dec bs"
proof -
  assume w: "width \<le> length bs"
  then obtain v where v: "dec bs = Inr v" using dec_total by blast
  with enc_dec have "bs = enc v @ drop width bs" and ok: "ok v"
    by (metis append_take_drop_id)+
  then have "bs @ rest = enc v @ (drop width bs @ rest)" by (metis append_assoc)
  with dec_enc [OF ok, of "drop width bs @ rest"] v show ?thesis by (simp only:)
qed

lemma dec_at: "length pre = k \<Longrightarrow> ok v \<Longrightarrow> dec (drop k (pre @ enc v @ rest)) = Inr v"
  by (simp add: dec_enc)

lemma dec_ok: "width \<le> length bs \<Longrightarrow> cxx_ok (dec bs)"
  using dec_total by (simp add: cxx_ok_def)

lemma dec_le: "cxx_le (dec bs) (dec (bs @ rest))"
  using dec_append [of bs rest] dec_short [of bs] by (cases "width \<le> length bs") (auto simp: cxx_le_def)

lemma dec_drop_le: "cxx_le (dec (drop k bs)) (dec (drop k (bs @ rest)))"
  using dec_le [of "drop k bs" "drop (k - length bs) rest"] by simp

lemma enc_inj: "ok v \<Longrightarrow> ok w \<Longrightarrow> enc v = enc w \<Longrightarrow> v = w"
  using dec_enc [of v "[]"] dec_enc [of w "[]"] by simp

end

interpretation f8: field_codec write_8bytes read_8bytes 8 "\<lambda>_. True"
  by unfold_locales (simp_all add: codec_simps read_8_total read_8_short write_read_8)

interpretation f4: field_codec write_4bytes read_4bytes 4 "\<lambda>_. True"
  by unfold_locales (simp_all add: codec_simps read_4_total read_4_short write_read_4)

interpretation f3: field_codec write_3bytes read_3bytes 3 "\<lambda>v. unat v < 2 ^ 24"
  using read_3bytes_lt
  by unfold_locales (simp_all add: read_write_3_small read_3_total read_3_short write_read_3)

interpretation f2: field_codec write_2bytes read_2bytes 2 "\<lambda>_. True"
  by unfold_locales (simp_all add: codec_simps read_2_total read_2_short write_read_2)

lemmas dec_les [le_intros] = f8.dec_drop_le f4.dec_drop_le f3.dec_drop_le f2.dec_drop_le
  f8.dec_le f4.dec_le f3.dec_le f2.dec_le

lemmas dec_oks [ok_intros] = f8.dec_ok f4.dec_ok f3.dec_ok f2.dec_ok

subsection \<open>Comparison and padding\<close>

lemma bytes_is_equal_iff:
  "n \<le> length p1 \<Longrightarrow> n \<le> length p2 \<Longrightarrow> bytes_is_equal p1 p2 n = Inr (take n p1 = take n p2)"
  by (induction p1 p2 n rule: bytes_is_equal.induct) auto

lemma mask_2_3: "(3 :: 'a::len word) = mask 2"
  by (simp add: mask_eq_exp_minus_1)

lemma unat_and_3: "unat (x AND 3 :: 'a::len word) = unat x mod 4"
proof -
  have "unat (x AND mask 2) = unat (take_bit 2 x)" by (simp add: take_bit_eq_mask)
  also have "\<dots> = take_bit 2 (unat x)" by (simp add: unsigned_take_bit_eq)
  finally show ?thesis by (simp add: mask_2_3 take_bit_eq_mod)
qed

lemma and_not_3_plus: "(x AND NOT 3) + (x AND 3) = (x :: 'a::len word)"
proof -
  have "(x AND NOT 3) + (x AND 3) = (x AND NOT 3) OR (x AND 3)"
    by (rule disjunctive_add) (simp add: bit_simps)
  also have "\<dots> = x" by (rule bit_word_eqI) (auto simp: bit_simps)
  finally show ?thesis .
qed

lemma unat_and_not_3: "unat (x AND NOT 3 :: 'a::len word) = 4 * (unat x div 4)"
proof -
  have "x AND NOT 3 = x - (x AND 3)"
    using and_not_3_plus [of x] by (metis add_diff_cancel_right')
  moreover have "x AND 3 \<le> x" by (rule word_and_le2)
  ultimately have "unat (x AND NOT 3) = unat x - unat (x AND 3)"
    by (simp add: unat_sub_if' word_le_nat_alt)
  then show ?thesis by (simp add: unat_and_3 minus_mod_eq_mult_div)
qed

lemma and_3_zero: "x AND 3 = 0 \<longleftrightarrow> unat (x :: 'a::len word) mod 4 = 0"
  using unat_and_3 [of x] by (metis unat_0 unat_eq_zero)

lemma pad_to_4bytes_u16_eq:
  assumes "unat x \<le> 65532"
  shows "unat (pad_to_4bytes_u16 x) = 4 * ((unat x + 3) div 4)"
proof (cases "unat x mod 4 = 0")
  case True
  moreover have "4 * (unat x div 4) = unat x" if "unat x mod 4 = 0" using that by presburger
  ultimately show ?thesis by (simp add: pad_to_4bytes_u16_def and_3_zero) presburger
next
  case False
  have m: "(0xFFFC :: u16) = NOT 3" by simp
  have u: "unat (x AND 0xFFFC) = 4 * (unat x div 4)"
    unfolding m by (rule unat_and_not_3)
  from False assms have "4 * (unat x div 4) + 4 < 65536" and "(unat x + 3) div 4 = unat x div 4 + 1"
    by presburger+
  with False show ?thesis
    by (simp add: pad_to_4bytes_u16_def and_3_zero unat_word_ariths u)
qed

lemma pad_to_4bytes_u32_eq:
  assumes "unat x \<le> 4294967292"
  shows "unat (pad_to_4bytes_u32 x) = 4 * ((unat x + 3) div 4)"
proof (cases "unat x mod 4 = 0")
  case True
  moreover have "4 * (unat x div 4) = unat x" if "unat x mod 4 = 0" using that by presburger
  ultimately show ?thesis by (simp add: pad_to_4bytes_u32_def and_3_zero) presburger
next
  case False
  have m: "(0xFFFFFFFC :: u32) = NOT 3" by simp
  have u: "unat (x AND 0xFFFFFFFC) = 4 * (unat x div 4)"
    unfolding m by (rule unat_and_not_3)
  from False assms have "4 * (unat x div 4) + 4 < 4294967296" and "(unat x + 3) div 4 = unat x div 4 + 1"
    by presburger+
  with False show ?thesis
    by (simp add: pad_to_4bytes_u32_def and_3_zero unat_word_ariths u)
qed

end
