(* ===== verification/Media_Packet.thy ===== *)
theory Media_Packet
  imports MS_Prelude
begin

text \<open>
  The media packet and the writer interface of \<open>src/utils/av/media_packet.hpp\<close>. The packet's
  \<open>data_buffer\<close> is the byte sequence it shows (theory \<open>Data_Buffer\<close> proves that the class
  behaves as one). An \<open>av_writer_base\<close> is its virtual table: a record of operations on the
  state of a writer. The locale \<open>av_writer\<close> is the contract between the stream manager and
  the writers; the writers interpret it where they are modelled.
\<close>

datatype MEDIA_PKT_TYPE =
  MEDIA_UNKOWN_TYPE | MEDIA_VIDEO_TYPE | MEDIA_AUDIO_TYPE | MEDIA_METADATA_TYPE

datatype MEDIA_CODEC_TYPE =
  MEDIA_CODEC_UNKOWN | MEDIA_CODEC_H264 | MEDIA_CODEC_H265 | MEDIA_CODEC_VP8 | MEDIA_CODEC_VP9
| MEDIA_CODEC_AAC | MEDIA_CODEC_OPUS | MEDIA_CODEC_MP3

datatype MEDIA_FORMAT_TYPE = MEDIA_FORMAT_UNKOWN | MEDIA_FORMAT_RAW | MEDIA_FORMAT_FLV

record MEDIA_PACKET =
  av_type :: MEDIA_PKT_TYPE
  codec_type :: MEDIA_CODEC_TYPE
  fmt_type :: MEDIA_FORMAT_TYPE
  dts :: int
  pts :: int
  is_key_frame :: bool
  is_seq_hdr :: bool
  pkt_buffer :: bytes
  pkt_key :: bytes
  pkt_vhost :: bytes
  pkt_app :: bytes
  pkt_streamname :: bytes
  pkt_streamid :: u32
  pkt_typeid :: u8

definition new_MEDIA_PACKET :: MEDIA_PACKET where
  "new_MEDIA_PACKET = \<lparr>av_type = MEDIA_UNKOWN_TYPE, codec_type = MEDIA_CODEC_UNKOWN,
     fmt_type = MEDIA_FORMAT_UNKOWN, dts = 0, pts = 0, is_key_frame = False, is_seq_hdr = False,
     pkt_buffer = [], pkt_key = [], pkt_vhost = [], pkt_app = [], pkt_streamname = [],
     pkt_streamid = 0, pkt_typeid = 0\<rparr>"

text \<open>The virtual functions of a writer, on the writer's state \<open>'w\<close>.\<close>

record 'w av_writer_base =
  write_packet :: "MEDIA_PACKET \<Rightarrow> 'w \<Rightarrow> (int \<times> 'w) cxx"
  get_key :: "'w \<Rightarrow> bytes"
  get_writerid :: "'w \<Rightarrow> bytes"
  is_inited :: "'w \<Rightarrow> bool"
  set_init_flag :: "bool \<Rightarrow> 'w \<Rightarrow> 'w"

text \<open>
  What the stream manager relies on: writing a packet and setting the flag change neither the
  names of a writer, and the flag is what was set.
\<close>

locale av_writer =
  fixes ops :: "'w av_writer_base"
  assumes flag_set: "is_inited ops (set_init_flag ops f w) = f"
    and flag_key: "get_key ops (set_init_flag ops f w) = get_key ops w"
    and flag_id: "get_writerid ops (set_init_flag ops f w) = get_writerid ops w"
    and write_key: "write_packet ops p w = Inr (r, w') \<Longrightarrow> get_key ops w' = get_key ops w"
    and write_id: "write_packet ops p w = Inr (r, w') \<Longrightarrow> get_writerid ops w' = get_writerid ops w"
    and write_flag: "write_packet ops p w = Inr (r, w') \<Longrightarrow> is_inited ops w' = is_inited ops w"

text \<open>Writing a sequence of packets, up to the first one the writer refuses.\<close>

fun write_all :: "'w av_writer_base \<Rightarrow> MEDIA_PACKET list \<Rightarrow> int \<Rightarrow> 'w \<Rightarrow> (int \<times> 'w) cxx" where
  "write_all ops [] ret w = Inr (ret, w)"
| "write_all ops (p # ps) ret w =
     cxx_bind (write_packet ops p w) (\<lambda>(r, w'). if r < 0 then Inr (r, w') else write_all ops ps r w')"

lemma write_all_append:
  "write_all ops (ps @ qs) ret w =
     cxx_bind (write_all ops ps ret w) (\<lambda>(r, w'). if r < 0 \<and> ps \<noteq> [] then Inr (r, w') else write_all ops qs r w')"
proof (induction ps arbitrary: ret w)
  case Nil
  then show ?case by simp
next
  case (Cons p ps)
  have nn: "write_all ops ps r w' = Inr (r', w'') \<Longrightarrow> 0 \<le> r \<Longrightarrow> ps = [] \<Longrightarrow> 0 \<le> r'" for r w' r' w''
    by auto
  show ?case
    by (cases "write_packet ops p w") (auto simp: Cons cxx_bind_assoc intro!: cxx_bind_cong dest: nn)
qed

context av_writer
begin

lemma write_all_names:
  "write_all ops ps ret w = Inr (r, w') \<Longrightarrow>
     get_key ops w' = get_key ops w \<and> get_writerid ops w' = get_writerid ops w \<and> is_inited ops w' = is_inited ops w"
proof (induction ps arbitrary: ret w)
  case Nil
  then show ?case by simp
next
  case (Cons p ps)
  then obtain r1 w1 where 1: "write_packet ops p w = Inr (r1, w1)"
    and 2: "if r1 < 0 then Inr (r1, w1) = Inr (r, w') else write_all ops ps r1 w1 = Inr (r, w')"
    by (auto simp: cxx_bind_Inr_iff split: if_splits)
  note k = write_key [OF 1] write_id [OF 1] write_flag [OF 1]
  show ?case
  proof (cases "r1 < 0")
    case True with 2 k show ?thesis by auto
  next
    case False with 2 Cons.IH [of r1 w1] k show ?thesis by auto
  qed
qed

end

end
