(* ===== verification/Flv.thy ===== *)
theory Flv
  imports Byte_Stream Data_Buffer Media_Packet
begin

text \<open>
  The FLV format: \<open>src/format/flv/flv_mux.cpp\<close>, \<open>flv_demux.cpp\<close> and \<open>flv_pub.hpp\<close>. The muxer
  gives the packets it passes to its callback; the demuxer's callback is an operation on a
  client state. The demuxer's buffer is the byte sequence it shows, and a read beyond the
  visible bytes is out of bounds.
\<close>

definition FLV_TAG_AUDIO :: u8 where "FLV_TAG_AUDIO = 0x08"
definition FLV_TAG_VIDEO :: u8 where "FLV_TAG_VIDEO = 0x09"
definition FLV_VIDEO_KEY_FLAG :: u8 where "FLV_VIDEO_KEY_FLAG = 0x10"
definition FLV_VIDEO_INTER_FLAG :: u8 where "FLV_VIDEO_INTER_FLAG = 0x20"
definition FLV_VIDEO_AVC_SEQHDR :: u8 where "FLV_VIDEO_AVC_SEQHDR = 0x00"
definition FLV_VIDEO_AVC_NALU :: u8 where "FLV_VIDEO_AVC_NALU = 0x01"
definition FLV_VIDEO_H264_CODEC :: u8 where "FLV_VIDEO_H264_CODEC = 0x07"
definition FLV_VIDEO_H265_CODEC :: u8 where "FLV_VIDEO_H265_CODEC = 0x0c"
definition FLV_VIDEO_VP8_CODEC :: u8 where "FLV_VIDEO_VP8_CODEC = 0x0e"
definition FLV_VIDEO_VP9_CODEC :: u8 where "FLV_VIDEO_VP9_CODEC = 0x0f"
definition FLV_AUDIO_OPUS_CODEC :: u8 where "FLV_AUDIO_OPUS_CODEC = 0x90"
definition FLV_AUDIO_AAC_CODEC :: u8 where "FLV_AUDIO_AAC_CODEC = 0xa0"

lemmas flv_consts = FLV_TAG_AUDIO_def FLV_TAG_VIDEO_def FLV_VIDEO_KEY_FLAG_def FLV_VIDEO_INTER_FLAG_def
  FLV_VIDEO_AVC_SEQHDR_def FLV_VIDEO_AVC_NALU_def FLV_VIDEO_H264_CODEC_def FLV_VIDEO_H265_CODEC_def
  FLV_VIDEO_VP8_CODEC_def FLV_VIDEO_VP9_CODEC_def FLV_AUDIO_OPUS_CODEC_def FLV_AUDIO_AAC_CODEC_def

text \<open>\<open>(x >> k) & 0xff\<close>.\<close>

definition byte_of :: "nat \<Rightarrow> int \<Rightarrow> u8" where
  "byte_of k x = word_of_int (drop_bit k x)"

subsection \<open>The muxer\<close>

record flv_muxer =
  mux_has_video :: bool
  mux_has_audio :: bool
  mux_header_ready :: bool

definition mux_flv_header :: "flv_muxer \<Rightarrow> bytes" where
  "mux_flv_header m =
     (let flag = (if mux_has_video m then 0x01 else 0) OR (if mux_has_audio m then 0x04 else 0) in
      [0x46, 0x4c, 0x56, 0x01, flag, 0x00, 0x00, 0x00, 0x09, 0, 0, 0, 0])"

text \<open>The codec bits of a video and of an audio tag; \<open>None\<close> is the unsupported codec.\<close>

fun video_codec_bits :: "MEDIA_CODEC_TYPE \<Rightarrow> u8 option" where
  "video_codec_bits MEDIA_CODEC_H264 = Some FLV_VIDEO_H264_CODEC"
| "video_codec_bits MEDIA_CODEC_H265 = Some FLV_VIDEO_H265_CODEC"
| "video_codec_bits MEDIA_CODEC_VP8 = Some FLV_VIDEO_VP8_CODEC"
| "video_codec_bits MEDIA_CODEC_VP9 = Some FLV_VIDEO_VP9_CODEC"
| "video_codec_bits _ = None"

fun audio_codec_bits :: "MEDIA_CODEC_TYPE \<Rightarrow> u8 option" where
  "audio_codec_bits MEDIA_CODEC_AAC = Some FLV_AUDIO_AAC_CODEC"
| "audio_codec_bits MEDIA_CODEC_OPUS = Some FLV_AUDIO_OPUS_CODEC"
| "audio_codec_bits _ = None"

text \<open>The \<open>uint32_t ts_delta\<close> of a video tag.\<close>

definition ts_delta :: "MEDIA_PACKET \<Rightarrow> int" where
  "ts_delta pkt = take_bit 32 (if dts pkt < pts pkt then pts pkt - dts pkt else 0)"

definition mux_tag_header :: "u8 \<Rightarrow> int \<Rightarrow> MEDIA_PACKET \<Rightarrow> bytes" where
  "mux_tag_header tag media_size pkt =
     (let timestamp_base = take_bit 24 (dts pkt);
          timestamp_ext = byte_of 24 (take_bit 24 (dts pkt))
      in [tag, byte_of 16 media_size, byte_of 8 media_size, byte_of 0 media_size,
          byte_of 16 timestamp_base, byte_of 8 timestamp_base, byte_of 0 timestamp_base, timestamp_ext,
          0, 0, 1])"

definition mux_video_header :: "MEDIA_PACKET \<Rightarrow> bytes option" where
  "mux_video_header pkt =
     (let h = (if is_seq_hdr pkt then (FLV_VIDEO_KEY_FLAG, FLV_VIDEO_AVC_SEQHDR)
               else if is_key_frame pkt then (FLV_VIDEO_KEY_FLAG, FLV_VIDEO_AVC_NALU)
               else (FLV_VIDEO_INTER_FLAG, FLV_VIDEO_AVC_NALU)) in
      case video_codec_bits (codec_type pkt) of None \<Rightarrow> None
      | Some c \<Rightarrow> Some [fst h OR c, snd h, byte_of 16 (ts_delta pkt), byte_of 8 (ts_delta pkt), byte_of 0 (ts_delta pkt)])"

definition mux_audio_header :: "MEDIA_PACKET \<Rightarrow> bytes option" where
  "mux_audio_header pkt =
     (case audio_codec_bits (codec_type pkt) of None \<Rightarrow> None
      | Some c \<Rightarrow> Some [0x0f OR c, if is_seq_hdr pkt then 0x00 else 0x01])"

definition pre_tag_size :: "int \<Rightarrow> bytes" where
  "pre_tag_size pre_size = [byte_of 24 pre_size, byte_of 16 pre_size, byte_of 8 pre_size, byte_of 0 pre_size]"

text \<open>\<open>input_packet\<close> gives its result, the packets passed to \<open>output_packet\<close> and the muxer.\<close>

definition mux_output :: "MEDIA_PACKET \<Rightarrow> bytes \<Rightarrow> MEDIA_PACKET" where
  "mux_output pkt bs = new_MEDIA_PACKET\<lparr>av_type := av_type pkt, codec_type := codec_type pkt,
     fmt_type := MEDIA_FORMAT_FLV, dts := dts pkt, pts := pts pkt, pkt_buffer := bs\<rparr>"

definition mux_input_packet :: "MEDIA_PACKET \<Rightarrow> flv_muxer \<Rightarrow> int \<times> MEDIA_PACKET list \<times> flv_muxer" where
  "mux_input_packet pkt m =
     (let (out0, m') = (if \<not> mux_header_ready m then (mux_flv_header m, m\<lparr>mux_header_ready := True\<rparr>) else ([], m));
          data = pkt_buffer pkt; data_size = int (length data)
      in case av_type pkt of
           MEDIA_VIDEO_TYPE \<Rightarrow>
             (case mux_video_header pkt of None \<Rightarrow> (-1, [], m')
              | Some h \<Rightarrow> (0, [mux_output pkt (out0 @ (mux_tag_header FLV_TAG_VIDEO (2 + 3 + data_size) pkt @ h) @
                   data @ pre_tag_size (11 + 5 + data_size))], m'))
         | MEDIA_AUDIO_TYPE \<Rightarrow>
             (case mux_audio_header pkt of None \<Rightarrow> (-1, [], m')
              | Some h \<Rightarrow> (0, [mux_output pkt (out0 @ (mux_tag_header FLV_TAG_AUDIO (2 + data_size) pkt @ h) @
                   data @ pre_tag_size (11 + 2 + data_size))], m'))
         | _ \<Rightarrow> (0, [], m'))"

text \<open>
  \<open>add_flv_media_header\<close> puts the media header in front of the data, in the space the
  \<open>data_buffer\<close> reserves: on the packet and its buffer.
\<close>

definition write_at :: "data_buffer \<Rightarrow> int option \<Rightarrow> nat \<Rightarrow> bytes \<Rightarrow> data_buffer cxx" where
  "write_at b p k xs = (case p of None \<Rightarrow> Inl NullDeref
     | Some i \<Rightarrow> cxx_bind (imem_write (db_buffer b) (i + int k) xs) (\<lambda>m. Inr (b\<lparr>db_buffer := m\<rparr>)))"

definition add_flv_media_header :: "MEDIA_PACKET \<Rightarrow> data_buffer \<Rightarrow> (int \<times> data_buffer) cxx" where
  "add_flv_media_header pkt b =
     (case av_type pkt of
        MEDIA_AUDIO_TYPE \<Rightarrow>
          (let (p, b1) = consume_data (-2) b in
           case audio_codec_bits (codec_type pkt) of
             None \<Rightarrow> Inr (-1, b1)
           | Some c \<Rightarrow>
               cxx_bind (write_at b1 p 0 [c OR 0x0f]) (\<lambda>b2.
               cxx_bind (write_at b2 p 1 [if is_seq_hdr pkt then 0x00 else 0x01]) (\<lambda>b3. Inr (0, b3))))
      | MEDIA_VIDEO_TYPE \<Rightarrow>
          (let (p, b1) = consume_data (-5) b in
           cxx_bind (write_at b1 p 0 [0]) (\<lambda>b2.
           case video_codec_bits (codec_type pkt) of
             None \<Rightarrow> Inr (-1, b2)
           | Some c \<Rightarrow>
               let h = (if is_key_frame pkt \<or> is_seq_hdr pkt
                        then (c OR FLV_VIDEO_KEY_FLAG, if is_seq_hdr pkt then 0x00 else 0x01)
                        else (c OR FLV_VIDEO_INTER_FLAG, 0x01)) in
               cxx_bind (write_at b2 p 0 [fst h, snd h]) (\<lambda>b3.
               cxx_bind (write_at b3 p 2 [byte_of 16 (ts_delta pkt), byte_of 8 (ts_delta pkt), byte_of 0 (ts_delta pkt)])
                 (\<lambda>b4. Inr (0, b4)))))
      | _ \<Rightarrow> Inr (0, b))"

subsection \<open>The demuxer\<close>

definition FLV_RET_NEED_MORE :: int where "FLV_RET_NEED_MORE = 1"

record flv_demuxer =
  dm_buffer :: bytes
  dm_key :: bytes
  dm_has_video :: bool
  dm_has_audio :: bool
  flv_header_ready :: bool
  tag_header_ready :: bool
  tag_type :: u8
  tag_data_size :: u32
  tag_timestamp :: u32

definition new_flv_demuxer :: flv_demuxer where
  "new_flv_demuxer = \<lparr>dm_buffer = [], dm_key = [], dm_has_video = False, dm_has_audio = False,
     flv_header_ready = False, tag_header_ready = False, tag_type = 0, tag_data_size = 0, tag_timestamp = 0\<rparr>"

text \<open>The first two parts of \<open>handle_packet\<close>; \<open>Inl ret\<close> is an early return of \<open>ret\<close>.\<close>

definition bad_signature :: "bytes \<Rightarrow> bool" where
  "bad_signature p \<longleftrightarrow> p ! 0 \<noteq> 0x46 \<or> p ! 1 \<noteq> 0x4c \<or> p ! 2 \<noteq> 0x56"

definition bad_offset :: "bytes \<Rightarrow> bool" where
  "bad_offset p \<longleftrightarrow> p ! 5 \<noteq> 0 \<or> p ! 6 \<noteq> 0 \<or> p ! 7 \<noteq> 0 \<or> p ! 8 \<noteq> 9"

definition type_flag :: "bytes \<Rightarrow> u8 \<Rightarrow> bool" where
  "type_flag p f \<longleftrightarrow> p ! 4 AND f = f"

definition read_file_header :: "flv_demuxer \<Rightarrow> ((int \<times> flv_demuxer) + flv_demuxer)" where
  "read_file_header d =
     (if flv_header_ready d then Inr d
      else if length (dm_buffer d) < 9 + 4 then Inl (FLV_RET_NEED_MORE, d)
      else
        let p = dm_buffer d in
        if bad_signature p then Inl (-1, d)
        else
          let d2 = d\<lparr>dm_has_video := type_flag p 0x01 \<or> dm_has_video d,
                     dm_has_audio := type_flag p 0x04 \<or> dm_has_audio d\<rparr> in
          if bad_offset p then Inl (-1, d2)
          else Inr (d2\<lparr>dm_buffer := drop (9 + 4) p, flv_header_ready := True\<rparr>))"

definition read_tag_header :: "flv_demuxer \<Rightarrow> ((int \<times> flv_demuxer) + flv_demuxer) cxx" where
  "read_tag_header d =
     (if tag_header_ready d then Inr (Inr d)
      else if length (dm_buffer d) < 11 then Inr (Inl (FLV_RET_NEED_MORE, d))
      else
        let p = dm_buffer d in
        cxx_bind (read_3bytes (drop 1 p)) (\<lambda>sz.
        cxx_bind (read_3bytes (drop 4 p)) (\<lambda>ts.
        cxx_bind (mem_at p 7) (\<lambda>ext.
        Inr (Inr (d\<lparr>tag_type := p ! 0, tag_data_size := sz, tag_timestamp := ts OR push_bit 24 (ucast ext),
          tag_header_ready := True, dm_buffer := drop 11 p\<rparr>))))))"

text \<open>
  The rest of \<open>handle_packet\<close>: the packet of the buffered tag with its header length and
  \<open>ts_delta\<close>. \<open>None\<close> is the return of -1.
\<close>

definition audio_codec :: "u8 \<Rightarrow> MEDIA_CODEC_TYPE option" where
  "audio_codec p0 =
     (if p0 AND 0xf0 = FLV_AUDIO_AAC_CODEC then Some MEDIA_CODEC_AAC
      else if p0 AND 0xf0 = FLV_AUDIO_OPUS_CODEC then Some MEDIA_CODEC_OPUS else None)"

definition read_audio_tag :: "bytes \<Rightarrow> MEDIA_PACKET \<Rightarrow> (MEDIA_PACKET \<times> nat \<times> u32) option cxx" where
  "read_audio_tag p out =
     cxx_bind (mem_at p 0) (\<lambda>p0.
     case audio_codec p0 of None \<Rightarrow> Inr None
     | Some c \<Rightarrow>
         cxx_bind (mem_at p 1) (\<lambda>p1.
         Inr (Some (out\<lparr>av_type := MEDIA_AUDIO_TYPE, codec_type := c, is_seq_hdr := (p1 = 0)\<rparr>, 2, 0))))"

definition video_codec :: "u8 \<Rightarrow> MEDIA_CODEC_TYPE option" where
  "video_codec p0 =
     (if p0 AND 0x0f = FLV_VIDEO_H264_CODEC then Some MEDIA_CODEC_H264
      else if p0 AND 0x0f = FLV_VIDEO_H265_CODEC then Some MEDIA_CODEC_H265
      else if p0 AND 0x0f = FLV_VIDEO_VP8_CODEC then Some MEDIA_CODEC_VP8
      else if p0 AND 0x0f = FLV_VIDEO_VP9_CODEC then Some MEDIA_CODEC_VP9 else None)"

definition video_frame :: "u8 \<Rightarrow> u8 \<Rightarrow> MEDIA_PACKET \<Rightarrow> MEDIA_PACKET option" where
  "video_frame p0 p1 out =
     (if p0 AND 0xf0 = FLV_VIDEO_KEY_FLAG then
        if p1 = 0x00 then Some (out\<lparr>is_seq_hdr := True\<rparr>)
        else if p1 = 0x01 then Some (out\<lparr>is_seq_hdr := False, is_key_frame := True\<rparr>)
        else None
      else Some out)"

definition read_video_tag :: "bytes \<Rightarrow> MEDIA_PACKET \<Rightarrow> (MEDIA_PACKET \<times> nat \<times> u32) option cxx" where
  "read_video_tag p out =
     cxx_bind (mem_at p 0) (\<lambda>p0.
     case video_codec p0 of None \<Rightarrow> Inr None
     | Some c \<Rightarrow>
         cxx_bind (mem_at p 1) (\<lambda>p1.
         case video_frame p0 p1 (out\<lparr>av_type := MEDIA_VIDEO_TYPE, codec_type := c\<rparr>) of None \<Rightarrow> Inr None
         | Some out' \<Rightarrow> cxx_bind (read_3bytes (drop 2 p)) (\<lambda>delta. Inr (Some (out', 5, delta)))))"

definition finish_tag :: "flv_demuxer \<Rightarrow> flv_demuxer" where
  "finish_tag d = d\<lparr>dm_buffer := drop (unat (tag_data_size d + 4)) (dm_buffer d), tag_header_ready := False\<rparr>"

definition read_tag :: "(MEDIA_PACKET \<Rightarrow> 's \<Rightarrow> (int \<times> 's) cxx) \<Rightarrow> flv_demuxer \<Rightarrow> 's \<Rightarrow> (int \<times> flv_demuxer \<times> 's) cxx" where
  "read_tag cb d s =
     (if length (dm_buffer d) < unat (tag_data_size d + 4) then Inr (FLV_RET_NEED_MORE, d, s)
      else
        let p = dm_buffer d;
            out = new_MEDIA_PACKET\<lparr>fmt_type := MEDIA_FORMAT_RAW, pkt_key := dm_key d\<rparr> in
        if tag_type d \<noteq> FLV_TAG_AUDIO \<and> tag_type d \<noteq> FLV_TAG_VIDEO then Inr (0, finish_tag d, s)
        else
          cxx_bind (if tag_type d = FLV_TAG_AUDIO then read_audio_tag p out else read_video_tag p out) (\<lambda>t.
          case t of None \<Rightarrow> Inr (-1, d, s)
          | Some (out', header_len, delta) \<Rightarrow>
              cxx_bind (mem_read p header_len (unat (tag_data_size d - of_nat header_len))) (\<lambda>body.
              cxx_bind (cb (out'\<lparr>dts := uint (tag_timestamp d), pts := uint (tag_timestamp d + delta), pkt_buffer := body\<rparr>) s)
                (\<lambda>(ret, s'). Inr (ret, finish_tag d, s')))))"

definition handle_packet :: "(MEDIA_PACKET \<Rightarrow> 's \<Rightarrow> (int \<times> 's) cxx) \<Rightarrow> flv_demuxer \<Rightarrow> 's \<Rightarrow> (int \<times> flv_demuxer \<times> 's) cxx" where
  "handle_packet cb d s =
     (case read_file_header d of Inl (r, d') \<Rightarrow> Inr (r, d', s)
      | Inr d1 \<Rightarrow>
          cxx_bind (read_tag_header d1) (\<lambda>h.
          case h of Inl (r, d') \<Rightarrow> Inr (r, d', s)
          | Inr d2 \<Rightarrow> read_tag cb d2 s))"

subsection \<open>The loop of the demuxer\<close>

text \<open>A measure of what is buffered; every \<open>handle_packet\<close> that returns 0 makes it smaller.\<close>

definition dm_measure :: "flv_demuxer \<Rightarrow> nat" where
  "dm_measure d = 2 * length (dm_buffer d) + (if tag_header_ready d then 1 else 0)"

lemma read_file_header_Inr: "read_file_header d = Inr d1 \<Longrightarrow> dm_measure d1 \<le> dm_measure d"
  by (auto simp: read_file_header_def dm_measure_def Let_def split: if_splits)

lemma read_file_header_Inl: "read_file_header d = Inl (r, d1) \<Longrightarrow> r \<noteq> 0"
  by (auto simp: read_file_header_def FLV_RET_NEED_MORE_def Let_def split: if_splits)

lemma read_tag_header_Inl: "read_tag_header d = Inr (Inl (r, d1)) \<Longrightarrow> r = FLV_RET_NEED_MORE \<and> d1 = d"
  by (auto simp: read_tag_header_def Let_def cxx_bind_Inr_iff split: if_splits)

lemma read_tag_header_Inr: "read_tag_header d = Inr (Inr d1) \<Longrightarrow> tag_header_ready d1 \<and> dm_measure d1 \<le> dm_measure d"
  by (auto simp: read_tag_header_def dm_measure_def Let_def cxx_bind_Inr_iff split: if_splits)

lemma finish_tag_measure: "tag_header_ready d \<Longrightarrow> dm_measure (finish_tag d) < dm_measure d"
  by (simp add: finish_tag_def dm_measure_def)

lemma read_tag_measure:
  "read_tag cb d s = Inr (0, d', s') \<Longrightarrow> tag_header_ready d \<Longrightarrow> dm_measure d' < dm_measure d"
  using finish_tag_measure [of d]
  by (auto simp: read_tag_def Let_def FLV_RET_NEED_MORE_def cxx_bind_Inr_iff split: if_splits option.splits)

lemma read_tag_header_total: "\<exists>x. read_tag_header d = Inr x"
proof (cases "tag_header_ready d \<or> length (dm_buffer d) < 11")
  case False
  then have "3 \<le> length (drop 1 (dm_buffer d))" "3 \<le> length (drop 4 (dm_buffer d))" by auto
  then obtain a b where "read_3bytes (drop 1 (dm_buffer d)) = Inr a" "read_3bytes (drop 4 (dm_buffer d)) = Inr b"
    using f3.dec_total by metis
  with False show ?thesis by (simp add: read_tag_header_def Let_def mem_at_def)
qed (auto simp: read_tag_header_def)

lemma handle_packet_cases:
  obtains r d1 where "read_file_header d = Inl (r, d1)" "handle_packet cb d s = Inr (r, d1, s)"
  | d1 where "read_file_header d = Inr d1" "read_tag_header d1 = Inr (Inl (FLV_RET_NEED_MORE, d1))"
      "handle_packet cb d s = Inr (FLV_RET_NEED_MORE, d1, s)"
  | d1 d2 where "read_file_header d = Inr d1" "read_tag_header d1 = Inr (Inr d2)"
      "handle_packet cb d s = read_tag cb d2 s"
proof (cases "read_file_header d")
  case (Inl x)
  then show ?thesis using that(1) by (cases x) (simp add: handle_packet_def)
next
  case (Inr d1)
  obtain h where h: "read_tag_header d1 = Inr h" using read_tag_header_total by blast
  show ?thesis
  proof (cases h)
    case (Inl x)
    obtain r d2 where x: "x = (r, d2)" by (cases x)
    have "x = (FLV_RET_NEED_MORE, d1)" using read_tag_header_Inl [of d1 r d2] h Inl x by simp
    then show ?thesis using that(2) [OF Inr] h Inl Inr by (simp add: handle_packet_def)
  next
    case (Inr d2)
    then show ?thesis using that(3) [OF \<open>read_file_header d = Inr d1\<close>] h \<open>read_file_header d = Inr d1\<close>
      by (simp add: handle_packet_def)
  qed
qed

lemma handle_packet_measure:
  assumes "handle_packet cb d s = Inr (0, d', s')" shows "dm_measure d' < dm_measure d"
proof (rule handle_packet_cases [of d cb s])
  fix d1 d2
  assume "read_file_header d = Inr d1" "read_tag_header d1 = Inr (Inr d2)" "handle_packet cb d s = read_tag cb d2 s"
  then show ?thesis
    using assms read_file_header_Inr read_tag_header_Inr read_tag_measure by (metis order_less_le_trans)
qed (use assms read_file_header_Inl in \<open>auto simp: FLV_RET_NEED_MORE_def\<close>)

function handle_loop :: "(MEDIA_PACKET \<Rightarrow> 's \<Rightarrow> (int \<times> 's) cxx) \<Rightarrow> flv_demuxer \<Rightarrow> 's \<Rightarrow> (int \<times> flv_demuxer \<times> 's) cxx" where
  "handle_loop cb d s =
     cxx_bind (handle_packet cb d s) (\<lambda>(ret, d', s'). if ret = 0 then handle_loop cb d' s' else Inr (ret, d', s'))"
  by pat_completeness auto
termination
  by (relation "measure (\<lambda>(cb, d, s). dm_measure d)") (auto dest: handle_packet_measure)

declare handle_loop.simps [simp del]

text \<open>What \<open>input_packet\<close> does before the loop.\<close>

definition feed_data :: "bytes \<Rightarrow> flv_demuxer \<Rightarrow> flv_demuxer" where
  "feed_data xs d = d\<lparr>dm_buffer := dm_buffer d @ xs\<rparr>"

definition set_key :: "bytes \<Rightarrow> flv_demuxer \<Rightarrow> flv_demuxer" where
  "set_key k d = (if dm_key d = [] \<and> k \<noteq> [] then d\<lparr>dm_key := k\<rparr> else d)"

definition demux_input_packet :: "(MEDIA_PACKET \<Rightarrow> 's \<Rightarrow> (int \<times> 's) cxx) \<Rightarrow> MEDIA_PACKET \<Rightarrow> flv_demuxer \<Rightarrow> 's \<Rightarrow> (int \<times> flv_demuxer \<times> 's) cxx" where
  "demux_input_packet cb pkt d s = handle_loop cb (set_key (pkt_key pkt) (feed_data (pkt_buffer pkt) d)) s"

subsection \<open>More input does not change what was demuxed\<close>

text \<open>The invariant: the size of a pending tag came from a 24-bit field.\<close>

definition dm_inv :: "flv_demuxer \<Rightarrow> bool" where
  "dm_inv d \<longleftrightarrow> (tag_header_ready d \<longrightarrow> unat (tag_data_size d) < 2 ^ 24)"

lemma feed_simps [simp]:
  "dm_buffer (feed_data xs d) = dm_buffer d @ xs" "dm_key (feed_data xs d) = dm_key d"
  "flv_header_ready (feed_data xs d) = flv_header_ready d" "tag_header_ready (feed_data xs d) = tag_header_ready d"
  "tag_type (feed_data xs d) = tag_type d" "tag_data_size (feed_data xs d) = tag_data_size d"
  "tag_timestamp (feed_data xs d) = tag_timestamp d" "dm_inv (feed_data xs d) = dm_inv d"
  "feed_data ys (feed_data xs d) = feed_data (xs @ ys) d"
  by (simp_all add: feed_data_def dm_inv_def)

lemma read_file_header_feed:
  "read_file_header d = Inr d1 \<Longrightarrow> read_file_header (feed_data ys d) = Inr (feed_data ys d1)"
  "read_file_header d = Inl (r, d1) \<Longrightarrow>
     if r = FLV_RET_NEED_MORE then d1 = d else read_file_header (feed_data ys d) = Inl (r, feed_data ys d1)"
  "read_file_header d = Inr d1 \<Longrightarrow> flv_header_ready d1 \<and> dm_inv d1 = dm_inv d"
proof -
  have prefix: "bad_signature (dm_buffer d @ ys) = bad_signature (dm_buffer d)" "type_flag (dm_buffer d @ ys) = type_flag (dm_buffer d)"
    "bad_offset (dm_buffer d @ ys) = bad_offset (dm_buffer d)" if "13 \<le> length (dm_buffer d)"
    using that by (auto simp: bad_signature_def bad_offset_def type_flag_def nth_append fun_eq_iff)
  show "read_file_header d = Inr d1 \<Longrightarrow> flv_header_ready d1 \<and> dm_inv d1 = dm_inv d"
    by (auto simp: read_file_header_def Let_def dm_inv_def split: if_splits)
  show "read_file_header d = Inr d1 \<Longrightarrow> read_file_header (feed_data ys d) = Inr (feed_data ys d1)"
    "read_file_header d = Inl (r, d1) \<Longrightarrow>
     if r = FLV_RET_NEED_MORE then d1 = d else read_file_header (feed_data ys d) = Inl (r, feed_data ys d1)"
    using prefix by (auto simp: read_file_header_def Let_def feed_data_def FLV_RET_NEED_MORE_def split: if_splits)
qed

lemma read_tag_header_cases:
  assumes "read_tag_header d = Inr (Inr d1)"
  obtains "tag_header_ready d" "d1 = d"
  | sz ts ext where "\<not> tag_header_ready d" "11 \<le> length (dm_buffer d)" "read_3bytes (drop 1 (dm_buffer d)) = Inr sz"
      "read_3bytes (drop 4 (dm_buffer d)) = Inr ts" "mem_at (dm_buffer d) 7 = Inr ext"
      "d1 = d\<lparr>tag_type := dm_buffer d ! 0, tag_data_size := sz, tag_timestamp := ts OR push_bit 24 (ucast ext),
          tag_header_ready := True, dm_buffer := drop 11 (dm_buffer d)\<rparr>"
  using assms by (auto simp: read_tag_header_def cxx_bind_Inr_iff Let_def split: if_splits)

lemma read_tag_header_feed:
  assumes "read_tag_header d = Inr (Inr d1)"
  shows "read_tag_header (feed_data ys d) = Inr (Inr (feed_data ys d1))"
    and "dm_inv d \<Longrightarrow> dm_inv d1" and "flv_header_ready d1 = flv_header_ready d" and "tag_header_ready d1"
proof -
  have "read_tag_header (feed_data ys d) = Inr (Inr (feed_data ys d1)) \<and> (dm_inv d \<longrightarrow> dm_inv d1) \<and>
      flv_header_ready d1 = flv_header_ready d \<and> tag_header_ready d1"
    using assms
  proof (cases rule: read_tag_header_cases)
    case 1
    then show ?thesis
      by (simp add: read_tag_header_def)
  next
    case (2 sz ts ext)
    then have "read_3bytes (drop 1 (dm_buffer d @ ys)) = Inr sz" "read_3bytes (drop 4 (dm_buffer d @ ys)) = Inr ts"
      "mem_at (dm_buffer d @ ys) 7 = Inr ext"
      using cxx_leD f3.dec_drop_le mem_at_le by metis+
    moreover have "drop 11 (dm_buffer d @ ys) = drop 11 (dm_buffer d) @ ys" using 2(2) by simp
    ultimately show ?thesis
      using 2(1,2,6) read_3bytes_lt [OF 2(3)] by (auto simp: read_tag_header_def Let_def dm_inv_def nth_append feed_data_def simp del: drop_append)
  qed
  then show "read_tag_header (feed_data ys d) = Inr (Inr (feed_data ys d1))"
    and "dm_inv d \<Longrightarrow> dm_inv d1" and "flv_header_ready d1 = flv_header_ready d" and "tag_header_ready d1"
    by auto
qed

lemma read_audio_tag_feed: "cxx_le (read_audio_tag p out) (read_audio_tag (p @ ys) out)"
  unfolding read_audio_tag_def Let_def
  by (intro le_intros) (auto split: option.split intro!: le_intros)

lemma read_video_tag_feed: "cxx_le (read_video_tag p out) (read_video_tag (p @ ys) out)"
  unfolding read_video_tag_def Let_def
  by (intro le_intros) (auto split: option.split intro!: le_intros simp del: drop_append)

lemma finish_tag_feed:
  "unat (tag_data_size d + 4) \<le> length (dm_buffer d) \<Longrightarrow> finish_tag (feed_data ys d) = feed_data ys (finish_tag d)"
  by (simp add: finish_tag_def feed_data_def)

text \<open>A callback that never returns the value that means ``need more data''.\<close>

definition cb_ok :: "(MEDIA_PACKET \<Rightarrow> 's \<Rightarrow> (int \<times> 's) cxx) \<Rightarrow> bool" where
  "cb_ok cb \<longleftrightarrow> (\<forall>p s r s'. cb p s = Inr (r, s') \<longrightarrow> r \<noteq> FLV_RET_NEED_MORE)"

text \<open>The part of \<open>read_tag\<close> after the length check.\<close>

definition tag_body :: "(MEDIA_PACKET \<Rightarrow> 's \<Rightarrow> (int \<times> 's) cxx) \<Rightarrow> flv_demuxer \<Rightarrow> 's \<Rightarrow> (int \<times> bool \<times> 's) cxx" where
  "tag_body cb d s =
     (let p = dm_buffer d; out = new_MEDIA_PACKET\<lparr>fmt_type := MEDIA_FORMAT_RAW, pkt_key := dm_key d\<rparr> in
      if tag_type d \<noteq> FLV_TAG_AUDIO \<and> tag_type d \<noteq> FLV_TAG_VIDEO then Inr (0, True, s)
      else
        cxx_bind (if tag_type d = FLV_TAG_AUDIO then read_audio_tag p out else read_video_tag p out) (\<lambda>t.
        case t of None \<Rightarrow> Inr (-1, False, s)
        | Some (out', header_len, delta) \<Rightarrow>
            cxx_bind (mem_read p header_len (unat (tag_data_size d - of_nat header_len))) (\<lambda>body.
            cxx_bind (cb (out'\<lparr>dts := uint (tag_timestamp d), pts := uint (tag_timestamp d + delta), pkt_buffer := body\<rparr>) s)
              (\<lambda>(ret, s'). Inr (ret, True, s')))))"

lemma read_tag_body:
  "read_tag cb d s = (if length (dm_buffer d) < unat (tag_data_size d + 4) then Inr (FLV_RET_NEED_MORE, d, s)
     else cxx_bind (tag_body cb d s) (\<lambda>(r, fin, s'). Inr (r, if fin then finish_tag d else d, s')))"
  by (auto simp: read_tag_def tag_body_def Let_def cxx_bind_assoc intro!: cxx_bind_cong split: option.split)

lemma tag_body_le: "cxx_le (tag_body cb d s) (tag_body cb (feed_data ys d) s)"
  unfolding tag_body_def Let_def using read_audio_tag_feed read_video_tag_feed
  by (auto split: option.split intro!: le_intros)

lemma tag_body_ret: "cb_ok cb \<Longrightarrow> tag_body cb d s = Inr (r, fin, s') \<Longrightarrow> r \<noteq> FLV_RET_NEED_MORE"
  by (fastforce simp: tag_body_def Let_def cb_ok_def cxx_bind_Inr_iff FLV_RET_NEED_MORE_def split: if_splits option.splits)

lemma read_tag_feed:
  assumes "cb_ok cb" "read_tag cb d s = Inr (r, d', s')"
  shows "if r = FLV_RET_NEED_MORE then d' = d \<and> s' = s
     else read_tag cb (feed_data ys d) s = Inr (r, feed_data ys d', s')"
proof (cases "length (dm_buffer d) < unat (tag_data_size d + 4)")
  case True
  then show ?thesis using assms by (simp add: read_tag_body)
next
  case False
  with assms(2) obtain fin where b: "tag_body cb d s = Inr (r, fin, s')" "d' = (if fin then finish_tag d else d)"
    by (auto simp: read_tag_body cxx_bind_Inr_iff)
  have "tag_body cb (feed_data ys d) s = Inr (r, fin, s')" by (rule cxx_leD [OF tag_body_le b(1)])
  with False b(2) show ?thesis
    using tag_body_ret [OF assms(1) b(1)] by (simp add: read_tag_body finish_tag_feed)
qed

lemma handle_packet_feed:
  assumes cb: "cb_ok cb" and run: "handle_packet cb d s = Inr (r, d', s')"
  shows "if r = FLV_RET_NEED_MORE then s' = s \<and> handle_packet cb (feed_data ys d) s = handle_packet cb (feed_data ys d') s
     else handle_packet cb (feed_data ys d) s = Inr (r, feed_data ys d', s')"
proof (rule handle_packet_cases [of d cb s])
  fix r1 d1
  assume "read_file_header d = Inl (r1, d1)" "handle_packet cb d s = Inr (r1, d1, s)"
  then show ?thesis using read_file_header_feed(2) [of d r1 d1 ys] run by (auto simp: handle_packet_def split: if_splits)
next
  fix d1
  assume 1: "read_file_header d = Inr d1" and 2: "handle_packet cb d s = Inr (FLV_RET_NEED_MORE, d1, s)"
  have "read_file_header (feed_data ys d1) = Inr (feed_data ys d1)"
    using read_file_header_feed(3) [OF 1] by (simp add: read_file_header_def)
  then show ?thesis using read_file_header_feed(1) [OF 1, of ys] run 2 by (simp add: handle_packet_def)
next
  fix d1 d2
  assume 1: "read_file_header d = Inr d1" "read_tag_header d1 = Inr (Inr d2)" "handle_packet cb d s = read_tag cb d2 s"
  note h = read_tag_header_feed [OF 1(2)]
  have fd: "handle_packet cb (feed_data ys d) s = read_tag cb (feed_data ys d2) s"
    using read_file_header_feed(1) [OF 1(1), of ys] h(1) [of ys] by (simp add: handle_packet_def)
  have "flv_header_ready d2" using h(3) read_file_header_feed(3) [OF 1(1)] by simp
  then have "handle_packet cb (feed_data ys d2) s = read_tag cb (feed_data ys d2) s"
    using h(4) by (simp add: handle_packet_def read_file_header_def read_tag_header_def)
  with fd show ?thesis using read_tag_feed [OF cb, of d2 s r d' s' ys] run 1(3) by (auto split: if_splits)
qed

lemma handle_loop_feed:
  assumes "cb_ok cb" "handle_loop cb d s = Inr (r, d', s')"
  shows "if r = FLV_RET_NEED_MORE then handle_loop cb (feed_data ys d) s = handle_loop cb (feed_data ys d') s'
     else handle_loop cb (feed_data ys d) s = Inr (r, feed_data ys d', s')"
  using assms
proof (induction cb d s rule: handle_loop.induct)
  case (1 cb d s)
  from 1(3) obtain r1 d1 s1 where h: "handle_packet cb d s = Inr (r1, d1, s1)"
    and next1: "if r1 = 0 then handle_loop cb d1 s1 = Inr (r, d', s') else (r, d', s') = (r1, d1, s1)"
    by (subst (asm) handle_loop.simps) (auto simp: cxx_bind_Inr_iff split: if_splits)
  note f = handle_packet_feed [OF 1(2) h, of ys]
  show ?case
  proof (cases "r1 = 0")
    case True
    then have "handle_loop cb (feed_data ys d) s = handle_loop cb (feed_data ys d1) s1"
      using f by (subst handle_loop.simps) (simp add: FLV_RET_NEED_MORE_def)
    with True 1(1) [OF h refl refl True 1(2)] next1 show ?thesis by simp
  next
    case False
    with f next1 show ?thesis
      by (subst (1 2 3) handle_loop.simps) (auto split: if_splits)
  qed
qed

text \<open>
  A run that stops on a prefix also stops on the whole input, as long as the buffer is below
  4 GB, so that the wrapped body length of a tag shorter than its media header cannot fit.
\<close>

lemma read_tag_len:
  "read_audio_tag p out = Inr (Some (out', k, delta)) \<Longrightarrow> k = 2"
  "read_video_tag p out = Inr (Some (out', k, delta)) \<Longrightarrow> k = 5"
  by (auto simp: read_audio_tag_def read_video_tag_def Let_def cxx_bind_Inr_iff split: option.splits)

lemma read_audio_total: "2 \<le> length p \<Longrightarrow> \<exists>t. read_audio_tag p out = Inr t"
  by (auto simp: read_audio_tag_def Let_def mem_at_def split: option.split)

lemma read_video_total: "5 \<le> length p \<Longrightarrow> \<exists>t. read_video_tag p out = Inr t"
proof -
  assume "5 \<le> length p"
  then have "3 \<le> length (drop 2 p)" by simp
  then obtain v where "read_3bytes (drop 2 p) = Inr v" using f3.dec_total by blast
  then show ?thesis using \<open>5 \<le> length p\<close>
    by (auto simp: read_video_tag_def mem_at_def split: option.split)
qed

lemma read_video_none: "2 \<le> length p \<Longrightarrow> read_video_tag (p @ ys) out = Inr None \<Longrightarrow> read_video_tag p out = Inr None"
  by (auto simp: read_video_tag_def Let_def mem_at_def nth_append cxx_bind_Inr_iff split: option.splits if_splits)

lemma tag_size_wrap:
  assumes "k \<le> 5"
  shows "unat (sz - of_nat k :: u32) + k = unat sz \<or> 2 ^ 32 - 5 \<le> unat (sz - of_nat k)"
  using assms by (auto simp: unat_sub_if' unat_of_nat)

lemma tag_body_stops:
  assumes "dm_inv d" "tag_header_ready d" "unat (tag_data_size d + 4) \<le> length (dm_buffer d)"
    and small: "length (dm_buffer d) + length ys < 2 ^ 32 - 5" and stop: "tag_body cb d s = Inl e"
  shows "\<exists>e'. tag_body cb (feed_data ys d) s = Inl e'"
proof (rule ccontr)
  let ?p = "dm_buffer d" and ?sz = "tag_data_size d"
  let ?out = "new_MEDIA_PACKET\<lparr>fmt_type := MEDIA_FORMAT_RAW, pkt_key := dm_key d\<rparr>"
  let ?rd = "\<lambda>p. if tag_type d = FLV_TAG_AUDIO then read_audio_tag p ?out else read_video_tag p ?out"
  assume "\<nexists>e'. tag_body cb (feed_data ys d) s = Inl e'"
  then obtain x where x: "tag_body cb (feed_data ys d) s = Inr x" by (cases "tag_body cb (feed_data ys d) s") auto
  have sz: "unat ?sz + 4 \<le> length ?p"
    using assms(1-3) by (simp add: dm_inv_def unat_word_ariths)
  have ty: "tag_type d = FLV_TAG_AUDIO \<or> tag_type d = FLV_TAG_VIDEO" using stop by (auto simp: tag_body_def Let_def split: if_splits)
  have le: "cxx_le (?rd ?p) (?rd (?p @ ys))" using read_audio_tag_feed read_video_tag_feed by auto
  obtain t where t: "?rd (?p @ ys) = Inr t"
    using x ty by (auto simp: tag_body_def Let_def cxx_bind_Inr_iff)
  have rd: "?rd ?p = Inr t" if "t = None \<or> 5 \<le> length ?p"
  proof (cases "\<exists>t'. ?rd ?p = Inr t'")
    case True
    then show ?thesis using t cxx_leD [OF le] by (metis sum.inject(2))
  next
    case False
    have "2 \<le> length ?p" using sz by simp
    with False have "tag_type d \<noteq> FLV_TAG_AUDIO" using read_audio_total [of ?p ?out] by (metis (full_types))
    with False that t show ?thesis
      using read_video_total [of ?p ?out] read_video_none [OF \<open>2 \<le> length ?p\<close>, of ys ?out] by auto
  qed
  obtain o' k delta where some: "t = Some (o', k, delta)"
    using rd stop ty by (cases t) (auto simp: tag_body_def Let_def)
  then have k: "k \<le> 5" using t read_tag_len [of "?p @ ys" ?out o' k delta] by (auto split: if_splits)
  obtain body where body: "mem_read (?p @ ys) k (unat (?sz - of_nat k)) = Inr body"
    and cb: "\<exists>y. cb (o'\<lparr>dts := uint (tag_timestamp d), pts := uint (tag_timestamp d + delta), pkt_buffer := body\<rparr>) s = Inr y"
    using x ty t some by (auto simp: tag_body_def Let_def cxx_bind_Inr_iff)
  have fits: "unat (?sz - of_nat k) + k = unat ?sz"
    using tag_size_wrap [OF k, of ?sz] body small by (auto simp: mem_read_def split: if_splits)
  then have "mem_read ?p k (unat (?sz - of_nat k)) = Inr body"
    using body sz by (auto simp: mem_read_def split: if_splits)
  moreover have "?rd ?p = Inr t"
  proof (cases "5 \<le> length ?p")
    case False
    with fits sz k have "k \<noteq> 5" by linarith
    with t some read_tag_len(2) have au: "tag_type d = FLV_TAG_AUDIO" by (metis (full_types))
    have "2 \<le> length ?p" using sz by simp
    from read_audio_total [OF this, of ?out] obtain t' where "?rd ?p = Inr t'" using au by auto
    with cxx_leD [OF le this] t show ?thesis by simp
  qed (use rd in simp)
  ultimately show False using stop cb ty some by (auto simp: tag_body_def Let_def split: if_splits)
qed

lemma handle_packet_stops:
  assumes "dm_inv d" "length (dm_buffer d) + length ys < 2 ^ 32 - 5" "handle_packet cb d s = Inl e"
  shows "\<exists>e'. handle_packet cb (feed_data ys d) s = Inl e'"
proof (rule handle_packet_cases [of d cb s])
  fix d1 d2
  assume 1: "read_file_header d = Inr d1" "read_tag_header d1 = Inr (Inr d2)" "handle_packet cb d s = read_tag cb d2 s"
  note h = read_tag_header_feed [OF 1(2)]
  have fd: "handle_packet cb (feed_data ys d) s = read_tag cb (feed_data ys d2) s"
    using read_file_header_feed(1) [OF 1(1), of ys] h(1) [of ys] by (simp add: handle_packet_def)
  have "dm_measure d2 \<le> dm_measure d"
    using read_file_header_Inr [OF 1(1)] read_tag_header_Inr [OF 1(2)] by linarith
  then have "length (dm_buffer d2) + length ys < 2 ^ 32 - 5" using assms(2) h(4) by (auto simp: dm_measure_def split: if_splits)
  moreover have "dm_inv d2" using h(2) read_file_header_feed(3) [OF 1(1)] assms(1) by simp
  ultimately show ?thesis
    using tag_body_stops [of d2 ys cb s e] h(4) assms(3) 1(3) fd
    by (auto simp: read_tag_body cxx_bind_Inl_iff split: if_splits)
qed (use assms(3) in auto)

lemma handle_packet_key:
  assumes "handle_packet cb d s = Inr (r, d', s')" shows "dm_key d' = dm_key d"
proof -
  have 1: "read_file_header d = Inr d1 \<Longrightarrow> dm_key d1 = dm_key d" "read_file_header d = Inl (r1, d1) \<Longrightarrow> dm_key d1 = dm_key d" for d1 r1
    by (auto simp: read_file_header_def Let_def split: if_splits)
  have 2: "dm_key d2 = dm_key d1" if "read_tag_header d1 = Inr (Inr d2)" for d1 d2
    using that by (cases rule: read_tag_header_cases) auto
  have 3: "read_tag cb d2 s = Inr (r, d', s') \<Longrightarrow> dm_key d' = dm_key d2" for d2
    by (auto simp: read_tag_body cxx_bind_Inr_iff finish_tag_def split: if_splits)
  show ?thesis
    by (rule handle_packet_cases [of d cb s]) (use assms 1 2 3 in auto)
qed

lemma handle_packet_inv:
  assumes "handle_packet cb d s = Inr (r, d', s')" "dm_inv d"
  shows "dm_inv d' \<and> length (dm_buffer d') \<le> length (dm_buffer d)"
proof (rule handle_packet_cases [of d cb s])
  fix d1 d2
  assume 1: "read_file_header d = Inr d1" "read_tag_header d1 = Inr (Inr d2)" "handle_packet cb d s = read_tag cb d2 s"
  have "dm_inv d2" using read_tag_header_feed(2) [OF 1(2)] read_file_header_feed(3) [OF 1(1)] assms(2) by simp
  moreover have "length (dm_buffer d2) \<le> length (dm_buffer d)"
    using read_file_header_Inr [OF 1(1)] read_tag_header_Inr [OF 1(2)] by (auto simp: dm_measure_def split: if_splits)
  ultimately show ?thesis using assms(1) 1(3)
    by (auto simp: read_tag_body cxx_bind_Inr_iff finish_tag_def dm_inv_def split: if_splits)
next
  fix r1 d1
  assume "read_file_header d = Inl (r1, d1)" "handle_packet cb d s = Inr (r1, d1, s)"
  then show ?thesis using assms by (auto simp: read_file_header_def Let_def dm_inv_def split: if_splits)
next
  fix d1
  assume 1: "read_file_header d = Inr d1" "handle_packet cb d s = Inr (FLV_RET_NEED_MORE, d1, s)"
  then have "length (dm_buffer d1) \<le> length (dm_buffer d)" by (auto simp: read_file_header_def Let_def split: if_splits)
  with 1 show ?thesis using assms read_file_header_feed(3) [OF 1(1)] by simp
qed

lemma handle_loop_stops:
  assumes "cb_ok cb" "dm_inv d" "length (dm_buffer d) + length ys < 2 ^ 32 - 5" "handle_loop cb d s = Inl e"
  shows "\<exists>e'. handle_loop cb (feed_data ys d) s = Inl e'"
  using assms
proof (induction cb d s rule: handle_loop.induct)
  case (1 cb d s)
  show ?case
  proof (cases "handle_packet cb d s")
    case (Inl e1)
    with handle_packet_stops [OF 1(3,4), of cb s] show ?thesis by (subst handle_loop.simps) auto
  next
    case (Inr x)
    then obtain r d1 s1 where h: "handle_packet cb d s = Inr (r, d1, s1)" by (cases x) auto
    with 1(5) have r: "r = 0" and st: "handle_loop cb d1 s1 = Inl e"
      by (subst (asm) handle_loop.simps, auto split: if_splits)+
    have "handle_loop cb (feed_data ys d) s = handle_loop cb (feed_data ys d1) s1"
      using handle_packet_feed [OF 1(2) h, of ys] r by (subst handle_loop.simps) (simp add: FLV_RET_NEED_MORE_def)
    then show ?thesis using 1(1) [OF h refl refl r 1(2)] handle_packet_inv [OF h 1(3)] 1(4) st by auto
  qed
qed

lemma handle_loop_inv:
  assumes "handle_loop cb d s = Inr (r, d', s')" "dm_inv d"
  shows "dm_inv d' \<and> length (dm_buffer d') \<le> length (dm_buffer d)"
  using assms
proof (induction cb d s rule: handle_loop.induct)
  case (1 cb d s)
  from 1(2) obtain r1 d1 s1 where h: "handle_packet cb d s = Inr (r1, d1, s1)"
    and next1: "if r1 = 0 then handle_loop cb d1 s1 = Inr (r, d', s') else (r, d', s') = (r1, d1, s1)"
    by (subst (asm) handle_loop.simps) (auto simp: cxx_bind_Inr_iff split: if_splits)
  show ?case using 1(1) [OF h refl refl] handle_packet_inv [OF h 1(3)] next1 by (cases "r1 = 0") auto
qed

lemma handle_loop_key: "handle_loop cb d s = Inr (r, d', s') \<Longrightarrow> dm_key d' = dm_key d"
proof (induction cb d s rule: handle_loop.induct)
  case (1 cb d s)
  from 1(2) obtain r1 d1 s1 where h: "handle_packet cb d s = Inr (r1, d1, s1)"
    and next1: "if r1 = 0 then handle_loop cb d1 s1 = Inr (r, d', s') else (r, d', s') = (r1, d1, s1)"
    by (subst (asm) handle_loop.simps) (auto simp: cxx_bind_Inr_iff split: if_splits)
  show ?case using 1(1) [OF h refl refl] handle_packet_key [OF h] next1 by (cases "r1 = 0") auto
qed

subsection \<open>Input in pieces\<close>

text \<open>Feeding the pieces of a byte stream one after the other, as \<open>on_read\<close> of a session does.\<close>

fun demux_pieces :: "(MEDIA_PACKET \<Rightarrow> 's \<Rightarrow> (int \<times> 's) cxx) \<Rightarrow> bytes list \<Rightarrow> flv_demuxer \<Rightarrow> 's \<Rightarrow> (int \<times> flv_demuxer \<times> 's) cxx" where
  "demux_pieces cb [] d s = Inr (FLV_RET_NEED_MORE, d, s)"
| "demux_pieces cb (xs # xss) d s =
     cxx_bind (handle_loop cb (feed_data xs d) s) (\<lambda>(r, d', s').
       if xss = [] then Inr (r, d', s') else demux_pieces cb xss d' s')"

lemma demux_pieces_concat:
  assumes "cb_ok cb" "dm_inv d" "length (dm_buffer d) + length (concat xss) < 2 ^ 32 - 5" "xss \<noteq> []"
    and "handle_loop cb (feed_data (concat xss) d) s = Inr (FLV_RET_NEED_MORE, d', s')"
  shows "demux_pieces cb xss d s = Inr (FLV_RET_NEED_MORE, d', s')"
  using assms
proof (induction xss arbitrary: d s)
  case Nil
  then show ?case by simp
next
  case (Cons xs xss)
  show ?case
  proof (cases "xss = []")
    case True
    with Cons.prems show ?thesis by simp
  next
    case False
    let ?ys = "concat xss"
    have whole: "feed_data (concat (xs # xss)) d = feed_data ?ys (feed_data xs d)" by simp
    have small: "length (dm_buffer (feed_data xs d)) + length ?ys < 2 ^ 32 - 5" using Cons.prems(3) by simp
    have "handle_loop cb (feed_data xs d) s \<noteq> Inl e" for e
      using handle_loop_stops [OF Cons.prems(1) _ small, of s e] Cons.prems(2,5) whole by auto
    then obtain r1 d1 s1 where h: "handle_loop cb (feed_data xs d) s = Inr (r1, d1, s1)"
      by (metis sum.exhaust prod_cases3)
    note f = handle_loop_feed [OF Cons.prems(1) h, of ?ys]
    have r1: "r1 = FLV_RET_NEED_MORE" using f Cons.prems(5) whole by (simp split: if_splits)
    then have "handle_loop cb (feed_data ?ys d1) s1 = Inr (FLV_RET_NEED_MORE, d', s')"
      using f Cons.prems(5) whole by simp
    moreover have "dm_inv d1 \<and> length (dm_buffer d1) \<le> length (dm_buffer (feed_data xs d))"
      using handle_loop_inv [OF h] Cons.prems(2) by simp
    ultimately show ?thesis using Cons.IH [of d1 s1] Cons.prems(1) False small h by simp
  qed
qed

text \<open>The same with \<open>input_packet\<close>, on packets that carry the stream's key.\<close>

fun input_pieces :: "(MEDIA_PACKET \<Rightarrow> 's \<Rightarrow> (int \<times> 's) cxx) \<Rightarrow> bytes \<Rightarrow> bytes list \<Rightarrow> flv_demuxer \<Rightarrow> 's \<Rightarrow> (int \<times> flv_demuxer \<times> 's) cxx" where
  "input_pieces cb k [] d s = Inr (FLV_RET_NEED_MORE, d, s)"
| "input_pieces cb k (xs # xss) d s =
     cxx_bind (demux_input_packet cb (new_MEDIA_PACKET\<lparr>pkt_key := k, pkt_buffer := xs\<rparr>) d s) (\<lambda>(r, d', s').
       if xss = [] then Inr (r, d', s') else input_pieces cb k xss d' s')"

lemma set_key_feed: "set_key k (feed_data xs d) = feed_data xs (set_key k d)"
  by (simp add: set_key_def feed_data_def)

lemma input_pieces_demux: "xss \<noteq> [] \<Longrightarrow> input_pieces cb k xss d s = demux_pieces cb xss (set_key k d) s"
proof (induction xss arbitrary: d s)
  case (Cons xs xss)
  have "set_key k d1 = d1" if "handle_loop cb (feed_data xs (set_key k d)) s = Inr (r, d1, s1)" for r d1 s1
    using handle_loop_key [OF that] by (auto simp: set_key_def split: if_splits)
  then show ?case
    using Cons.IH by (auto simp: demux_input_packet_def set_key_feed intro!: cxx_bind_cong)
qed simp

subsection \<open>Demuxing what was muxed\<close>

lemma byte_of_mem: "i < 4 \<Longrightarrow> byte_of (8 * i) x = to_mem 4 (word_of_int x :: u32) ! i"
  by (rule bit_word_eqI) (auto simp: byte_of_def bit_to_mem bit_word_of_int_iff bit_drop_bit_eq)

lemma byte_of_3: "[byte_of 16 x, byte_of 8 x, byte_of 0 x] = write_3bytes (word_of_int x)"
  using byte_of_mem [of 0 x] byte_of_mem [of 1 x] byte_of_mem [of 2 x] by (simp add: write_3bytes_def Let_def)

lemma read_byte_of:
  assumes "0 \<le> x" "x < 2 ^ 24"
  shows "read_3bytes (byte_of 16 x # byte_of 8 x # byte_of 0 x # rest) = Inr (word_of_int x)"
proof -
  have "unat (word_of_int x :: u32) < 2 ^ 24"
    using assms by (simp add: unat_eq_nat_uint unsigned_of_int take_bit_int_eq_self)
  from f3.dec_enc [OF this, of rest] show ?thesis by (simp flip: byte_of_3)
qed

text \<open>The packets the format can carry, and those that survive the muxer's 24-bit timestamps.\<close>

definition media_ok :: "MEDIA_PACKET \<Rightarrow> bool" where
  "media_ok p \<longleftrightarrow> 0 \<le> dts p \<and> pts p < 2 ^ 32 \<and>
     (av_type p = MEDIA_VIDEO_TYPE \<and> video_codec_bits (codec_type p) \<noteq> None \<and> \<not> (is_seq_hdr p \<and> is_key_frame p) \<and>
        length (pkt_buffer p) + 5 < 2 ^ 24 \<and> dts p \<le> pts p \<and> pts p - dts p < 2 ^ 24 \<or>
      av_type p = MEDIA_AUDIO_TYPE \<and> audio_codec_bits (codec_type p) \<noteq> None \<and> \<not> is_key_frame p \<and>
        length (pkt_buffer p) + 2 < 2 ^ 24 \<and> pts p = dts p)"

definition flv_ok :: "MEDIA_PACKET \<Rightarrow> bool" where
  "flv_ok p \<longleftrightarrow> media_ok p \<and> dts p < 2 ^ 24"

text \<open>The media header that \<open>add_flv_media_header\<close> writes.\<close>

definition media_header :: "MEDIA_PACKET \<Rightarrow> bytes option" where
  "media_header p = (case av_type p of MEDIA_AUDIO_TYPE \<Rightarrow> mux_audio_header p
     | MEDIA_VIDEO_TYPE \<Rightarrow> mux_video_header p | _ \<Rightarrow> Some [])"

definition tag_of :: "MEDIA_PACKET \<Rightarrow> u8" where
  "tag_of p = (if av_type p = MEDIA_VIDEO_TYPE then FLV_TAG_VIDEO else FLV_TAG_AUDIO)"

definition raw_packet :: "bytes \<Rightarrow> MEDIA_PACKET \<Rightarrow> MEDIA_PACKET" where
  "raw_packet k p = new_MEDIA_PACKET\<lparr>av_type := av_type p, codec_type := codec_type p, fmt_type := MEDIA_FORMAT_RAW,
     dts := dts p, pts := pts p, is_key_frame := is_key_frame p, is_seq_hdr := is_seq_hdr p,
     pkt_buffer := pkt_buffer p, pkt_key := k\<rparr>"

definition tag_bytes :: "MEDIA_PACKET \<Rightarrow> bytes" where
  "tag_bytes p = (let h = the (media_header p); n = int (length h) + int (length (pkt_buffer p)) in
     mux_tag_header (tag_of p) n p @ h @ pkt_buffer p @ pre_tag_size (11 + n))"

lemma media_ok_header:
  assumes "media_ok p"
  obtains h where "media_header p = Some h" "length h + length (pkt_buffer p) < 2 ^ 24"
    "length h = (if av_type p = MEDIA_VIDEO_TYPE then 5 else 2)"
  using assms
  by (auto simp: media_ok_def media_header_def mux_video_header_def mux_audio_header_def Let_def split: option.splits)

lemma mux_ok:
  assumes "flv_ok p"
  shows "\<exists>out. mux_input_packet p m = (0, [out], m\<lparr>mux_header_ready := True\<rparr>) \<and>
     pkt_buffer out = (if mux_header_ready m then [] else mux_flv_header m) @ tag_bytes p"
proof -
  obtain h where h: "media_header p = Some h" "length h = (if av_type p = MEDIA_VIDEO_TYPE then 5 else 2)"
    using assms media_ok_header unfolding flv_ok_def by metis
  have "av_type p = MEDIA_VIDEO_TYPE \<or> av_type p = MEDIA_AUDIO_TYPE" using assms by (auto simp: flv_ok_def media_ok_def)
  then show ?thesis using h
    by (auto simp: mux_input_packet_def tag_bytes_def mux_output_def media_header_def tag_of_def Let_def)
qed

text \<open>A demuxer between two tags.\<close>

definition between_tags :: "flv_demuxer \<Rightarrow> bool" where
  "between_tags d \<longleftrightarrow> flv_header_ready d \<and> \<not> tag_header_ready d"

definition tag_ready :: "u8 \<Rightarrow> int \<Rightarrow> MEDIA_PACKET \<Rightarrow> bytes \<Rightarrow> flv_demuxer \<Rightarrow> flv_demuxer" where
  "tag_ready tag n p rest d = d\<lparr>tag_type := tag, tag_data_size := word_of_int n, tag_timestamp := word_of_int (dts p),
     tag_header_ready := True, dm_buffer := rest\<rparr>"

lemma mux_header_read:
  assumes "0 \<le> dts p" "dts p < 2 ^ 24" "0 \<le> n" "n < 2 ^ 24" "between_tags d"
    and "dm_buffer d = mux_tag_header tag n p @ rest"
  shows "handle_packet cb d s = read_tag cb (tag_ready tag n p rest d) s"
proof -
  have t: "take_bit 24 (dts p) = dts p" using assms(1,2) by (simp add: take_bit_int_eq_self)
  have "byte_of 24 (dts p) = 0" using assms(1,2) by (simp add: byte_of_def drop_bit_eq_div)
  with t assms show ?thesis
    by (simp add: handle_packet_def read_file_header_def read_tag_header_def between_tags_def mux_tag_header_def
      Let_def read_byte_of mem_at_def tag_ready_def del: read_3bytes.simps)
qed

lemma tag_sizes:
  assumes "k + n < 2 ^ 24" "k \<le> 5"
  shows "unat (word_of_int (int k + int n) + 4 :: u32) = k + n + 4"
    and "unat (word_of_int (int k + int n) - of_nat k :: u32) = n"
  using assms
  by (simp_all add: unat_eq_nat_uint uint_word_ariths unsigned_of_int take_bit_int_eq_self unsigned_of_nat take_bit_nat_eq_self mod_pos_pos_trivial)

lemma tag_ready_simps [simp]:
  "dm_buffer (tag_ready tag n p rest d) = rest" "tag_type (tag_ready tag n p rest d) = tag"
  "tag_data_size (tag_ready tag n p rest d) = word_of_int n" "dm_key (tag_ready tag n p rest d) = dm_key d"
  "tag_timestamp (tag_ready tag n p rest d) = word_of_int (dts p)"
  by (simp_all add: tag_ready_def)

lemma tag_ready_finish:
  "unat (word_of_int n + 4 :: u32) = length xs \<Longrightarrow> between_tags d \<Longrightarrow>
     finish_tag (tag_ready tag n p (xs @ rest) d) = d\<lparr>tag_type := tag, tag_data_size := word_of_int n,
       tag_timestamp := word_of_int (dts p), dm_buffer := rest\<rparr>"
  by (simp add: finish_tag_def tag_ready_def between_tags_def)

lemma audio_codec_bits_read: "audio_codec_bits ct = Some c \<Longrightarrow> audio_codec (0x0f OR c) = Some ct"
  by (cases ct) (auto simp: audio_codec_def flv_consts)

lemma video_codec_bits_read:
  assumes "video_codec_bits ct = Some c" "flag = FLV_VIDEO_KEY_FLAG \<or> flag = FLV_VIDEO_INTER_FLAG"
  shows "video_codec (flag OR c) = Some ct" "(flag OR c) AND 0xf0 = flag"
  using assms by (cases ct; auto simp: video_codec_def flv_consts)+

lemma read_audio_muxed:
  assumes "mux_audio_header p = Some h" "\<not> is_key_frame p" "av_type p = MEDIA_AUDIO_TYPE"
  shows "length h = 2 \<and> (\<exists>out'. read_audio_tag (h @ rest) (new_MEDIA_PACKET\<lparr>fmt_type := MEDIA_FORMAT_RAW, pkt_key := k\<rparr>) =
     Inr (Some (out', 2, 0)) \<and> out'\<lparr>dts := dts p, pts := pts p, pkt_buffer := pkt_buffer p\<rparr> = raw_packet k p)"
  using assms audio_codec_bits_read
  by (cases "is_seq_hdr p") (auto simp: mux_audio_header_def read_audio_tag_def mem_at_def
    raw_packet_def new_MEDIA_PACKET_def split: option.splits)

lemma read_video_muxed:
  assumes "mux_video_header p = Some h" "\<not> (is_seq_hdr p \<and> is_key_frame p)" "av_type p = MEDIA_VIDEO_TYPE"
    and "dts p \<le> pts p" "pts p - dts p < 2 ^ 24"
  shows "length h = 5 \<and> (\<exists>out'. read_video_tag (h @ rest) (new_MEDIA_PACKET\<lparr>fmt_type := MEDIA_FORMAT_RAW, pkt_key := k\<rparr>) =
     Inr (Some (out', 5, word_of_int (pts p - dts p))) \<and>
     out'\<lparr>dts := dts p, pts := pts p, pkt_buffer := pkt_buffer p\<rparr> = raw_packet k p)"
proof -
  have td: "ts_delta p = pts p - dts p"
    using assms(4,5) by (auto simp: ts_delta_def take_bit_int_eq_self)
  have rd: "read_3bytes (byte_of 16 (pts p - dts p) # byte_of 8 (pts p - dts p) # byte_of 0 (pts p - dts p) # rest) =
      Inr (word_of_int (pts p - dts p))"
    using read_byte_of assms(4,5) by simp
  let ?flag = "if is_seq_hdr p \<or> is_key_frame p then FLV_VIDEO_KEY_FLAG else FLV_VIDEO_INTER_FLAG"
  let ?t = "if is_seq_hdr p then 0 else (1::u8)"
  from assms(1) obtain c where c: "video_codec_bits (codec_type p) = Some c"
    and h: "h = [?flag OR c, ?t, byte_of 16 (pts p - dts p), byte_of 8 (pts p - dts p), byte_of 0 (pts p - dts p)]"
    by (auto simp: mux_video_header_def Let_def td FLV_VIDEO_AVC_NALU_def FLV_VIDEO_AVC_SEQHDR_def split: option.splits)
  have "FLV_VIDEO_INTER_FLAG \<noteq> FLV_VIDEO_KEY_FLAG" by (simp add: flv_consts)
  then show ?thesis using video_codec_bits_read [OF c, of ?flag] assms(2,3) rd
    by (auto simp: h read_video_tag_def mem_at_def video_frame_def raw_packet_def new_MEDIA_PACKET_def
      simp del: read_3bytes.simps split: if_splits)
qed

definition collect :: "MEDIA_PACKET \<Rightarrow> MEDIA_PACKET list \<Rightarrow> (int \<times> MEDIA_PACKET list) cxx" where
  "collect p s = Inr (0, s @ [p])"

text \<open>Reading the body of a tag whose header was read.\<close>

lemma read_tag_muxed:
  assumes ok: "media_ok p" and h: "media_header p = Some h" and d: "between_tags d" and pre: "length pre = 4"
  shows "\<exists>d'. read_tag collect (tag_ready (tag_of p) (int (length h) + int (length (pkt_buffer p))) p (h @ pkt_buffer p @ pre @ rest) d) s =
       Inr (0, d', s @ [raw_packet (dm_key d) p]) \<and> between_tags d' \<and> dm_buffer d' = rest \<and> dm_key d' = dm_key d"
proof -
  let ?n = "length (pkt_buffer p)" and ?k = "length h"
  let ?d = "tag_ready (tag_of p) (int ?k + int ?n) p ((h @ pkt_buffer p @ pre) @ rest) d"
  define delta :: u32 where "delta = (if av_type p = MEDIA_VIDEO_TYPE then word_of_int (pts p - dts p) else 0)"
  obtain h' where h': "media_header p = Some h'" "length h' + ?n < 2 ^ 24" "length h' = (if av_type p = MEDIA_VIDEO_TYPE then 5 else 2)"
    by (rule media_ok_header [OF ok])
  then have k: "?k + ?n < 2 ^ 24" "?k \<le> 5" using h by simp_all
  note sz = tag_sizes [OF k] k
  have xs: "unat (word_of_int (int ?k + int ?n) + 4 :: u32) = length (h @ pkt_buffer p @ pre)"
    using sz pre by (simp add: add_ac)
  obtain out' where r: "(if tag_of p = FLV_TAG_AUDIO then read_audio_tag (h @ pkt_buffer p @ pre @ rest) else
       read_video_tag (h @ pkt_buffer p @ pre @ rest)) (new_MEDIA_PACKET\<lparr>fmt_type := MEDIA_FORMAT_RAW, pkt_key := dm_key d\<rparr>) =
      Inr (Some (out', ?k, delta))"
    "out'\<lparr>dts := dts p, pts := pts p, pkt_buffer := pkt_buffer p\<rparr> = raw_packet (dm_key d) p"
  proof (cases "av_type p = MEDIA_VIDEO_TYPE")
    case True
    with ok h have "mux_video_header p = Some h" "\<not> (is_seq_hdr p \<and> is_key_frame p)" "dts p \<le> pts p" "pts p - dts p < 2 ^ 24"
      by (auto simp: media_ok_def media_header_def)
    from read_video_muxed [OF this(1,2) True this(3,4), of "pkt_buffer p @ pre @ rest" "dm_key d"] True that show ?thesis
      by (auto simp: tag_of_def delta_def FLV_TAG_AUDIO_def FLV_TAG_VIDEO_def)
  next
    case False
    with ok h have au: "mux_audio_header p = Some h" "\<not> is_key_frame p" "av_type p = MEDIA_AUDIO_TYPE"
      by (auto simp: media_ok_def media_header_def)
    from read_audio_muxed [OF this, of "pkt_buffer p @ pre @ rest" "dm_key d"] au that show ?thesis
      by (auto simp: tag_of_def delta_def)
  qed
  have ts: "uint (word_of_int (dts p) :: u32) = dts p" "uint (word_of_int (dts p) + delta) = pts p"
    using ok by (auto simp: media_ok_def delta_def wi_hom_add unsigned_of_int take_bit_int_eq_self)
  have "read_tag collect ?d s = Inr (0, finish_tag ?d, s @ [raw_packet (dm_key d) p])"
    using r sz xs ts by (auto simp: read_tag_def Let_def collect_def mem_read_def tag_of_def split: if_splits)
  then show ?thesis unfolding tag_ready_finish [OF xs d] using d by (auto simp: between_tags_def)
qed

text \<open>The bytes \<open>t\<close> are a tag from which the demuxer gets the packet \<open>p\<close>.\<close>

definition carries :: "bytes \<Rightarrow> MEDIA_PACKET \<Rightarrow> bool" where
  "carries t p \<longleftrightarrow> (\<forall>d rest s. between_tags d \<longrightarrow> dm_buffer d = t @ rest \<longrightarrow>
     (\<exists>d'. handle_packet collect d s = Inr (0, d', s @ [raw_packet (dm_key d) p]) \<and>
       between_tags d' \<and> dm_buffer d' = rest \<and> dm_key d' = dm_key d))"

lemma carriesI:
  assumes "\<And>d rest s. between_tags d \<Longrightarrow> dm_buffer d = t @ rest \<Longrightarrow>
     \<exists>d'. handle_packet collect d s = Inr (0, d', s @ [raw_packet (dm_key d) p]) \<and>
       between_tags d' \<and> dm_buffer d' = rest \<and> dm_key d' = dm_key d"
  shows "carries t p"
  using assms by (auto simp: carries_def)

lemma handle_muxed:
  assumes "flv_ok p" shows "carries (tag_bytes p) p"
proof (rule carriesI)
  fix d rest s
  assume d: "between_tags d" "dm_buffer d = tag_bytes p @ rest"
  have ok: "media_ok p" "0 \<le> dts p" "dts p < 2 ^ 24" using assms(1) by (auto simp: flv_ok_def media_ok_def)
  obtain h where h: "media_header p = Some h" "length h + length (pkt_buffer p) < 2 ^ 24"
    using media_ok_header [OF ok(1)] by metis
  let ?n = "int (length h) + int (length (pkt_buffer p))"
  have n: "0 \<le> ?n" "?n < 2 ^ 24" using h(2) by auto
  have "dm_buffer d = mux_tag_header (tag_of p) ?n p @ (h @ pkt_buffer p @ pre_tag_size (11 + ?n) @ rest)"
    using d(2) h by (simp add: tag_bytes_def Let_def)
  note hr = mux_header_read [OF ok(2,3) n d(1) this, of collect s]
  have "length (pre_tag_size (11 + ?n)) = 4" by (simp add: pre_tag_size_def)
  from read_tag_muxed [OF ok(1) h(1) d(1) this, of rest s]
  show "\<exists>d'. handle_packet collect d s = Inr (0, d', s @ [raw_packet (dm_key d) p]) \<and>
     between_tags d' \<and> dm_buffer d' = rest \<and> dm_key d' = dm_key d" unfolding hr .
qed

lemma loop_needs_more:
  "between_tags d \<Longrightarrow> dm_buffer d = [] \<Longrightarrow> handle_loop cb d s = Inr (FLV_RET_NEED_MORE, d, s)"
  by (subst handle_loop.simps) (simp add: handle_packet_def read_file_header_def read_tag_header_def between_tags_def
    FLV_RET_NEED_MORE_def)

lemma loop_muxed:
  assumes "list_all2 carries ts ps" "between_tags d" "dm_buffer d = concat ts"
  shows "\<exists>d'. handle_loop collect d s = Inr (FLV_RET_NEED_MORE, d', s @ map (raw_packet (dm_key d)) ps) \<and> dm_buffer d' = []"
  using assms
proof (induction ts ps arbitrary: d s rule: list_all2_induct)
  case Nil
  then show ?case by (simp add: loop_needs_more)
next
  case (Cons t ts p ps)
  have "\<exists>d1. handle_packet collect d s = Inr (0, d1, s @ [raw_packet (dm_key d) p]) \<and> between_tags d1 \<and>
     dm_buffer d1 = concat ts \<and> dm_key d1 = dm_key d"
    using Cons.hyps(1) Cons.prems unfolding carries_def by auto
  then obtain d1 where h: "handle_packet collect d s = Inr (0, d1, s @ [raw_packet (dm_key d) p])" "between_tags d1"
    "dm_buffer d1 = concat ts" "dm_key d1 = dm_key d" by (elim exE conjE)
  with Cons.IH [OF h(2,3), of "s @ [raw_packet (dm_key d) p]"] show ?case
    by (subst handle_loop.simps) simp
qed

lemma handle_after_header:
  assumes "\<not> flv_header_ready d" "\<not> tag_header_ready d" "dm_buffer d = mux_flv_header m @ rest"
  shows "\<exists>d'. between_tags d' \<and> dm_buffer d' = rest \<and> dm_key d' = dm_key d \<and> handle_packet cb d s = handle_packet cb d' s"
proof -
  have g: "\<not> bad_signature (dm_buffer d)" "\<not> bad_offset (dm_buffer d)"
    using assms(3) by (simp_all add: bad_signature_def bad_offset_def mux_flv_header_def Let_def)
  have l: "length (mux_flv_header m) = 13" by (simp add: mux_flv_header_def Let_def)
  let ?d = "d\<lparr>dm_has_video := type_flag (dm_buffer d) 0x01 \<or> dm_has_video d,
     dm_has_audio := type_flag (dm_buffer d) 0x04 \<or> dm_has_audio d, dm_buffer := rest, flv_header_ready := True\<rparr>"
  have "read_file_header d = Inr ?d" using assms g l by (simp add: read_file_header_def Let_def)
  moreover have "read_file_header ?d = Inr ?d" by (simp add: read_file_header_def)
  ultimately have "handle_packet cb d s = handle_packet cb ?d s" by (simp only: handle_packet_def)
  with assms show ?thesis by (intro exI [of _ ?d]) (simp add: between_tags_def)
qed

lemma loop_stream:
  assumes "list_all2 carries ts ps" "\<not> flv_header_ready d" "\<not> tag_header_ready d"
    and "dm_buffer d = mux_flv_header m @ concat ts"
  shows "\<exists>d'. handle_loop collect d s = Inr (FLV_RET_NEED_MORE, d', s @ map (raw_packet (dm_key d)) ps) \<and> dm_buffer d' = []"
proof -
  obtain d1 where d1: "between_tags d1" "dm_buffer d1 = concat ts" "dm_key d1 = dm_key d"
    "handle_packet collect d s = handle_packet collect d1 s"
    using handle_after_header [OF assms(2-4), of collect s] by (elim exE conjE)
  then have "handle_loop collect d s = handle_loop collect d1 s"
    by (simp only: handle_loop.simps [of collect d s] handle_loop.simps [of collect d1 s])
  then show ?thesis using loop_muxed [OF assms(1) d1(1,2), of s] d1(3) by simp
qed

text \<open>A stream of tags that carry \<open>ps\<close>, received in pieces.\<close>

lemma stream_round_trip:
  assumes "list_all2 carries ts ps" "concat xss = mux_flv_header m @ concat ts" "length (concat xss) < 2 ^ 32 - 5"
  shows "\<exists>d'. input_pieces collect k xss new_flv_demuxer [] = Inr (FLV_RET_NEED_MORE, d', map (raw_packet k) ps) \<and>
     dm_buffer d' = []"
proof -
  let ?d = "set_key k new_flv_demuxer"
  have ne: "xss \<noteq> []" using assms(2) by (auto simp: mux_flv_header_def Let_def)
  have d: "\<not> flv_header_ready ?d" "\<not> tag_header_ready ?d" "dm_buffer ?d = []" "dm_key ?d = k" "dm_inv ?d"
    by (auto simp: set_key_def new_flv_demuxer_def dm_inv_def)
  obtain d' where "handle_loop collect (feed_data (concat xss) ?d) [] = Inr (FLV_RET_NEED_MORE, d', map (raw_packet k) ps)"
    "dm_buffer d' = []"
    using loop_stream [OF assms(1), of "feed_data (concat xss) ?d" m "[]"] d assms(2) by auto
  moreover have "cb_ok collect" by (simp add: cb_ok_def collect_def FLV_RET_NEED_MORE_def)
  ultimately show ?thesis
    using demux_pieces_concat [of collect ?d xss "[]" d'] d(3,5) assms(3) ne by (simp add: input_pieces_demux)
qed

text \<open>Muxing a list of packets.\<close>

fun mux_all :: "MEDIA_PACKET list \<Rightarrow> flv_muxer \<Rightarrow> MEDIA_PACKET list" where
  "mux_all [] m = []"
| "mux_all (p # ps) m = (case mux_input_packet p m of (r, out, m') \<Rightarrow> out @ mux_all ps m')"

lemma mux_all_ready:
  assumes "\<forall>p \<in> set ps. flv_ok p" "mux_header_ready m"
  shows "concat (map pkt_buffer (mux_all ps m)) = concat (map tag_bytes ps)"
  using assms
proof (induction ps arbitrary: m)
  case (Cons p ps)
  obtain out where "mux_input_packet p m = (0, [out], m\<lparr>mux_header_ready := True\<rparr>)" "pkt_buffer out = tag_bytes p"
    using mux_ok [of p m] Cons.prems by auto
  with Cons.IH [of "m\<lparr>mux_header_ready := True\<rparr>"] Cons.prems show ?case by simp
qed simp

lemma mux_all_bytes:
  assumes "\<forall>p \<in> set ps. flv_ok p" "\<not> mux_header_ready m" "ps \<noteq> []"
  shows "concat (map pkt_buffer (mux_all ps m)) = mux_flv_header m @ concat (map tag_bytes ps)"
proof -
  obtain p qs where ps: "ps = p # qs" using assms(3) by (cases ps) auto
  obtain out where "mux_input_packet p m = (0, [out], m\<lparr>mux_header_ready := True\<rparr>)"
    "pkt_buffer out = mux_flv_header m @ tag_bytes p"
    using mux_ok [of p m] assms(1,2) ps by auto
  with mux_all_ready [of qs "m\<lparr>mux_header_ready := True\<rparr>"] assms(1) ps show ?thesis by simp
qed

subsection \<open>Properties\<close>

text \<open>
  C3. FLV round trip under any fragmentation: packets within the format's limits, muxed by
  \<open>flv_muxer::input_packet\<close> and delivered to \<open>flv_demuxer::input_packet\<close> cut into pieces at
  arbitrary places, come out of the demuxer complete, in order and unchanged (type, codec,
  dts, pts, key-frame and header flags, payload) under the stream's key; the demuxer ends
  waiting for more with an empty buffer.
\<close>

theorem flv_round_trip:
  assumes "\<forall>p \<in> set ps. flv_ok p" "ps \<noteq> []" "\<not> mux_header_ready m"
    and "concat xss = concat (map pkt_buffer (mux_all ps m))" "length (concat xss) < 2 ^ 32 - 5"
  shows "\<exists>d'. input_pieces collect k xss new_flv_demuxer [] = Inr (FLV_RET_NEED_MORE, d', map (raw_packet k) ps) \<and>
     dm_buffer d' = []"
  using stream_round_trip [of "map tag_bytes ps" ps xss m k] mux_all_bytes [OF assms(1,3,2)] assms handle_muxed
  by (simp add: list_all2_map1 list_all2_same)

theorem flv_round_trip_witness:
  "\<exists>d'. input_pieces collect (lit ''live/a'')
       (map (\<lambda>b. [b]) (concat (map pkt_buffer (mux_all
          [new_MEDIA_PACKET\<lparr>av_type := MEDIA_AUDIO_TYPE, codec_type := MEDIA_CODEC_AAC, pkt_buffer := [1, 2, 3]\<rparr>]
          \<lparr>mux_has_video = False, mux_has_audio = True, mux_header_ready = False\<rparr>)))) new_flv_demuxer [] =
     Inr (FLV_RET_NEED_MORE, d',
       [raw_packet (lit ''live/a'') (new_MEDIA_PACKET\<lparr>av_type := MEDIA_AUDIO_TYPE, codec_type := MEDIA_CODEC_AAC, pkt_buffer := [1, 2, 3]\<rparr>)]) \<and>
     dm_buffer d' = []"
  using flv_round_trip [of
    "[new_MEDIA_PACKET\<lparr>av_type := MEDIA_AUDIO_TYPE, codec_type := MEDIA_CODEC_AAC, pkt_buffer := [1, 2, 3]\<rparr>]"
    "\<lparr>mux_has_video = False, mux_has_audio = True, mux_header_ready = False\<rparr>"
    "map (\<lambda>b. [b]) (concat (map pkt_buffer (mux_all
          [new_MEDIA_PACKET\<lparr>av_type := MEDIA_AUDIO_TYPE, codec_type := MEDIA_CODEC_AAC, pkt_buffer := [1, 2, 3]\<rparr>]
          \<lparr>mux_has_video = False, mux_has_audio = True, mux_header_ready = False\<rparr>)))" "lit ''live/a''"]
  by (simp add: flv_ok_def media_ok_def new_MEDIA_PACKET_def mux_input_packet_def mux_audio_header_def mux_flv_header_def
    mux_tag_header_def pre_tag_size_def mux_output_def Let_def)

text \<open>
  A complete audio or video tag that is shorter than its media header makes the demuxer
  read out of bounds: \<open>tag_data_size_ - header_len\<close> is unsigned and wraps, and that many bytes
  are appended to the packet. Only the codec bits of the first payload byte have to be valid.
\<close>

theorem flv_short_tag_out_of_bounds:
  assumes "flv_header_ready d" "tag_header_ready d"
    and "tag_type d = FLV_TAG_AUDIO \<and> unat (tag_data_size d) < 2 \<and> audio_codec (dm_buffer d ! 0) \<noteq> None \<or>
         tag_type d = FLV_TAG_VIDEO \<and> unat (tag_data_size d) < 5 \<and> video_codec (dm_buffer d ! 0) \<noteq> None \<and>
           dm_buffer d ! 1 = 1"
    and "unat (tag_data_size d) + 4 \<le> length (dm_buffer d)" "length (dm_buffer d) < 2 ^ 32 - 5"
  shows "handle_packet cb d s = Inl OutOfBounds"
proof -
  let ?p = "dm_buffer d" and ?sz = "tag_data_size d"
  have u: "unat (?sz + 4) = unat ?sz + 4" using assms(3) by (auto simp: unat_word_ariths)
  have big: "unat (?sz - of_nat k) + k \<noteq> unat ?sz" if "unat ?sz < k" for k using that by linarith
  have oob: "mem_read ?p k (unat (?sz - of_nat k)) = Inl OutOfBounds" if "unat ?sz < k" "k \<le> 5" for k
    using tag_size_wrap [OF that(2), of ?sz] big [OF that(1)] assms(5) by (auto simp: mem_read_def)
  have hp: "handle_packet cb d s = read_tag cb d s"
    using assms(1,2) by (simp add: handle_packet_def read_file_header_def read_tag_header_def)
  have len: "4 \<le> length ?p" using assms(4) by simp
  then have at: "mem_at ?p 0 = Inr (?p ! 0)" "mem_at ?p 1 = Inr (?p ! 1)" by (auto simp: mem_at_def)
  from assms(3) show ?thesis
  proof
    assume a: "tag_type d = FLV_TAG_AUDIO \<and> unat ?sz < 2 \<and> audio_codec (?p ! 0) \<noteq> None"
    then obtain out' where "read_audio_tag ?p (new_MEDIA_PACKET\<lparr>fmt_type := MEDIA_FORMAT_RAW, pkt_key := dm_key d\<rparr>) =
        Inr (Some (out', 2, 0))" using at by (auto simp: read_audio_tag_def)
    then show ?thesis using hp u assms(4) a oob [of 2] by (simp add: read_tag_def Let_def)
  next
    assume a: "tag_type d = FLV_TAG_VIDEO \<and> unat ?sz < 5 \<and> video_codec (?p ! 0) \<noteq> None \<and> ?p ! 1 = 1"
    have "read_video_tag ?p out = Inl OutOfBounds \<or> (\<exists>out' k. read_video_tag ?p out = Inr (Some (out', 5, k)))" for out
      using a at f3.dec_stop_iff [of "drop 2 ?p"] by (cases "read_3bytes (drop 2 ?p)")
        (auto simp: read_video_tag_def video_frame_def split: option.split)
    from this [of "new_MEDIA_PACKET\<lparr>fmt_type := MEDIA_FORMAT_RAW, pkt_key := dm_key d\<rparr>"] show ?thesis
      using hp u assms(4) a oob [of 5] by (elim disjE exE) (simp_all add: read_tag_def Let_def flv_consts)
  qed
qed

theorem flv_short_tag_out_of_bounds_witness:
  "handle_packet collect (new_flv_demuxer\<lparr>flv_header_ready := True, tag_header_ready := True, tag_type := 8,
     tag_data_size := 1, dm_buffer := [0xaf, 0, 0, 0, 12]\<rparr>) [] = Inl OutOfBounds"
  by (rule flv_short_tag_out_of_bounds) (simp_all add: flv_consts audio_codec_def)

text \<open>
  The FLV file header is lost when the first packet cannot be muxed: a first packet that is
  not audio or video (such as metadata) sets \<open>header_ready_\<close> but its output is dropped, and
  the bytes of the stream are then the tags alone.
\<close>

theorem flv_file_header_lost:
  assumes "av_type p = MEDIA_METADATA_TYPE" "\<forall>q \<in> set ps. flv_ok q"
  shows "concat (map pkt_buffer (mux_all (p # ps) m)) = concat (map tag_bytes ps)"
  using assms mux_all_ready [OF assms(2)] by (auto simp: mux_input_packet_def Let_def)

theorem flv_file_header_lost_witness:
  "concat (map pkt_buffer (mux_all [new_MEDIA_PACKET\<lparr>av_type := MEDIA_METADATA_TYPE\<rparr>,
       new_MEDIA_PACKET\<lparr>av_type := MEDIA_AUDIO_TYPE, codec_type := MEDIA_CODEC_AAC\<rparr>]
     \<lparr>mux_has_video = False, mux_has_audio = True, mux_header_ready = False\<rparr>)) =
   tag_bytes (new_MEDIA_PACKET\<lparr>av_type := MEDIA_AUDIO_TYPE, codec_type := MEDIA_CODEC_AAC\<rparr>)"
  using flv_file_header_lost [of "new_MEDIA_PACKET\<lparr>av_type := MEDIA_METADATA_TYPE\<rparr>"
    "[new_MEDIA_PACKET\<lparr>av_type := MEDIA_AUDIO_TYPE, codec_type := MEDIA_CODEC_AAC\<rparr>]"
    "\<lparr>mux_has_video = False, mux_has_audio = True, mux_header_ready = False\<rparr>"]
  by (simp add: flv_ok_def media_ok_def new_MEDIA_PACKET_def del: mux_all.simps)

text \<open>
  The muxer keeps only the low 24 bits of a timestamp: \<open>timestamp_ext\<close> is computed from
  \<open>dts_ & 0xffffff\<close> and is always 0, so packets whose timestamps differ by a multiple of
  \<open>2 ^ 24\<close> ms (4 h 40 min) are muxed into the same bytes.
\<close>

theorem flv_mux_timestamp_wraps:
  "map pkt_buffer (fst (snd (mux_input_packet (p\<lparr>dts := dts p + 2 ^ 24 * k, pts := pts p + 2 ^ 24 * k\<rparr>) m))) =
   map pkt_buffer (fst (snd (mux_input_packet p m)))"
proof -
  have "take_bit 24 (dts p + 2 ^ 24 * k) = take_bit 24 (dts p)" by (simp add: take_bit_eq_mod)
  then show ?thesis
    by (cases "av_type p") (simp_all add: mux_input_packet_def mux_tag_header_def mux_video_header_def mux_audio_header_def
      ts_delta_def mux_output_def Let_def split: option.split)
qed

lemma new_start: "db_start (new_data_buffer fresh n) = 200"
  by (simp add: new_data_buffer_def PRE_RESERVE_HEADER_SIZE_def)

lemma imem_write_prefix:
  assumes "0 \<le> i" "i + int (length xs) \<le> int (length m)"
  shows "imem_write m i xs = Inr (take (nat i) m @ xs @ drop (nat i + length xs) m)"
  using assms by (simp add: imem_write_def mem_write_def)

lemma write_at_content:
  assumes "db_inv b" "db_start b = i" "k + length xs \<le> length (content b)"
  shows "\<exists>b'. write_at b (Some i) k xs = Inr b' \<and> db_inv b' \<and> db_start b' = i \<and>
     content b' = take k (content b) @ xs @ drop (k + length xs) (content b)"
proof -
  let ?i = "nat i + k"
  have i: "0 \<le> i" "nat (i + int k) = ?i" using assms(1,2) by (auto simp: db_inv_def)
  have n: "k + length xs \<le> nat (db_data_len b)" "nat i + nat (db_data_len b) \<le> length (db_buffer b)"
    using assms length_content [OF assms(1)] by (auto simp: db_inv_def)
  let ?m = "take ?i (db_buffer b) @ xs @ drop (?i + length xs) (db_buffer b)"
  have "write_at b (Some i) k xs = Inr (b\<lparr>db_buffer := ?m\<rparr>)"
    using i n by (simp add: write_at_def imem_write_prefix)
  moreover have "db_inv (b\<lparr>db_buffer := ?m\<rparr>)" using assms(1) n by (auto simp: db_inv_def)
  moreover have "content (b\<lparr>db_buffer := ?m\<rparr>) = take k (content b) @ xs @ drop (k + length xs) (content b)"
    using n assms(2) by (simp add: content_def drop_take min_absorb1 min_absorb2 add_ac)
  ultimately show ?thesis using assms(2) by simp
qed

lemma reserve:
  assumes "db_inv b" "int k \<le> db_start b"
  obtains b1 pre where "consume_data (- int k) b = (Some (db_start b - int k), b1)" "db_inv b1"
    "db_start b1 = db_start b - int k" "length pre = k" "content b1 = pre @ content b"
proof -
  let ?b1 = "snd (consume_data (- int k) b)"
  note r = prepend_refines [OF assms]
  have "consume_data (- int k) b = (Some (db_start b - int k), ?b1)" using r(2) by (metis prod.collapse)
  moreover have "db_start ?b1 = db_start b - int k" using assms by (auto simp: consume_data_def db_inv_def)
  moreover have "length (take k (drop (nat (db_start b) - k) (db_buffer b))) = k" using assms by (auto simp: db_inv_def)
  ultimately show ?thesis using r(1,3) that by blast
qed

text \<open>
  \<open>add_flv_media_header\<close> puts the FLV media header in front of the payload, in place: on a
  well-formed buffer with five reserved bytes it returns 0, writes only inside the block and
  the packet becomes the same header the muxer writes followed by the old bytes.
\<close>

theorem add_flv_media_header_prepends:
  assumes "db_inv b" "5 \<le> db_start b" "av_type p = MEDIA_AUDIO_TYPE \<or> av_type p = MEDIA_VIDEO_TYPE"
    and "media_header p = Some h"
  shows "\<exists>b'. add_flv_media_header p b = Inr (0, b') \<and> db_inv b' \<and> content b' = h @ content b"
  using assms(3)
proof
  assume au: "av_type p = MEDIA_AUDIO_TYPE"
  then obtain c where c: "audio_codec_bits (codec_type p) = Some c" and h: "h = [c OR 0x0f, if is_seq_hdr p then 0 else 1]"
    using assms(4) by (auto simp: media_header_def mux_audio_header_def or.commute split: option.splits)
  let ?i = "db_start b - 2"
  obtain b1 pre where cd: "consume_data (- 2) b = (Some ?i, b1)" "db_inv b1" "db_start b1 = ?i"
    and pre: "length pre = 2" "content b1 = pre @ content b"
    using reserve [of b 2] assms(1,2) by (auto simp: numeral_eq_Suc)
  obtain b2 where b2: "write_at b1 (Some ?i) 0 [c OR 0x0f] = Inr b2" "db_inv b2" "db_start b2 = ?i"
    "content b2 = (c OR 0x0f) # drop 1 (content b1)"
    using write_at_content [OF cd(2,3), of 0 "[c OR 0x0f]"] pre by auto
  obtain b3 where "write_at b2 (Some ?i) 1 [if is_seq_hdr p then 0 else 1] = Inr b3" "db_inv b3"
    "content b3 = take 1 (content b2) @ [if is_seq_hdr p then 0 else 1] @ drop 2 (content b2)"
    using write_at_content [OF b2(2,3), of 1 "[if is_seq_hdr p then 0 else 1]"] pre b2(4) by auto
  then show ?thesis using au c cd(1) b2 h pre by (auto simp: add_flv_media_header_def)
next
  assume vi: "av_type p = MEDIA_VIDEO_TYPE"
  let ?d = "[byte_of 16 (ts_delta p), byte_of 8 (ts_delta p), byte_of 0 (ts_delta p)]"
  define f where "f = (if is_key_frame p \<or> is_seq_hdr p then FLV_VIDEO_KEY_FLAG else FLV_VIDEO_INTER_FLAG)"
  define t where "t = (if is_seq_hdr p then 0 else (1::u8))"
  obtain c where c: "video_codec_bits (codec_type p) = Some c" and h: "h = [c OR f, t] @ ?d"
    using assms(4) vi by (auto simp: media_header_def mux_video_header_def or.commute f_def t_def Let_def
      FLV_VIDEO_AVC_NALU_def FLV_VIDEO_AVC_SEQHDR_def split: option.splits)
  let ?i = "db_start b - 5"
  obtain b1 pre where cd: "consume_data (- 5) b = (Some ?i, b1)" "db_inv b1" "db_start b1 = ?i"
    and pre: "length pre = 5" "content b1 = pre @ content b"
    using reserve [of b 5] assms(1,2) by (auto simp: numeral_eq_Suc)
  obtain b2 where b2: "write_at b1 (Some ?i) 0 [0] = Inr b2" "db_inv b2" "db_start b2 = ?i" "content b2 = 0 # drop 1 (content b1)"
    using write_at_content [OF cd(2,3), of 0 "[0]"] pre by auto
  obtain b3 where b3: "write_at b2 (Some ?i) 0 [c OR f, t] = Inr b3" "db_inv b3" "db_start b3 = ?i"
    "content b3 = [c OR f, t] @ drop 2 (content b2)"
    using write_at_content [OF b2(2,3), of 0 "[c OR f, t]"] pre b2(4) by auto
  obtain b4 where b4: "write_at b3 (Some ?i) 2 ?d = Inr b4" "db_inv b4" "content b4 = take 2 (content b3) @ ?d @ drop 5 (content b3)"
    using write_at_content [OF b3(2,3), of 2 ?d] pre b2(4) b3(4) by auto
  have "add_flv_media_header p b = Inr (0, b4)"
    using vi c cd(1) b2(1) b3(1) b4(1) by (auto simp: add_flv_media_header_def f_def t_def Let_def split: if_splits)
  then show ?thesis using b4 b3(4) b2(4) h pre by auto
qed

theorem add_flv_media_header_prepends_witness:
  "\<exists>b'. add_flv_media_header (new_MEDIA_PACKET\<lparr>av_type := MEDIA_AUDIO_TYPE, codec_type := MEDIA_CODEC_OPUS\<rparr>)
       (new_data_buffer (\<lambda>_. 7) 10240) = Inr (0, b') \<and> db_inv b' \<and> content b' = [0x9f, 1]"
  using add_flv_media_header_prepends [of "new_data_buffer (\<lambda>_. 7) 10240"
      "new_MEDIA_PACKET\<lparr>av_type := MEDIA_AUDIO_TYPE, codec_type := MEDIA_CODEC_OPUS\<rparr>" "[0x9f, 1]"]
    new_refines [of 10240 "\<lambda>_. 7"] new_start [of "\<lambda>_. 7" 10240]
  by (simp add: media_header_def mux_audio_header_def flv_consts new_MEDIA_PACKET_def)

end
