(* ===== verification/Gop_Cache.thy ===== *)
theory Gop_Cache
  imports Media_Packet
begin

text \<open>
  The cache of the current group of pictures, \<open>src/utils/av/gop_cache.cpp\<close>: what a player
  that joins late is sent first. \<open>insert_packet\<close> is specified by \<open>since_last_key\<close> (the media
  packets since the last video key frame) and \<open>writer_gop\<close> by \<open>gop_sequence\<close> (the sequence of
  packets a new player gets).
\<close>

record gop_cache =
  packet_list :: "MEDIA_PACKET list"
  video_hdr :: "MEDIA_PACKET option"
  audio_hdr :: "MEDIA_PACKET option"
  metadata_hdr :: "MEDIA_PACKET option"
  min_gop :: u32
  gop_count :: u32

definition new_gop_cache :: "u32 \<Rightarrow> gop_cache" where
  "new_gop_cache mg = \<lparr>packet_list = [], video_hdr = None, audio_hdr = None, metadata_hdr = None,
     min_gop = mg, gop_count = 0\<rparr>"

definition push_packet :: "MEDIA_PACKET \<Rightarrow> gop_cache \<Rightarrow> (int \<times> gop_cache) cxx" where
  "push_packet pkt c =
     (let c' = c\<lparr>packet_list := packet_list c @ [pkt]\<rparr> in Inr (int (length (packet_list c')), c'))"

definition insert_packet :: "MEDIA_PACKET \<Rightarrow> gop_cache \<Rightarrow> (int \<times> gop_cache) cxx" where
  "insert_packet pkt c =
     (case av_type pkt of
        MEDIA_VIDEO_TYPE \<Rightarrow>
          if is_seq_hdr pkt then Inr (int (length (packet_list c)), c\<lparr>video_hdr := Some pkt\<rparr>)
          else if is_key_frame pkt then
            (let c1 = c\<lparr>gop_count := gop_count c + 1\<rparr> in
             if min_gop c1 = 0 then Inl DivByZero
             else if gop_count c1 mod min_gop c1 = 0 then push_packet pkt (c1\<lparr>packet_list := []\<rparr>)
             else push_packet pkt c1)
          else push_packet pkt c
      | MEDIA_AUDIO_TYPE \<Rightarrow>
          if is_seq_hdr pkt then Inr (int (length (packet_list c)), c\<lparr>audio_hdr := Some pkt\<rparr>)
          else push_packet pkt c
      | MEDIA_METADATA_TYPE \<Rightarrow> Inr (int (length (packet_list c)), c\<lparr>metadata_hdr := Some pkt\<rparr>)
      | MEDIA_UNKOWN_TYPE \<Rightarrow> Inr (-1, c))"

text \<open>One of the three guarded header writes of \<open>writer_gop\<close>.\<close>

definition write_hdr :: "'w av_writer_base \<Rightarrow> MEDIA_PACKET option \<Rightarrow> int \<Rightarrow> 'w \<Rightarrow> (int \<times> 'w) cxx" where
  "write_hdr ops hdr ret w =
     (case hdr of None \<Rightarrow> Inr (ret, w)
      | Some p \<Rightarrow> if 0 < length (pkt_buffer p) then write_packet ops p w else Inr (ret, w))"

fun write_list :: "'w av_writer_base \<Rightarrow> MEDIA_PACKET list \<Rightarrow> int \<Rightarrow> 'w \<Rightarrow> (int \<times> 'w) cxx" where
  "write_list ops [] ret w = Inr (ret, w)"
| "write_list ops (p # ps) ret w =
     cxx_bind (write_packet ops p w) (\<lambda>(r, w'). if r < 0 then Inr (r, w') else write_list ops ps r w')"

definition writer_gop :: "'w av_writer_base \<Rightarrow> gop_cache \<Rightarrow> 'w \<Rightarrow> (int \<times> 'w) cxx" where
  "writer_gop ops c w =
     cxx_bind (write_hdr ops (metadata_hdr c) 0 w) (\<lambda>(r1, w1). if r1 < 0 then Inr (r1, w1) else
     cxx_bind (write_hdr ops (video_hdr c) r1 w1) (\<lambda>(r2, w2). if r2 < 0 then Inr (r2, w2) else
     cxx_bind (write_hdr ops (audio_hdr c) r2 w2) (\<lambda>(r3, w3). if r3 < 0 then Inr (r3, w3) else
     write_list ops (packet_list c) r3 w3)))"

subsection \<open>Specifications\<close>

text \<open>What a player that joins now is sent.\<close>

definition hdr_packet :: "MEDIA_PACKET option \<Rightarrow> MEDIA_PACKET list" where
  "hdr_packet h = (case h of None \<Rightarrow> [] | Some p \<Rightarrow> if pkt_buffer p = [] then [] else [p])"

definition gop_sequence :: "gop_cache \<Rightarrow> MEDIA_PACKET list" where
  "gop_sequence c = hdr_packet (metadata_hdr c) @ hdr_packet (video_hdr c) @ hdr_packet (audio_hdr c) @ packet_list c"

definition is_media :: "MEDIA_PACKET \<Rightarrow> bool" where
  "is_media p \<longleftrightarrow> av_type p \<in> {MEDIA_VIDEO_TYPE, MEDIA_AUDIO_TYPE} \<and> \<not> is_seq_hdr p"

definition is_video_key :: "MEDIA_PACKET \<Rightarrow> bool" where
  "is_video_key p \<longleftrightarrow> av_type p = MEDIA_VIDEO_TYPE \<and> is_key_frame p \<and> \<not> is_seq_hdr p"

text \<open>The suffix that starts at the last key frame; the whole list when there is none.\<close>

fun since_last_key :: "MEDIA_PACKET list \<Rightarrow> MEDIA_PACKET list" where
  "since_last_key [] = []"
| "since_last_key (p # ps) = (if \<exists>q \<in> set ps. is_video_key q then since_last_key ps else p # ps)"

text \<open>The last packet of a kind, as the header fields keep it.\<close>

definition last_such :: "(MEDIA_PACKET \<Rightarrow> bool) \<Rightarrow> MEDIA_PACKET list \<Rightarrow> MEDIA_PACKET option" where
  "last_such P ps = (if filter P ps = [] then None else Some (last (filter P ps)))"

fun insert_packets :: "MEDIA_PACKET list \<Rightarrow> gop_cache \<Rightarrow> gop_cache cxx" where
  "insert_packets [] c = Inr c"
| "insert_packets (p # ps) c = cxx_bind (insert_packet p c) (\<lambda>(r, c'). insert_packets ps c')"

lemmas insert_defs = insert_packet_def push_packet_def Let_def

lemma since_last_key_snoc:
  "since_last_key (ps @ [p]) = (if is_video_key p then [p] else since_last_key ps @ [p])"
  by (induction ps) auto

lemma since_last_key_suffix: "\<exists>pre. ps = pre @ since_last_key ps"
  by (induction ps) (auto intro: exI [of _ "_ # _"])

lemma since_last_key_hd:
  "\<exists>q \<in> set ps. is_video_key q \<Longrightarrow> since_last_key ps \<noteq> [] \<and> is_video_key (hd (since_last_key ps)) \<and>
     (\<forall>q \<in> set (tl (since_last_key ps)). \<not> is_video_key q)"
  by (induction ps) auto

lemma last_such_snoc: "last_such P (ps @ [p]) = (if P p then Some p else last_such P ps)"
  by (simp add: last_such_def)

lemma insert_packets_append:
  "insert_packets (ps @ qs) c = cxx_bind (insert_packets ps c) (insert_packets qs)"
  by (induction ps arbitrary: c) (auto simp: cxx_bind_assoc intro!: cxx_bind_cong)

lemma insert_min_gop: "insert_packet p c = Inr (r, c') \<Longrightarrow> min_gop c' = min_gop c"
  by (auto simp: insert_defs split: MEDIA_PKT_TYPE.splits if_splits)

text \<open>One insertion into the cache of a default-constructed stream (\<open>min_gop\<close> 1).\<close>

lemma insert_step:
  assumes "min_gop c = 1"
  shows "\<exists>r c'. insert_packet p c = Inr (r, c') \<and> min_gop c' = 1 \<and>
     packet_list c' = (if is_video_key p then [p] else if is_media p then packet_list c @ [p] else packet_list c) \<and>
     video_hdr c' = (if av_type p = MEDIA_VIDEO_TYPE \<and> is_seq_hdr p then Some p else video_hdr c) \<and>
     audio_hdr c' = (if av_type p = MEDIA_AUDIO_TYPE \<and> is_seq_hdr p then Some p else audio_hdr c) \<and>
     metadata_hdr c' = (if av_type p = MEDIA_METADATA_TYPE then Some p else metadata_hdr c) \<and>
     (r < 0 \<longleftrightarrow> av_type p = MEDIA_UNKOWN_TYPE)"
  using assms by (cases "av_type p") (auto simp: insert_defs is_media_def is_video_key_def)

lemma insert_packets_spec:
  "\<exists>c. insert_packets ps (new_gop_cache 1) = Inr c \<and> min_gop c = 1 \<and>
     packet_list c = since_last_key (filter is_media ps) \<and>
     video_hdr c = last_such (\<lambda>p. av_type p = MEDIA_VIDEO_TYPE \<and> is_seq_hdr p) ps \<and>
     audio_hdr c = last_such (\<lambda>p. av_type p = MEDIA_AUDIO_TYPE \<and> is_seq_hdr p) ps \<and>
     metadata_hdr c = last_such (\<lambda>p. av_type p = MEDIA_METADATA_TYPE) ps"
proof (induction ps rule: rev_induct)
  case Nil
  show ?case by (simp add: new_gop_cache_def last_such_def)
next
  case (snoc p ps)
  then obtain c where c: "insert_packets ps (new_gop_cache 1) = Inr c" "min_gop c = 1"
    and k: "packet_list c = since_last_key (filter is_media ps)"
     "video_hdr c = last_such (\<lambda>p. av_type p = MEDIA_VIDEO_TYPE \<and> is_seq_hdr p) ps"
     "audio_hdr c = last_such (\<lambda>p. av_type p = MEDIA_AUDIO_TYPE \<and> is_seq_hdr p) ps"
     "metadata_hdr c = last_such (\<lambda>p. av_type p = MEDIA_METADATA_TYPE) ps" by auto
  have m: "is_video_key p \<Longrightarrow> is_media p" by (simp add: is_video_key_def is_media_def)
  obtain r c' where s: "insert_packet p c = Inr (r, c')" "min_gop c' = 1"
    "packet_list c' = (if is_video_key p then [p] else if is_media p then packet_list c @ [p] else packet_list c)"
    "video_hdr c' = (if av_type p = MEDIA_VIDEO_TYPE \<and> is_seq_hdr p then Some p else video_hdr c)"
    "audio_hdr c' = (if av_type p = MEDIA_AUDIO_TYPE \<and> is_seq_hdr p then Some p else audio_hdr c)"
    "metadata_hdr c' = (if av_type p = MEDIA_METADATA_TYPE then Some p else metadata_hdr c)"
    using insert_step [OF c(2), of p] by blast
  have "packet_list c' = since_last_key (filter is_media (ps @ [p]))"
    using s(3) k(1) m by (auto simp: since_last_key_snoc)
  moreover have "insert_packets (ps @ [p]) (new_gop_cache 1) = Inr c'"
    by (simp add: insert_packets_append c(1) s(1))
  ultimately show ?case using s(2,4-6) k(2-4) by (simp add: last_such_snoc)
qed

lemma write_list_all: "write_list ops ps ret w = write_all ops ps ret w"
  by (induction ps arbitrary: ret w) (auto intro!: cxx_bind_cong)

lemma writer_gop_all: "writer_gop ops c w = write_all ops (gop_sequence c) 0 w"
proof -
  have h: "cxx_bind (write_hdr ops h r w) (\<lambda>(r1, w1). if r1 < 0 then Inr (r1, w1) else write_all ops qs r1 w1) =
      write_all ops (hdr_packet h @ qs) r w" if "0 \<le> r" for h r w qs
    using that by (auto simp: write_hdr_def hdr_packet_def split: option.splits)
  have "write_hdr ops h r w = Inr (r1, w1) \<Longrightarrow> \<not> r1 < 0 \<Longrightarrow> 0 \<le> r1" for h r w r1 w1 by simp
  have "writer_gop ops c w =
     cxx_bind (write_hdr ops (metadata_hdr c) 0 w) (\<lambda>(r1, w1). if r1 < 0 then Inr (r1, w1) else
     write_all ops (hdr_packet (video_hdr c) @ hdr_packet (audio_hdr c) @ packet_list c) r1 w1)"
    unfolding writer_gop_def write_list_all
    by (rule cxx_bind_cong [OF refl]) (auto simp: h [symmetric] intro!: cxx_bind_cong)
  then show ?thesis by (simp add: h gop_sequence_def)
qed

text \<open>
  C6. The cache of a stream is correct for late joiners: after any sequence \<open>ps\<close> of packets
  was inserted into a new cache, no insertion stopped, and a player that joins is written
  exactly the last metadata, video header and audio header received (those that are not
  empty) and then every audio and video packet since the last video key frame, in order and
  up to the first packet the player's writer refuses.
\<close>

theorem gop_cache_late_joiner:
  "\<exists>c. insert_packets ps (new_gop_cache 1) = Inr c \<and>
     writer_gop ops c w =
       write_all ops
         (hdr_packet (last_such (\<lambda>p. av_type p = MEDIA_METADATA_TYPE) ps) @
          hdr_packet (last_such (\<lambda>p. av_type p = MEDIA_VIDEO_TYPE \<and> is_seq_hdr p) ps) @
          hdr_packet (last_such (\<lambda>p. av_type p = MEDIA_AUDIO_TYPE \<and> is_seq_hdr p) ps) @
          since_last_key (filter is_media ps)) 0 w"
  using insert_packets_spec [of ps] by (auto simp: writer_gop_all gop_sequence_def)

text \<open>
  The cache is bounded only by key frames: when no video key frame arrives, as in an
  audio-only stream, the cache keeps every packet ever published and its length is the number
  of packets inserted.
\<close>

theorem gop_cache_audio_only_grows:
  assumes "\<forall>p \<in> set ps. av_type p = MEDIA_AUDIO_TYPE \<and> \<not> is_seq_hdr p"
  shows "\<exists>c. insert_packets ps (new_gop_cache 1) = Inr c \<and> packet_list c = ps"
proof -
  have "filter is_media ps = ps" using assms by (simp add: is_media_def filter_id_conv)
  moreover have "\<not> (\<exists>q \<in> set ps. is_video_key q)" using assms by (auto simp: is_video_key_def)
  then have "since_last_key ps = ps" by (cases ps) auto
  ultimately show ?thesis using insert_packets_spec [of ps] by auto
qed

theorem gop_cache_audio_only_grows_witness:
  "\<exists>c. insert_packets (replicate 3 (new_MEDIA_PACKET\<lparr>av_type := MEDIA_AUDIO_TYPE\<rparr>)) (new_gop_cache 1) = Inr c \<and>
     length (packet_list c) = 3"
  using gop_cache_audio_only_grows [of "replicate 3 (new_MEDIA_PACKET\<lparr>av_type := MEDIA_AUDIO_TYPE\<rparr>)"]
  by (auto simp: new_MEDIA_PACKET_def)

end
