(* ===== verification/Media_Stream.thy ===== *)
theory Media_Stream
  imports Gop_Cache
begin

text \<open>
  The stream manager of \<open>src/utils/av/media_stream_manager.cpp\<close>: the map from stream keys to
  streams, each with a GOP cache, a publisher flag and the writers of its players. Writers are
  objects behind pointers, so the state has a store from addresses to writers; a pointer
  without an object in the store is dangling and using it is \<open>NullDeref\<close>. The order in which
  an \<open>unordered_map\<close> is iterated is the order of the association list.
\<close>

record media_stream =
  stream_key :: bytes
  publisher_exist :: bool
  cache :: gop_cache
  writer_map :: "(bytes \<times> nat) list"

record 'w manager =
  media_streams_map :: "(bytes \<times> media_stream) list"
  writers :: "nat \<Rightarrow> 'w option"

definition new_media_stream :: media_stream where
  "new_media_stream = \<lparr>stream_key = [], publisher_exist = False, cache = new_gop_cache 1, writer_map = []\<rparr>"

definition deref :: "'w manager \<Rightarrow> nat \<Rightarrow> 'w cxx" where
  "deref s p = (case writers s p of None \<Rightarrow> Inl NullDeref | Some w \<Rightarrow> Inr w)"

definition add_player :: "'w av_writer_base \<Rightarrow> nat \<Rightarrow> 'w manager \<Rightarrow> (int \<times> 'w manager) cxx" where
  "add_player ops p s =
     cxx_bind (deref s p) (\<lambda>w.
     let key_str = get_key ops w; writerid = get_writerid ops w in
     case map_of (media_streams_map s) key_str of
       None \<Rightarrow>
         let st = new_media_stream\<lparr>writer_map := um_insert writerid p []\<rparr> in
         Inr (1, s\<lparr>media_streams_map := um_insert key_str st (media_streams_map s)\<rparr>)
     | Some st \<Rightarrow>
         let st' = st\<lparr>writer_map := um_insert writerid p (writer_map st)\<rparr> in
         Inr (int (length (writer_map st')),
              s\<lparr>media_streams_map := AList.update key_str st' (media_streams_map s)\<rparr>))"

definition remove_player :: "'w av_writer_base \<Rightarrow> nat \<Rightarrow> 'w manager \<Rightarrow> 'w manager cxx" where
  "remove_player ops p s =
     cxx_bind (deref s p) (\<lambda>w.
     let key_str = get_key ops w; writerid = get_writerid ops w in
     case map_of (media_streams_map s) key_str of
       None \<Rightarrow> Inr s
     | Some st \<Rightarrow>
         let st' = st\<lparr>writer_map := AList.delete writerid (writer_map st)\<rparr> in
         if writer_map st' = [] \<and> \<not> publisher_exist st'
         then Inr (s\<lparr>media_streams_map := AList.delete key_str (media_streams_map s)\<rparr>)
         else Inr (s\<lparr>media_streams_map := AList.update key_str st' (media_streams_map s)\<rparr>))"

text \<open>The returned \<open>MEDIA_STREAM_PTR\<close> is the stream under \<open>key\<close> in the new map.\<close>

definition add_publisher :: "bytes \<Rightarrow> 'w manager \<Rightarrow> media_stream \<times> 'w manager" where
  "add_publisher key s =
     (case map_of (media_streams_map s) key of
        None \<Rightarrow>
          let st = new_media_stream\<lparr>publisher_exist := True, stream_key := key\<rparr> in
          (st, s\<lparr>media_streams_map := um_insert key st (media_streams_map s)\<rparr>)
      | Some st \<Rightarrow>
          let st' = st\<lparr>publisher_exist := True\<rparr> in
          (st', s\<lparr>media_streams_map := AList.update key st' (media_streams_map s)\<rparr>))"

definition remove_publisher :: "bytes \<Rightarrow> 'w manager \<Rightarrow> 'w manager" where
  "remove_publisher key s =
     (case map_of (media_streams_map s) key of
        None \<Rightarrow> s
      | Some st \<Rightarrow>
          let st' = st\<lparr>publisher_exist := False\<rparr> in
          if writer_map st' = [] then s\<lparr>media_streams_map := AList.delete key (media_streams_map s)\<rparr>
          else s\<lparr>media_streams_map := AList.update key st' (media_streams_map s)\<rparr>)"

text \<open>The loop body of \<open>writer_media_packet\<close> for one writer, and the loop.\<close>

definition feed_writer :: "'w av_writer_base \<Rightarrow> gop_cache \<Rightarrow> MEDIA_PACKET \<Rightarrow> 'w \<Rightarrow> (int \<times> 'w) cxx" where
  "feed_writer ops c pkt w =
     (if \<not> is_inited ops w then writer_gop ops c (set_init_flag ops True w) else write_packet ops pkt w)"

fun feed_writers :: "'w av_writer_base \<Rightarrow> gop_cache \<Rightarrow> MEDIA_PACKET \<Rightarrow> (bytes \<times> nat) list \<Rightarrow>
    nat list \<Rightarrow> 'w manager \<Rightarrow> (nat list \<times> 'w manager) cxx" where
  "feed_writers ops c pkt [] remove_list s = Inr (remove_list, s)"
| "feed_writers ops c pkt ((i, p) # items) remove_list s =
     cxx_bind (deref s p) (\<lambda>w.
     cxx_bind (feed_writer ops c pkt w) (\<lambda>(r, w').
     feed_writers ops c pkt items (if r < 0 then remove_list @ [p] else remove_list)
       (s\<lparr>writers := (writers s)(p \<mapsto> w')\<rparr>)))"

fun remove_players :: "'w av_writer_base \<Rightarrow> nat list \<Rightarrow> 'w manager \<Rightarrow> 'w manager cxx" where
  "remove_players ops [] s = Inr s"
| "remove_players ops (p # ps) s = cxx_bind (remove_player ops p s) (remove_players ops ps)"

definition writer_media_packet :: "'w av_writer_base \<Rightarrow> MEDIA_PACKET \<Rightarrow> 'w manager \<Rightarrow> (int \<times> 'w manager) cxx" where
  "writer_media_packet ops pkt s =
     (let (st, s1) = add_publisher (pkt_key pkt) s in
      cxx_bind (insert_packet pkt (cache st)) (\<lambda>(n, c).
      let st' = st\<lparr>cache := c\<rparr>;
          s2 = s1\<lparr>media_streams_map := AList.update (pkt_key pkt) st' (media_streams_map s1)\<rparr> in
      cxx_bind (feed_writers ops c pkt (writer_map st') [] s2) (\<lambda>(remove_list, s3).
      cxx_bind (remove_players ops remove_list s3) (\<lambda>s4. Inr (0, s4)))))"

subsection \<open>The steps of the manager\<close>

text \<open>
  What the sessions do to the manager: a session creates a writer at an address not in use,
  registers it, unregisters it, and destroys it after it has unregistered it (as
  \<open>httpflv_server::on_check_alive\<close> does); publishers come, write and go.
\<close>

inductive ms_step :: "'w av_writer_base \<Rightarrow> 'w manager \<Rightarrow> 'w manager \<Rightarrow> bool" for ops where
  new_writer: "writers s p = None \<Longrightarrow> ms_step ops s (s\<lparr>writers := (writers s)(p \<mapsto> w)\<rparr>)"
| player_joins: "add_player ops p s = Inr (n, s') \<Longrightarrow> ms_step ops s s'"
| player_leaves: "remove_player ops p s = Inr s' \<Longrightarrow> ms_step ops s s'"
| player_deleted: "remove_player ops p s = Inr s' \<Longrightarrow> ms_step ops s (s'\<lparr>writers := (writers s')(p := None)\<rparr>)"
| publisher_joins: "add_publisher key s = (st, s') \<Longrightarrow> ms_step ops s s'"
| publisher_leaves: "ms_step ops s (remove_publisher key s)"
| publishes: "writer_media_packet ops pkt s = Inr (r, s') \<Longrightarrow> ms_step ops s s'"

inductive_cases ms_step_cases: "ms_step ops s s'"

definition ms_init :: "'w manager" where
  "ms_init = \<lparr>media_streams_map = [], writers = (\<lambda>_. None)\<rparr>"

text \<open>
  The invariant: every stream in the map is alive (it has a publisher or a player), every
  registered pointer is an existing writer filed under its own id in the stream of its own key.
\<close>

definition stream_ok :: "'w av_writer_base \<Rightarrow> (nat \<Rightarrow> 'w option) \<Rightarrow> bytes \<Rightarrow> media_stream \<Rightarrow> bool" where
  "stream_ok ops ws k st \<longleftrightarrow> min_gop (cache st) = 1 \<and> distinct_keys (writer_map st) \<and>
     (\<forall>i p. map_of (writer_map st) i = Some p \<longrightarrow>
        (\<exists>w. ws p = Some w \<and> get_writerid ops w = i \<and> get_key ops w = k))"

definition ms_inv :: "'w av_writer_base \<Rightarrow> 'w manager \<Rightarrow> bool" where
  "ms_inv ops s \<longleftrightarrow> distinct_keys (media_streams_map s) \<and>
     (\<forall>k st. map_of (media_streams_map s) k = Some st \<longrightarrow>
        stream_ok ops (writers s) k st \<and> (publisher_exist st \<or> writer_map st \<noteq> []))"

subsection \<open>The map operations keep the invariant\<close>

lemma ms_invD: "ms_inv ops s \<Longrightarrow> map_of (media_streams_map s) k = Some st \<Longrightarrow> stream_ok ops (writers s) k st"
  by (simp add: ms_inv_def)

lemma ms_inv_update:
  assumes "ms_inv ops s" "stream_ok ops (writers s) k st" "publisher_exist st \<or> writer_map st \<noteq> []"
  shows "ms_inv ops (s\<lparr>media_streams_map := AList.update k st (media_streams_map s)\<rparr>)"
  using assms by (auto simp: ms_inv_def um_simps distinct_AList split: if_splits)

lemma ms_inv_insert:
  assumes "ms_inv ops s" "stream_ok ops (writers s) k st" "publisher_exist st \<or> writer_map st \<noteq> []"
  shows "ms_inv ops (s\<lparr>media_streams_map := um_insert k st (media_streams_map s)\<rparr>)"
  using assms by (auto simp: ms_inv_def um_simps distinct_um_insert split: if_splits)

lemma ms_inv_delete:
  "ms_inv ops s \<Longrightarrow> ms_inv ops (s\<lparr>media_streams_map := AList.delete k (media_streams_map s)\<rparr>)"
  by (auto simp: ms_inv_def um_simps distinct_AList split: if_splits)

text \<open>Writers may change state, and new ones may appear, as long as their names stay.\<close>

lemma stream_ok_writers:
  assumes "stream_ok ops ws k st"
    and "\<And>p w. p \<in> ran (map_of (writer_map st)) \<Longrightarrow> ws p = Some w \<Longrightarrow>
      \<exists>w'. ws' p = Some w' \<and> get_key ops w' = get_key ops w \<and> get_writerid ops w' = get_writerid ops w"
  shows "stream_ok ops ws' k st"
  using assms unfolding stream_ok_def by (metis ranI)

lemma ms_inv_writers:
  assumes "ms_inv ops s"
    and "\<And>p w. writers s p = Some w \<Longrightarrow>
      \<exists>w'. ws' p = Some w' \<and> get_key ops w' = get_key ops w \<and> get_writerid ops w' = get_writerid ops w"
  shows "ms_inv ops (s\<lparr>writers := ws'\<rparr>)"
  using assms stream_ok_writers [of ops "writers s"] by (auto simp: ms_inv_def)

lemma stream_ok_new: "stream_ok ops ws k new_media_stream"
  by (simp add: stream_ok_def new_media_stream_def new_gop_cache_def)

lemma stream_ok_update:
  "stream_ok ops ws k st \<Longrightarrow> min_gop c = 1 \<Longrightarrow> stream_ok ops ws k (st\<lparr>cache := c\<rparr>)"
  "stream_ok ops ws k st \<Longrightarrow> stream_ok ops ws k (st\<lparr>publisher_exist := b\<rparr>)"
  "stream_ok ops ws k st \<Longrightarrow> stream_ok ops ws k (st\<lparr>stream_key := sk\<rparr>)"
  "stream_ok ops ws k st \<Longrightarrow> stream_ok ops ws k (st\<lparr>writer_map := AList.delete i (writer_map st)\<rparr>)"
  by (auto simp: stream_ok_def um_simps distinct_AList)

lemma stream_ok_add:
  "stream_ok ops ws k st \<Longrightarrow> ws p = Some w \<Longrightarrow> get_key ops w = k \<Longrightarrow>
    stream_ok ops ws k (st\<lparr>writer_map := um_insert (get_writerid ops w) p (writer_map st)\<rparr>)"
  by (auto simp: stream_ok_def um_simps distinct_um_insert)

lemma stream_ok_first:
  "ws p = Some w \<Longrightarrow> get_key ops w = k \<Longrightarrow>
    stream_ok ops ws k (new_media_stream\<lparr>writer_map := um_insert (get_writerid ops w) p []\<rparr>)"
  by (auto simp: stream_ok_def new_media_stream_def new_gop_cache_def um_insert_def)

lemmas stream_oks = stream_ok_new stream_ok_update stream_ok_add

lemma deref_Inr: "deref s p = Inr w \<longleftrightarrow> writers s p = Some w"
  by (auto simp: deref_def split: option.splits)

lemma um_insert_not_Nil [simp]: "um_insert k v m \<noteq> []"
  by (auto simp: um_insert_def)

lemma add_player_inv: "ms_inv ops s \<Longrightarrow> add_player ops p s = Inr (n, s') \<Longrightarrow> ms_inv ops s'"
  by (auto simp: add_player_def cxx_bind_Inr_iff deref_Inr Let_def case_option_eq
    intro!: ms_inv_insert ms_inv_update stream_ok_add stream_ok_first dest: ms_invD)

lemma remove_player_cases:
  assumes "remove_player ops p s = Inr s'"
  obtains w where "writers s p = Some w" "map_of (media_streams_map s) (get_key ops w) = None" "s' = s"
  | w st where "writers s p = Some w" "map_of (media_streams_map s) (get_key ops w) = Some st"
      "\<not> publisher_exist st" "AList.delete (get_writerid ops w) (writer_map st) = []"
      "s' = s\<lparr>media_streams_map := AList.delete (get_key ops w) (media_streams_map s)\<rparr>"
  | w st where "writers s p = Some w" "map_of (media_streams_map s) (get_key ops w) = Some st"
      "publisher_exist st \<or> AList.delete (get_writerid ops w) (writer_map st) \<noteq> []"
      "s' = s\<lparr>media_streams_map := AList.update (get_key ops w)
          (st\<lparr>writer_map := AList.delete (get_writerid ops w) (writer_map st)\<rparr>) (media_streams_map s)\<rparr>"
proof -
  obtain w where w: "writers s p = Some w"
    using assms by (auto simp: remove_player_def cxx_bind_Inr_iff deref_Inr)
  show ?thesis
  proof (cases "map_of (media_streams_map s) (get_key ops w)")
    case None
    with assms w have "s' = s" by (simp add: remove_player_def deref_def)
    from w None this show ?thesis by (rule that(1))
  next
    case (Some st)
    show ?thesis
    proof (cases "AList.delete (get_writerid ops w) (writer_map st) = [] \<and> \<not> publisher_exist st")
      case True
      with assms w Some show ?thesis by (intro that(2)) (auto simp: remove_player_def deref_def)
    next
      case False
      then have "s' = s\<lparr>media_streams_map := AList.update (get_key ops w)
          (st\<lparr>writer_map := AList.delete (get_writerid ops w) (writer_map st)\<rparr>) (media_streams_map s)\<rparr>"
        using assms w Some by (simp add: remove_player_def deref_def Let_def split: if_splits)
      with w Some False show ?thesis by (intro that(3)) auto
    qed
  qed
qed

lemma remove_player_inv:
  assumes "ms_inv ops s" "remove_player ops p s = Inr s'"
  shows "ms_inv ops s'"
  using assms(2)
proof (cases rule: remove_player_cases)
  case (3 w st)
  then show ?thesis
    using assms(1) by (simp add: ms_inv_update stream_ok_update ms_invD)
qed (use assms(1) in \<open>simp_all add: ms_inv_delete\<close>)

lemma add_publisher_inv: "ms_inv ops s \<Longrightarrow> add_publisher k s = (st, s') \<Longrightarrow> ms_inv ops s'"
  by (auto simp: add_publisher_def Let_def
    intro!: ms_inv_insert ms_inv_update stream_oks dest: ms_invD split: option.splits)

lemma remove_publisher_inv: "ms_inv ops s \<Longrightarrow> ms_inv ops (remove_publisher k s)"
  by (auto simp: remove_publisher_def Let_def
    intro!: ms_inv_delete ms_inv_update stream_ok_update dest: ms_invD split: option.splits)

lemma remove_player_writers: "remove_player ops p s = Inr s' \<Longrightarrow> writers s' = writers s"
  by (erule remove_player_cases) auto

lemma add_publisher_stream:
  "add_publisher k s = (st, s') \<Longrightarrow> map_of (media_streams_map s') k = Some st \<and> publisher_exist st \<and>
     writers s' = writers s \<and> (\<forall>k'. k' \<noteq> k \<longrightarrow> map_of (media_streams_map s') k' = map_of (media_streams_map s) k')"
  by (auto simp: add_publisher_def Let_def um_simps split: option.splits)

text \<open>After \<open>remove_player\<close> the pointer is registered nowhere, so its writer may be destroyed.\<close>

lemma removed_unregistered:
  assumes "ms_inv ops s" "remove_player ops p s = Inr s'" "map_of (media_streams_map s') k = Some st"
  shows "map_of (writer_map st) i \<noteq> Some p"
proof
  assume reg: "map_of (writer_map st) i = Some p"
  have "ms_inv ops s'" by (rule remove_player_inv [OF assms(1,2)])
  then obtain w where w: "writers s p = Some w" "get_writerid ops w = i" "get_key ops w = k"
    using ms_invD [OF _ assms(3)] reg remove_player_writers [OF assms(2)] by (fastforce simp: stream_ok_def)
  from assms(2) show False
    by (cases rule: remove_player_cases) (use w reg assms(3) in \<open>auto simp: um_simps\<close>)
qed

lemma delete_player_inv:
  assumes "ms_inv ops s" "remove_player ops p s = Inr s'"
  shows "ms_inv ops (s'\<lparr>writers := (writers s')(p := None)\<rparr>)"
proof -
  have inv: "ms_inv ops s'" by (rule remove_player_inv [OF assms])
  have "stream_ok ops ((writers s')(p := None)) k st" if "map_of (media_streams_map s') k = Some st" for k st
    using ms_invD [OF inv that] removed_unregistered [OF assms that]
    by (auto simp: stream_ok_def)
  then show ?thesis using inv by (auto simp: ms_inv_def)
qed

subsection \<open>Publishing a packet\<close>

lemma feed_writers_map: "feed_writers ops c pkt items rl s = Inr (rl', s') \<Longrightarrow> media_streams_map s' = media_streams_map s"
  by (induction ops c pkt items rl s arbitrary: rl' s' rule: feed_writers.induct)
    (fastforce simp: cxx_bind_Inr_iff)+

lemma feed_writers_other:
  "feed_writers ops c pkt items rl s = Inr (rl', s') \<Longrightarrow> p \<notin> snd ` set items \<Longrightarrow>
     writers s' p = writers s p \<and> (p \<in> set rl' \<longleftrightarrow> p \<in> set rl)"
  by (induction ops c pkt items rl s arbitrary: rl' s' rule: feed_writers.induct)
    (fastforce simp: cxx_bind_Inr_iff split: if_splits)+

text \<open>Every writer in the loop is fed once, and is in the remove list iff it refused.\<close>

lemma feed_writers_each:
  "feed_writers ops c pkt items rl s = Inr (rl', s') \<Longrightarrow> distinct (map snd items) \<Longrightarrow>
     set rl \<inter> snd ` set items = {} \<Longrightarrow> p \<in> snd ` set items \<Longrightarrow>
     \<exists>w r w'. writers s p = Some w \<and> feed_writer ops c pkt w = Inr (r, w') \<and> writers s' p = Some w' \<and>
       (p \<in> set rl' \<longleftrightarrow> r < 0)"
proof (induction ops c pkt items rl s arbitrary: rl' s' rule: feed_writers.induct)
  case (1 ops c pkt rl s)
  then show ?case by simp
next
  case (2 ops c pkt i q items rl s)
  then obtain w r w' where w: "writers s q = Some w" "feed_writer ops c pkt w = Inr (r, w')"
    and rest: "feed_writers ops c pkt items (if r < 0 then rl @ [q] else rl)
       (s\<lparr>writers := (writers s)(q \<mapsto> w')\<rparr>) = Inr (rl', s')"
    by (auto simp: cxx_bind_Inr_iff deref_Inr)
  have q: "q \<notin> snd ` set items" "q \<notin> set rl" using "2.prems" by auto
  show ?case
  proof (cases "p = q")
    case True
    then show ?thesis using feed_writers_other [OF rest q(1)] q(2) w by auto
  next
    case False
    then have "p \<in> snd ` set items" "set (if r < 0 then rl @ [q] else rl) \<inter> snd ` set items = {}"
      using "2.prems" q(1) by auto
    from "2.IH" [OF _ w(2) refl rest _ this(2,1)] w(1) "2.prems"(2) False
    show ?thesis by (auto simp: deref_Inr)
  qed
qed

lemma remove_players_inv: "ms_inv ops s \<Longrightarrow> remove_players ops ps s = Inr s' \<Longrightarrow> ms_inv ops s' \<and> writers s' = writers s"
proof (induction ps arbitrary: s)
  case (Cons p ps)
  then obtain s1 where "remove_player ops p s = Inr s1" "remove_players ops ps s1 = Inr s'"
    by (auto simp: cxx_bind_Inr_iff)
  with Cons show ?case using remove_player_inv remove_player_writers by metis
qed simp

text \<open>Removing players of a published stream takes exactly their entries out of it.\<close>

lemma remove_players_stream:
  assumes "map_of (media_streams_map s) k = Some st" "publisher_exist st"
    and "\<And>p. p \<in> set ps \<Longrightarrow> \<exists>w. writers s p = Some w \<and> get_key ops w = k"
  shows "\<exists>s' st'. remove_players ops ps s = Inr s' \<and> map_of (media_streams_map s') k = Some st' \<and>
     publisher_exist st' \<and> cache st' = cache st \<and> writers s' = writers s \<and>
     (\<forall>k'. k' \<noteq> k \<longrightarrow> map_of (media_streams_map s') k' = map_of (media_streams_map s) k') \<and>
     map_of (writer_map st') = (\<lambda>i. if \<exists>p \<in> set ps. \<exists>w. writers s p = Some w \<and> get_writerid ops w = i
        then None else map_of (writer_map st) i)"
  using assms
proof (induction ps arbitrary: s st)
  case Nil
  then show ?case by auto
next
  case (Cons p ps)
  from Cons.prems(3) [of p] obtain w where w: "writers s p = Some w" "get_key ops w = k" by auto
  let ?st = "st\<lparr>writer_map := AList.delete (get_writerid ops w) (writer_map st)\<rparr>"
  let ?s = "s\<lparr>media_streams_map := AList.update k ?st (media_streams_map s)\<rparr>"
  have 1: "remove_player ops p s = Inr ?s"
    using Cons.prems w by (simp add: remove_player_def deref_def)
  have 2: "map_of (media_streams_map ?s) k = Some ?st" "publisher_exist ?st"
    "\<And>p. p \<in> set ps \<Longrightarrow> \<exists>w. writers ?s p = Some w \<and> get_key ops w = k"
    using Cons.prems by (simp_all add: um_simps)
  obtain s' st' where 3: "remove_players ops ps ?s = Inr s'" "map_of (media_streams_map s') k = Some st'"
     "publisher_exist st'" "cache st' = cache st" "writers s' = writers s"
     "\<And>k'. k' \<noteq> k \<Longrightarrow> map_of (media_streams_map s') k' = map_of (media_streams_map ?s) k'"
     "map_of (writer_map st') = (\<lambda>i. if \<exists>p \<in> set ps. \<exists>w. writers s p = Some w \<and> get_writerid ops w = i
        then None else map_of (writer_map ?st) i)"
    using Cons.IH [OF 2] by auto
  have "map_of (writer_map st') = (\<lambda>i. if \<exists>p \<in> set (p # ps). \<exists>w. writers s p = Some w \<and> get_writerid ops w = i
        then None else map_of (writer_map st) i)"
    using w(1) by (auto simp: 3(7) um_simps fun_eq_iff)
  then show ?case using 1 3(1-6) by (auto simp: um_simps)
qed

text \<open>What publishing \<open>pkt\<close> does to the writer \<open>p\<close> filed under \<open>i\<close>.\<close>

definition delivered :: "'w av_writer_base \<Rightarrow> gop_cache \<Rightarrow> MEDIA_PACKET \<Rightarrow> 'w manager \<Rightarrow> 'w manager \<Rightarrow>
    (bytes \<times> nat) list \<Rightarrow> bytes \<Rightarrow> nat \<Rightarrow> bool" where
  "delivered ops c pkt s s' wm i p \<longleftrightarrow>
     (\<exists>w r w'. writers s p = Some w \<and> writers s' p = Some w' \<and> is_inited ops w' \<and>
        (if is_inited ops w then write_packet ops pkt w
         else write_all ops (gop_sequence c) 0 (set_init_flag ops True w)) = Inr (r, w') \<and>
        map_of wm i = (if r < 0 then None else Some p))"

lemma stream_ok_pointers:
  assumes "stream_ok ops ws k st"
  shows "distinct (map snd (writer_map st))" "p \<in> snd ` set (writer_map st) \<longleftrightarrow> (\<exists>i. map_of (writer_map st) i = Some p)"
proof -
  have d: "distinct_keys (writer_map st)" using assms by (simp add: stream_ok_def)
  show "p \<in> snd ` set (writer_map st) \<longleftrightarrow> (\<exists>i. map_of (writer_map st) i = Some p)"
    using d by (force dest: map_of_is_SomeI)
  have "inj_on snd (set (writer_map st))"
  proof (rule inj_onI)
    fix x y assume xy: "x \<in> set (writer_map st)" "y \<in> set (writer_map st)" "snd x = snd y"
    then have "map_of (writer_map st) (fst x) = Some (snd x)" "map_of (writer_map st) (fst y) = Some (snd x)"
      using d by (metis map_of_is_SomeI prod.collapse)+
    then have "fst x = fst y" using assms unfolding stream_ok_def by (metis option.inject)
    with xy(3) show "x = y" by (simp add: prod_eq_iff)
  qed
  then show "distinct (map snd (writer_map st))" using d by (simp add: distinct_map)
qed

context av_writer
begin

lemma feed_writer_names:
  "feed_writer ops c pkt w = Inr (r, w') \<Longrightarrow>
     get_key ops w' = get_key ops w \<and> get_writerid ops w' = get_writerid ops w \<and> is_inited ops w'"
  using write_all_names [of "gop_sequence c" 0 "set_init_flag ops True w" r w']
  by (auto simp: feed_writer_def writer_gop_all flag_set flag_key flag_id write_key write_id write_flag split: if_splits)

text \<open>The loop over the writers, run on a stream \<open>st\<close> of the manager.\<close>

lemma feed_phase:
  assumes inv: "ms_inv ops s" and st: "map_of (media_streams_map s) k = Some st"
    and feed: "feed_writers ops c pkt (writer_map st) [] s = Inr (rl, s3)"
  shows "map_of (writer_map st) i = Some p \<Longrightarrow> \<exists>w r w'. writers s p = Some w \<and>
       feed_writer ops c pkt w = Inr (r, w') \<and> writers s3 p = Some w' \<and> get_writerid ops w' = i \<and>
       (p \<in> set rl \<longleftrightarrow> r < 0)"
    and "p \<notin> ran (map_of (writer_map st)) \<Longrightarrow> writers s3 p = writers s p \<and> p \<notin> set rl"
    and "ms_inv ops s3"
    and "p \<in> set rl \<Longrightarrow> \<exists>w. writers s3 p = Some w \<and> get_key ops w = k \<and> map_of (writer_map st) (get_writerid ops w) = Some p"
proof -
  have ok: "stream_ok ops (writers s) k st" by (rule ms_invD [OF inv st])
  note ptr = stream_ok_pointers [OF ok]
  have each: "\<exists>w r w'. writers s p = Some w \<and> feed_writer ops c pkt w = Inr (r, w') \<and> writers s3 p = Some w' \<and>
       get_writerid ops w' = i \<and> get_key ops w' = k \<and> (p \<in> set rl \<longleftrightarrow> r < 0)"
    if ip: "map_of (writer_map st) i = Some p" for i p
  proof -
    have p: "p \<in> snd ` set (writer_map st)" using ptr(2) ip by blast
    obtain w r w' where w: "writers s p = Some w" "feed_writer ops c pkt w = Inr (r, w')"
      "writers s3 p = Some w'" "p \<in> set rl \<longleftrightarrow> r < 0" using feed_writers_each [OF feed ptr(1) _ p] by auto
    moreover have "get_writerid ops w = i \<and> get_key ops w = k"
      using ok ip w(1) unfolding stream_ok_def by (metis option.inject)
    ultimately show ?thesis using feed_writer_names [OF w(2)] by auto
  qed
  then show "map_of (writer_map st) i = Some p \<Longrightarrow> \<exists>w r w'. writers s p = Some w \<and>
       feed_writer ops c pkt w = Inr (r, w') \<and> writers s3 p = Some w' \<and> get_writerid ops w' = i \<and>
       (p \<in> set rl \<longleftrightarrow> r < 0)" for i p by blast
  show other: "p \<notin> ran (map_of (writer_map st)) \<Longrightarrow> writers s3 p = writers s p \<and> p \<notin> set rl" for p
    using feed_writers_other [OF feed, of p] ptr(2) [of p] by (auto simp: ran_def)
  have "\<exists>w'. writers s3 p = Some w' \<and> get_key ops w' = get_key ops w \<and> get_writerid ops w' = get_writerid ops w"
    if "writers s p = Some w" for p w
    using that each [of _ p] other [of p] feed_writer_names
    by (cases "p \<in> ran (map_of (writer_map st))") (fastforce simp: ran_def)+
  then have "ms_inv ops (s\<lparr>writers := writers s3\<rparr>)" by (rule ms_inv_writers [OF inv])
  moreover have "s3 = s\<lparr>writers := writers s3\<rparr>" using feed_writers_map [OF feed] by simp
  ultimately show "ms_inv ops s3" by simp
  show "p \<in> set rl \<Longrightarrow> \<exists>w. writers s3 p = Some w \<and> get_key ops w = k \<and> map_of (writer_map st) (get_writerid ops w) = Some p"
    using other [of p] each [of _ p] unfolding ran_def by fastforce
qed

lemma publish_phases:
  assumes inv: "ms_inv ops s" and run: "writer_media_packet ops pkt s = Inr (r, s')"
    and pub: "add_publisher (pkt_key pkt) s = (st, s1)"
  obtains n c rl s2 s3 where "r = 0" "insert_packet pkt (cache st) = Inr (n, c)"
    "s2 = s1\<lparr>media_streams_map := AList.update (pkt_key pkt) (st\<lparr>cache := c\<rparr>) (media_streams_map s1)\<rparr>"
    "ms_inv ops s2" "feed_writers ops c pkt (writer_map st) [] s2 = Inr (rl, s3)" "remove_players ops rl s3 = Inr s'"
proof -
  note pubs = add_publisher_stream [OF pub]
  have inv1: "ms_inv ops s1" by (rule add_publisher_inv [OF inv pub])
  obtain n c where c: "insert_packet pkt (cache st) = Inr (n, c)"
    using run pub by (auto simp: writer_media_packet_def cxx_bind_Inr_iff)
  moreover have "ms_inv ops (s1\<lparr>media_streams_map := AList.update (pkt_key pkt) (st\<lparr>cache := c\<rparr>) (media_streams_map s1)\<rparr>)"
    using inv1 pubs insert_min_gop [OF c] ms_invD [OF inv1, of "pkt_key pkt" st]
    by (intro ms_inv_update) (auto simp: stream_ok_update stream_ok_def)
  ultimately show ?thesis
    using run pub by (auto simp: writer_media_packet_def cxx_bind_Inr_iff Let_def intro!: that)
qed

lemma publish_delivers:
  assumes inv: "ms_inv ops s" and run: "writer_media_packet ops pkt s = Inr (r, s')"
    and pub: "add_publisher (pkt_key pkt) s = (st, s1)"
  shows "\<exists>n c st'. r = 0 \<and> insert_packet pkt (cache st) = Inr (n, c) \<and>
     map_of (media_streams_map s') (pkt_key pkt) = Some st' \<and> publisher_exist st' \<and> cache st' = c \<and>
     (\<forall>i p. map_of (writer_map st) i = Some p \<longrightarrow> delivered ops c pkt s s' (writer_map st') i p) \<and>
     (\<forall>i. map_of (writer_map st) i = None \<longrightarrow> map_of (writer_map st') i = None) \<and>
     (\<forall>p. p \<notin> ran (map_of (writer_map st)) \<longrightarrow> writers s' p = writers s p) \<and>
     (\<forall>k. k \<noteq> pkt_key pkt \<longrightarrow> map_of (media_streams_map s') k = map_of (media_streams_map s) k) \<and> ms_inv ops s'"
proof -
  let ?k = "pkt_key pkt"
  note pubs = add_publisher_stream [OF pub]
  obtain n c rl s2 s3 where r: "r = 0" and c: "insert_packet pkt (cache st) = Inr (n, c)"
    and s2: "s2 = s1\<lparr>media_streams_map := AList.update ?k (st\<lparr>cache := c\<rparr>) (media_streams_map s1)\<rparr>"
    and inv2: "ms_inv ops s2" and feed: "feed_writers ops c pkt (writer_map st) [] s2 = Inr (rl, s3)"
    and rm: "remove_players ops rl s3 = Inr s'"
    by (rule publish_phases [OF assms])
  have k2: "map_of (media_streams_map s2) ?k = Some (st\<lparr>cache := c\<rparr>)" by (simp add: s2 um_simps)
  have ws2: "writers s2 = writers s" using pubs by (simp add: s2)
  note ph = feed_phase [OF inv2 k2, simplified, OF feed]
  have k3: "map_of (media_streams_map s3) ?k = Some (st\<lparr>cache := c\<rparr>)" "publisher_exist (st\<lparr>cache := c\<rparr>)"
    using feed_writers_map [OF feed] k2 pubs by simp_all
  obtain st' where st': "map_of (media_streams_map s') ?k = Some st'" "publisher_exist st'" "cache st' = c"
     "writers s' = writers s3"
     "\<And>k'. k' \<noteq> ?k \<Longrightarrow> map_of (media_streams_map s') k' = map_of (media_streams_map s3) k'"
     "map_of (writer_map st') = (\<lambda>i. if \<exists>p \<in> set rl. \<exists>w. writers s3 p = Some w \<and> get_writerid ops w = i
        then None else map_of (writer_map st) i)"
    using remove_players_stream [OF k3, of rl ops] ph(4) rm by fastforce
  have "delivered ops c pkt s s' (writer_map st') i p" if ip: "map_of (writer_map st) i = Some p" for i p
  proof -
    from ph(1) [OF ip] ws2 obtain w r w' where w: "writers s p = Some w" "feed_writer ops c pkt w = Inr (r, w')"
      "writers s3 p = Some w'" "get_writerid ops w' = i" "p \<in> set rl \<longleftrightarrow> r < 0" by auto
    have "(\<exists>q \<in> set rl. \<exists>v. writers s3 q = Some v \<and> get_writerid ops v = i) \<longleftrightarrow> r < 0"
      using ph(4) w(3-5) ip by (metis option.inject)
    then show ?thesis using w feed_writer_names [OF w(2)] st'(4,6) ip
      by (auto simp: delivered_def feed_writer_def writer_gop_all split: if_splits)
  qed
  moreover have "ms_inv ops s'" using remove_players_inv [OF ph(3) rm] by simp
  moreover have "map_of (media_streams_map s') k = map_of (media_streams_map s) k" if "k \<noteq> ?k" for k
    using that st'(5) feed_writers_map [OF feed] pubs s2 by (simp add: um_simps)
  ultimately show ?thesis using r c st' ph(2) ws2 by (intro exI [of _ n] exI [of _ c] exI [of _ st']) auto
qed

lemma ms_step_inv:
  assumes "ms_step ops s s'" "ms_inv ops s"
  shows "ms_inv ops s'"
  using assms
proof (cases rule: ms_step.cases)
  case (new_writer p w)
  then show ?thesis using assms(2) by (auto intro!: ms_inv_writers)
next
  case (publishes pkt r)
  then show ?thesis using publish_delivers [OF assms(2) publishes] by (metis surj_pair)
qed (use assms(2) in \<open>auto intro: add_player_inv remove_player_inv delete_player_inv add_publisher_inv remove_publisher_inv\<close>)

lemma reachable_inv:
  assumes "(ms_step ops)\<^sup>*\<^sup>* ms_init s"
  shows "ms_inv ops s"
  using assms
proof (induction rule: rtranclp_induct)
  case base
  show ?case by (simp add: ms_inv_def ms_init_def)
next
  case (step s s')
  then show ?case using ms_step_inv by blast
qed

end

text \<open>Publishing stops early only when a writer does.\<close>

definition writer_stops :: "'w av_writer_base \<Rightarrow> stop \<Rightarrow> bool" where
  "writer_stops ops e \<longleftrightarrow> (\<exists>p w. write_packet ops p w = Inl e)"

lemma write_all_stops: "write_all ops ps r w = Inl e \<Longrightarrow> writer_stops ops e"
  by (induction ps arbitrary: r w) (auto simp: cxx_bind_Inl_iff writer_stops_def split: if_splits)

lemma feed_writer_stops: "feed_writer ops c pkt w = Inl e \<Longrightarrow> writer_stops ops e"
  by (auto simp: feed_writer_def writer_gop_all writer_stops_def [symmetric] split: if_splits dest: write_all_stops)
     (auto simp: writer_stops_def)

lemma feed_writers_stops:
  "feed_writers ops c pkt items rl s = Inl e \<Longrightarrow> \<forall>p \<in> snd ` set items. writers s p \<noteq> None \<Longrightarrow> writer_stops ops e"
proof (induction ops c pkt items rl s rule: feed_writers.induct)
  case (2 ops c pkt i q items rl s)
  then obtain w where w: "deref s q = Inr w" by (auto simp: deref_Inr)
  show ?case
  proof (cases "feed_writer ops c pkt w")
    case (Inl e')
    then show ?thesis using "2.prems" w feed_writer_stops [OF Inl] by simp
  next
    case (Inr v)
    then show ?thesis using "2.prems" w "2.IH" [OF w Inr] by (cases v) auto
  qed
qed simp

lemma insert_packet_returns: "min_gop c = 1 \<Longrightarrow> \<exists>n c'. insert_packet pkt c = Inr (n, c')"
  by (auto simp: insert_packet_def push_packet_def Let_def split: MEDIA_PKT_TYPE.splits)

context av_writer
begin

lemma publish_stops:
  assumes inv: "ms_inv ops s" and run: "writer_media_packet ops pkt s = Inl e"
  shows "writer_stops ops e"
proof -
  let ?k = "pkt_key pkt"
  obtain st s1 where pub: "add_publisher ?k s = (st, s1)" by (cases "add_publisher ?k s")
  note pubs = add_publisher_stream [OF pub]
  have inv1: "ms_inv ops s1" by (rule add_publisher_inv [OF inv pub])
  have ok1: "stream_ok ops (writers s1) ?k st" using ms_invD [OF inv1] pubs by blast
  then obtain n c where c: "insert_packet pkt (cache st) = Inr (n, c)"
    using insert_packet_returns [of "cache st" pkt] by (auto simp: stream_ok_def)
  define s2 where "s2 = s1\<lparr>media_streams_map := AList.update ?k (st\<lparr>cache := c\<rparr>) (media_streams_map s1)\<rparr>"
  have inv2: "ms_inv ops s2"
    unfolding s2_def using inv1 pubs insert_min_gop [OF c] ok1
    by (intro ms_inv_update) (auto simp: stream_ok_update stream_ok_def)
  have k2: "map_of (media_streams_map s2) ?k = Some (st\<lparr>cache := c\<rparr>)" by (simp add: s2_def um_simps)
  have alive: "\<forall>p \<in> snd ` set (writer_map st). writers s2 p \<noteq> None"
    using stream_ok_pointers(2) [OF ok1] ok1 by (fastforce simp: stream_ok_def s2_def)
  show ?thesis
  proof (cases "feed_writers ops c pkt (writer_map st) [] s2")
    case (Inl e')
    then have "e' = e" using run pub c by (simp add: writer_media_packet_def s2_def)
    then show ?thesis using feed_writers_stops [OF Inl alive] by simp
  next
    case (Inr v)
    obtain rl s3 where feed: "feed_writers ops c pkt (writer_map st) [] s2 = Inr (rl, s3)" using Inr by (cases v) auto
    note ph = feed_phase [OF inv2 k2, simplified, OF feed]
    have k3: "map_of (media_streams_map s3) ?k = Some (st\<lparr>cache := c\<rparr>)" "publisher_exist (st\<lparr>cache := c\<rparr>)"
      using feed_writers_map [OF feed] k2 pubs by simp_all
    have "\<exists>s'. remove_players ops rl s3 = Inr s'"
      using remove_players_stream [OF k3, of rl ops] ph(4) by fastforce
    then show ?thesis using run pub c feed by (auto simp: writer_media_packet_def s2_def Let_def)
  qed
qed

end

end
