(* ===== verification/Httpflv.thy ===== *)
theory Httpflv
  imports Http Flv Media_Stream
begin

text \<open>
  HTTP-FLV playback: the writer of \<open>src/net/httpflv/httpflv_writer.cpp\<close> and the request handler
  and liveness check of \<open>httpflv_server.cpp\<close>. A writer keeps the writes it asked of its HTTP
  session in \<open>hw_sent\<close>, in order. The writer interprets \<open>av_writer\<close>, the contract of the
  stream manager.
\<close>

record httpflv_writer =
  hw_resp :: http_response
  hw_key :: bytes
  hw_id :: bytes
  hw_init_flag :: bool
  hw_has_video :: bool
  hw_has_audio :: bool
  hw_flv_header_ready :: bool
  hw_closed_flag :: bool
  hw_aliver :: session_aliver
  hw_sent :: "bytes list"

definition new_httpflv_writer :: "bytes \<Rightarrow> bytes \<Rightarrow> http_response \<Rightarrow> bool \<Rightarrow> bool \<Rightarrow> httpflv_writer" where
  "new_httpflv_writer key wid resp has_video has_audio = \<lparr>hw_resp = resp, hw_key = key, hw_id = wid, hw_init_flag = False,
     hw_has_video = has_video, hw_has_audio = has_audio, hw_flv_header_ready = False, hw_closed_flag = False,
     hw_aliver = new_session_aliver, hw_sent = []\<rparr>"

text \<open>\<open>resp_->write(data, len, true)\<close>.\<close>

definition hw_write :: "bytes \<Rightarrow> httpflv_writer \<Rightarrow> int \<times> httpflv_writer" where
  "hw_write data w =
     (let (r, ws, resp) = response_write data True (hw_resp w) in (r, w\<lparr>hw_resp := resp, hw_sent := hw_sent w @ ws\<rparr>))"

definition send_flv_header :: "httpflv_writer \<Rightarrow> int \<times> httpflv_writer" where
  "send_flv_header w =
     (if hw_flv_header_ready w then (0, w)
      else if \<not> hw_has_audio w \<and> \<not> hw_has_video w then (-1, w)
      else
        let flag = (if hw_has_video w then 0x01 else 0) OR (if hw_has_audio w then 0x04 else 0);
            flv_header = [0x46, 0x4c, 0x56, 0x01, flag, 0x00, 0x00, 0x00, 0x09, 0x00, 0x00, 0x00, 0x00];
            (r, w1) = hw_write flv_header w
        in (0, w1\<lparr>hw_flv_header_ready := True\<rparr>))"

definition flv_tag_header :: "u8 \<Rightarrow> MEDIA_PACKET \<Rightarrow> bytes" where
  "flv_tag_header tag pkt =
     (let payload_size = word_of_int (int (length (pkt_buffer pkt)));
          timestamp_base = word_of_int (take_bit 24 (dts pkt)) :: u32;
          timestamp_ext = byte_of 24 (dts pkt)
      in [tag] @ write_3bytes payload_size @
         (if 0xffffff \<le> timestamp_base then write_3bytes 0xffffff else write_3bytes timestamp_base) @ [timestamp_ext, 0, 0, 1])"

definition hw_write_packet :: "MEDIA_PACKET \<Rightarrow> httpflv_writer \<Rightarrow> (int \<times> httpflv_writer) cxx" where
  "hw_write_packet pkt w =
     (let (ret, w1) = send_flv_header w in
      if ret \<noteq> 0 then Inr (0, w1)
      else if av_type pkt \<noteq> MEDIA_VIDEO_TYPE \<and> av_type pkt \<noteq> MEDIA_AUDIO_TYPE then Inr (0, w1)
      else
        let tag = (if av_type pkt = MEDIA_VIDEO_TYPE then FLV_TAG_VIDEO else FLV_TAG_AUDIO);
            (r1, w2) = hw_write (flv_tag_header tag pkt) w1 in
        if r1 < 0 then Inr (r1, w2)
        else
          let (r2, w3) = hw_write (pkt_buffer pkt) w2 in
          if r2 < 0 then Inr (r2, w3)
          else
            let pre_size = word_of_int (11 + int (length (pkt_buffer pkt)));
                (r3, w4) = hw_write (write_4bytes pre_size) w3 in
            if r3 < 0 then Inr (r3, w4)
            else Inr (0, w4\<lparr>hw_aliver := keep_alive (hw_aliver w4)\<rparr>))"

definition hw_close_writer :: "httpflv_writer \<Rightarrow> httpflv_writer cxx" where
  "hw_close_writer w =
     (if hw_closed_flag w then Inr w
      else cxx_bind (response_close (hw_resp w)) (\<lambda>(c, resp). Inr (w\<lparr>hw_closed_flag := True, hw_resp := resp\<rparr>)))"

definition httpflv_ops :: "httpflv_writer av_writer_base" where
  "httpflv_ops = \<lparr>write_packet = hw_write_packet, get_key = hw_key, get_writerid = hw_id,
     is_inited = hw_init_flag, set_init_flag = (\<lambda>f w. w\<lparr>hw_init_flag := f\<rparr>)\<rparr>"

subsection \<open>The server\<close>

text \<open>
  The handler map and the stream manager. A request creates a writer at a free address \<open>p\<close>
  under a fresh \<open>uuid\<close>; both are arguments.
\<close>

record httpflv_server =
  httpflv_handle_map :: "(bytes \<times> nat) list"
  hf_manager :: "httpflv_writer manager"

definition request_key :: "bytes \<Rightarrow> bytes option" where
  "request_key uri =
     (case str_find (lit ''.flv'') uri of None \<Rightarrow> None
      | Some pos \<Rightarrow>
          let key = take pos uri in
          Some (if key \<noteq> [] \<and> hd key = 47 then drop 1 key else key))"

definition httpflv_handle :: "http_request \<Rightarrow> http_response \<Rightarrow> bytes \<Rightarrow> nat \<Rightarrow> httpflv_server \<Rightarrow> httpflv_server cxx" where
  "httpflv_handle rq resp uuid p s =
     (case request_key (req_uri rq) of
        None \<Rightarrow> cxx_bind (response_close resp) (\<lambda>_. Inr s)
      | Some key \<Rightarrow>
          let m = hf_manager s;
              m1 = m\<lparr>writers := (writers m)(p \<mapsto> new_httpflv_writer key uuid resp True True)\<rparr> in
          cxx_bind (add_player httpflv_ops p m1) (\<lambda>(n, m2).
          Inr (s\<lparr>httpflv_handle_map := um_insert uuid p (httpflv_handle_map s), hf_manager := m2\<rparr>)))"

text \<open>\<open>delete writer_p\<close> runs the destructor, which closes the writer.\<close>

definition delete_writer :: "nat \<Rightarrow> httpflv_writer manager \<Rightarrow> httpflv_writer manager cxx" where
  "delete_writer p m =
     cxx_bind (deref m p) (\<lambda>w.
     cxx_bind (hw_close_writer w) (\<lambda>w'. Inr (m\<lparr>writers := (writers m)(p := None)\<rparr>)))"

fun check_alive_loop :: "(bytes \<times> nat) list \<Rightarrow> httpflv_server \<Rightarrow> httpflv_server cxx" where
  "check_alive_loop [] s = Inr s"
| "check_alive_loop ((wid, p) # items) s =
     cxx_bind (deref (hf_manager s) p) (\<lambda>w.
     let (alive, a) = is_alive (hw_aliver w);
         m = hf_manager s;
         m1 = m\<lparr>writers := (writers m)(p \<mapsto> w\<lparr>hw_aliver := a\<rparr>)\<rparr> in
     if \<not> alive then
       cxx_bind (remove_player httpflv_ops p m1) (\<lambda>m2.
       cxx_bind (delete_writer p m2) (\<lambda>m3.
       check_alive_loop items (s\<lparr>httpflv_handle_map := AList.delete wid (httpflv_handle_map s), hf_manager := m3\<rparr>)))
     else check_alive_loop items (s\<lparr>hf_manager := m1\<rparr>))"

definition on_check_alive :: "httpflv_server \<Rightarrow> httpflv_server cxx" where
  "on_check_alive s = check_alive_loop (httpflv_handle_map s) s"

subsection \<open>The writer keeps its contract\<close>

lemma hw_write_names:
  "hw_write data w = (r, w') \<Longrightarrow> hw_key w' = hw_key w \<and> hw_id w' = hw_id w \<and> hw_init_flag w' = hw_init_flag w"
  by (auto simp: hw_write_def split: prod.splits)

lemma send_flv_header_names:
  "send_flv_header w = (r, w') \<Longrightarrow> hw_key w' = hw_key w \<and> hw_id w' = hw_id w \<and> hw_init_flag w' = hw_init_flag w"
  by (auto simp: send_flv_header_def Let_def split: prod.splits if_splits dest!: hw_write_names)

lemma hw_write_packet_names:
  "hw_write_packet pkt w = Inr (r, w') \<Longrightarrow> hw_key w' = hw_key w \<and> hw_id w' = hw_id w \<and> hw_init_flag w' = hw_init_flag w"
  by (auto simp: hw_write_packet_def Let_def split: prod.splits if_splits dest!: hw_write_names send_flv_header_names)

interpretation hf: av_writer httpflv_ops
  by unfold_locales (auto simp: httpflv_ops_def dest!: hw_write_packet_names)

subsection \<open>What a player receives\<close>

text \<open>A packet in FLV format: what \<open>av_outputer::output_packet\<close> makes of a demuxed packet.\<close>

definition flv_format :: "MEDIA_PACKET \<Rightarrow> MEDIA_PACKET" where
  "flv_format p = p\<lparr>fmt_type := MEDIA_FORMAT_FLV, pkt_buffer := the (media_header p) @ pkt_buffer p\<rparr>"

definition http_tag :: "MEDIA_PACKET \<Rightarrow> bytes" where
  "http_tag p = flv_tag_header (tag_of p) p @ pkt_buffer p @ write_4bytes (word_of_int (11 + int (length (pkt_buffer p))))"

lemma timestamp_parts:
  "take_bit 24 (word_of_int (take_bit 24 x) :: u32) OR push_bit 24 (ucast (byte_of 24 x)) = (word_of_int x :: u32)"
  by (rule bit_word_eqI) (auto simp: bit_simps byte_of_def)

lemma flv_tag_header_read:
  assumes "length (pkt_buffer p) < 2 ^ 24" "between_tags d" "dm_buffer d = flv_tag_header tag p @ rest"
  shows "handle_packet cb d s = read_tag cb (tag_ready tag (int (length (pkt_buffer p))) p rest d) s"
proof -
  let ?n = "word_of_int (int (length (pkt_buffer p))) :: u32"
  let ?t = "word_of_int (take_bit 24 (dts p)) :: u32"
  have lim: "take_bit 24 (dts p) < 2 ^ 24" by (rule take_bit_int_less_exp)
  have ut: "uint ?t = take_bit 24 (dts p)" using lim by (simp add: unsigned_of_int take_bit_int_eq_self)
  have base: "(if 0xffffff \<le> ?t then write_3bytes 0xffffff else write_3bytes ?t) = write_3bytes ?t"
  proof (cases "0xffffff \<le> ?t")
    case True
    then have "uint ?t = 0xffffff" using lim ut by (simp add: word_le_def)
    then have "?t = 0xffffff" by (metis word_of_int_uint word_of_int_numeral)
    then show ?thesis by simp
  qed simp
  have b: "dm_buffer d = [tag] @ write_3bytes ?n @ write_3bytes ?t @ [byte_of 24 (dts p), 0, 0, 1] @ rest"
    using assms(3) by (simp only: flv_tag_header_def Let_def base append_assoc)
  have n: "unat ?n < 2 ^ 24" using assms(1) by (simp add: unat_of_nat)
  have d1: "drop 1 (dm_buffer d) = write_3bytes ?n @ (write_3bytes ?t @ [byte_of 24 (dts p), 0, 0, 1] @ rest)"
    and d4: "drop 4 (dm_buffer d) = write_3bytes ?t @ ([byte_of 24 (dts p), 0, 0, 1] @ rest)"
    and d7: "drop 7 (dm_buffer d) = byte_of 24 (dts p) # 0 # 0 # 1 # rest" and d11: "drop 11 (dm_buffer d) = rest"
    and l: "11 \<le> length (dm_buffer d)" and b0: "dm_buffer d ! 0 = tag"
    using b by simp_all
  have at: "mem_at (dm_buffer d) 7 = Inr (byte_of 24 (dts p))"
    using l d7 hd_drop_conv_nth [of 7 "dm_buffer d"] by (simp add: mem_at_def)
  show ?thesis
    using assms(2) l b0 d11 at
    by (simp add: handle_packet_def read_file_header_def read_tag_header_def between_tags_def Let_def d1 [simplified] d4 tag_ready_def
       read_write_3 take_bit_24_id [OF n, simplified] timestamp_parts del: read_3bytes.simps drop_0)
qed

lemma http_tag_carries:
  assumes "media_ok p" shows "carries (http_tag (flv_format p)) p"
proof (rule carriesI)
  fix d rest s
  assume d: "between_tags d" "dm_buffer d = http_tag (flv_format p) @ rest"
  obtain h where h: "media_header p = Some h" "length h + length (pkt_buffer p) < 2 ^ 24"
    using media_ok_header [OF assms] by metis
  let ?f = "flv_format p" and ?n = "int (length h) + int (length (pkt_buffer p))"
  have f: "pkt_buffer ?f = h @ pkt_buffer p" "dts ?f = dts p" "tag_of ?f = tag_of p"
    using h(1) by (simp_all add: flv_format_def tag_of_def)
  let ?pre = "write_4bytes (word_of_int (11 + int (length (pkt_buffer ?f))))"
  have "dm_buffer d = flv_tag_header (tag_of p) ?f @ (h @ pkt_buffer p @ ?pre @ rest)"
    using d(2) f by (simp add: http_tag_def)
  from flv_tag_header_read [OF _ d(1) this, of collect s] h(2) f
  have hr: "handle_packet collect d s = read_tag collect (tag_ready (tag_of p) ?n p (h @ pkt_buffer p @ ?pre @ rest) d) s"
    by (simp add: tag_ready_def)
  show "\<exists>d'. handle_packet collect d s = Inr (0, d', s @ [raw_packet (dm_key d) p]) \<and>
     between_tags d' \<and> dm_buffer d' = rest \<and> dm_key d' = dm_key d"
    unfolding hr by (rule read_tag_muxed [OF assms h(1) d(1)]) simp
qed

text \<open>A writer whose response is open.\<close>

definition hw_ready :: "httpflv_writer \<Rightarrow> bool" where
  "hw_ready w \<longleftrightarrow> \<not> resp_is_close (hw_resp w) \<and> resp_session (hw_resp w) \<and> written_header (hw_resp w) \<and> hw_flv_header_ready w"

lemma hw_write_ready: "hw_ready w \<Longrightarrow> hw_write data w = (0, w\<lparr>hw_sent := hw_sent w @ [data]\<rparr>)"
  by (simp add: hw_write_def response_write_def hw_ready_def)

lemma hw_ready_sent [simp]: "hw_ready (w\<lparr>hw_sent := x\<rparr>) = hw_ready w" "hw_ready (w\<lparr>hw_aliver := a\<rparr>) = hw_ready w"
  by (simp_all add: hw_ready_def)

lemma hw_write_packet_ready:
  assumes "hw_ready w" "media_ok p"
  shows "hw_write_packet (flv_format p) w = Inr (0, w\<lparr>hw_sent := hw_sent w @
     [flv_tag_header (tag_of p) (flv_format p), pkt_buffer (flv_format p),
      write_4bytes (word_of_int (11 + int (length (pkt_buffer (flv_format p)))))], hw_aliver := keep_alive (hw_aliver w)\<rparr>)"
proof -
  have "send_flv_header w = (0, w)" using assms(1) by (simp add: send_flv_header_def hw_ready_def)
  moreover have "av_type (flv_format p) = av_type p" "av_type p = MEDIA_VIDEO_TYPE \<or> av_type p = MEDIA_AUDIO_TYPE"
    using assms(2) by (auto simp: flv_format_def media_ok_def)
  ultimately show ?thesis using assms(1)
    by (auto simp: hw_write_packet_def Let_def hw_write_ready tag_of_def)
qed

lemma write_all_ready:
  assumes "\<forall>p \<in> set ps. media_ok p" "hw_ready w"
  shows "\<exists>w' xs. write_all httpflv_ops (map flv_format ps) 0 w = Inr (0, w') \<and> hw_sent w' = hw_sent w @ xs \<and>
     concat xs = concat (map (\<lambda>p. http_tag (flv_format p)) ps)"
  using assms
proof (induction ps arbitrary: w)
  case (Cons p ps)
  let ?xs = "[flv_tag_header (tag_of p) (flv_format p), pkt_buffer (flv_format p),
      write_4bytes (word_of_int (11 + int (length (pkt_buffer (flv_format p)))))]"
  let ?w = "w\<lparr>hw_sent := hw_sent w @ ?xs, hw_aliver := keep_alive (hw_aliver w)\<rparr>"
  have 1: "hw_write_packet (flv_format p) w = Inr (0, ?w)"
    using hw_write_packet_ready [of w p] Cons.prems by simp
  have "hw_ready ?w" using Cons.prems(2) by simp
  with Cons.IH [of ?w] Cons.prems(1) obtain w' xs where
    "write_all httpflv_ops (map flv_format ps) 0 ?w = Inr (0, w')" "hw_sent w' = (hw_sent w @ ?xs) @ xs"
    "concat xs = concat (map (\<lambda>p. http_tag (flv_format p)) ps)" by auto
  moreover have "tag_of (flv_format p) = tag_of p" by (simp add: tag_of_def flv_format_def)
  ultimately show ?case using 1
    by (intro exI [of _ w'] exI [of _ "?xs @ xs"]) (simp add: httpflv_ops_def http_tag_def)
qed simp

text \<open>The first packet also sends the HTTP head and the FLV file header.\<close>

lemma first_packet:
  assumes "v \<or> a" "w = new_httpflv_writer key uuid new_http_response v a"
  shows "\<exists>w1 m. hw_ready w1 \<and> hw_sent w1 = [response_head 13 True new_http_response, mux_flv_header m] \<and>
     hw_write_packet p w = hw_write_packet p w1"
proof -
  let ?m = "\<lparr>mux_has_video = v, mux_has_audio = a, mux_header_ready = False\<rparr>"
  let ?w = "w\<lparr>hw_resp := new_http_response\<lparr>written_header := True\<rparr>, hw_flv_header_ready := True,
     hw_sent := [response_head 13 True new_http_response, mux_flv_header ?m]\<rparr>"
  have 1: "send_flv_header w = (0, ?w)"
    using assms by (auto simp: send_flv_header_def hw_write_def response_write_def new_httpflv_writer_def
      new_http_response_def mux_flv_header_def Let_def numeral_eq_Suc)
  have 2: "hw_ready ?w" by (simp add: hw_ready_def new_http_response_def)
  have "send_flv_header ?w = (0, ?w)" by (simp add: send_flv_header_def)
  with 1 have "hw_write_packet p w = hw_write_packet p ?w" by (simp only: hw_write_packet_def)
  with 2 show ?thesis by (intro exI [of _ ?w] exI [of _ ?m]) simp
qed

text \<open>
  C4. What an HTTP-FLV player gets is a correct FLV stream: the packets a new writer is given
  (in FLV format, with 32-bit timestamps) are all accepted, and the bytes it sends after the
  HTTP head, received in pieces of any size, demux to exactly those packets in order.
\<close>

theorem httpflv_player_stream:
  assumes "\<forall>p \<in> set ps. media_ok p" "ps \<noteq> []" "v \<or> a"
  shows "\<exists>w' body. write_all httpflv_ops (map flv_format ps) 0 (new_httpflv_writer key uuid new_http_response v a) = Inr (0, w') \<and>
     hw_sent w' = response_head 13 True new_http_response # body \<and>
     (\<forall>xss k. concat xss = concat body \<longrightarrow> length (concat xss) < 2 ^ 32 - 5 \<longrightarrow>
        (\<exists>d'. input_pieces collect k xss new_flv_demuxer [] = Inr (FLV_RET_NEED_MORE, d', map (raw_packet k) ps) \<and> dm_buffer d' = []))"
proof -
  let ?w = "new_httpflv_writer key uuid new_http_response v a"
  obtain p qs where ps: "ps = p # qs" using assms(2) by (cases ps) auto
  obtain w1 m where w1: "hw_ready w1" "hw_sent w1 = [response_head 13 True new_http_response, mux_flv_header m]"
    "hw_write_packet (flv_format p) ?w = hw_write_packet (flv_format p) w1"
    using first_packet [OF assms(3) refl, of "flv_format p"] by blast
  have "write_all httpflv_ops (map flv_format ps) 0 ?w = write_all httpflv_ops (map flv_format ps) 0 w1"
    using w1(3) by (simp add: ps httpflv_ops_def)
  moreover obtain w' xs where w': "write_all httpflv_ops (map flv_format ps) 0 w1 = Inr (0, w')" "hw_sent w' = hw_sent w1 @ xs"
     "concat xs = concat (map (\<lambda>p. http_tag (flv_format p)) ps)"
    using write_all_ready [OF assms(1) w1(1)] by blast
  moreover have "list_all2 carries (map (\<lambda>p. http_tag (flv_format p)) ps) ps"
    using assms(1) http_tag_carries by (simp add: list_all2_map1 list_all2_same)
  from stream_round_trip [OF this, of _ m]
  have "\<exists>d'. input_pieces collect k xss new_flv_demuxer [] = Inr (FLV_RET_NEED_MORE, d', map (raw_packet k) ps) \<and> dm_buffer d' = []"
    if "concat xss = concat (mux_flv_header m # xs)" "length (concat xss) < 2 ^ 32 - 5" for xss k
    using that w'(3) by simp
  ultimately show ?thesis using w1(2) by (intro exI [of _ w'] exI [of _ "mux_flv_header m # xs"]) auto
qed

theorem httpflv_player_stream_witness:
  "\<exists>w' body. write_all httpflv_ops [flv_format (new_MEDIA_PACKET\<lparr>av_type := MEDIA_AUDIO_TYPE, codec_type := MEDIA_CODEC_AAC\<rparr>)] 0
       (new_httpflv_writer [1] [2] new_http_response True True) = Inr (0, w') \<and>
     hw_sent w' = response_head 13 True new_http_response # body"
  using httpflv_player_stream [of "[new_MEDIA_PACKET\<lparr>av_type := MEDIA_AUDIO_TYPE, codec_type := MEDIA_CODEC_AAC\<rparr>]" True True "[1]" "[2]"]
  by (auto simp: media_ok_def new_MEDIA_PACKET_def)

subsection \<open>The liveness check\<close>

definition resp_ok :: "httpflv_writer \<Rightarrow> bool" where
  "resp_ok w \<longleftrightarrow> resp_is_close (hw_resp w) \<or> resp_session (hw_resp w)"

text \<open>Every listed writer exists, is filed under its own id and can be closed.\<close>

definition listed_ok :: "(nat \<Rightarrow> httpflv_writer option) \<Rightarrow> (bytes \<times> nat) list \<Rightarrow> bool" where
  "listed_ok ws items \<longleftrightarrow> distinct_keys items \<and>
     (\<forall>(i, p) \<in> set items. \<exists>w. ws p = Some w \<and> hw_id w = i \<and> resp_ok w)"

definition expired :: "(nat \<Rightarrow> httpflv_writer option) \<Rightarrow> nat \<Rightarrow> bool" where
  "expired ws p \<longleftrightarrow> (\<exists>w. ws p = Some w \<and> \<not> fst (is_alive (hw_aliver w)))"

lemma close_writer_ok: "resp_ok w \<Longrightarrow> \<exists>w'. hw_close_writer w = Inr w'"
  by (auto simp: hw_close_writer_def response_close_def resp_ok_def)

lemma remove_player_total:
  "writers m p = Some w \<Longrightarrow> \<exists>m'. remove_player ops p m = Inr m'"
  by (auto simp: remove_player_def deref_def Let_def split: option.split)

lemma listed_tail:
  assumes "listed_ok ws ((i, p) # items)" "\<And>q. q \<noteq> p \<Longrightarrow> ws' q = ws q"
  shows "listed_ok ws' items" "p \<notin> snd ` set items"
proof -
  obtain w where "ws p = Some w" "hw_id w = i" using assms(1) by (auto simp: listed_ok_def)
  then show np: "p \<notin> snd ` set items" using assms(1) by (force simp: listed_ok_def)
  then have "\<forall>(j, q) \<in> set items. ws' q = ws q" using assms(2) by force
  then show "listed_ok ws' items" using assms(1) by (fastforce simp: listed_ok_def)
qed

lemma check_alive_step:
  assumes "ms_inv httpflv_ops (hf_manager s)" "listed_ok (writers (hf_manager s)) ((i, p) # items)"
  shows "\<exists>s1. check_alive_loop ((i, p) # items) s = check_alive_loop items s1 \<and> ms_inv httpflv_ops (hf_manager s1) \<and>
     (\<forall>q. q \<noteq> p \<longrightarrow> writers (hf_manager s1) q = writers (hf_manager s) q) \<and>
     (if expired (writers (hf_manager s)) p
      then writers (hf_manager s1) p = None \<and> httpflv_handle_map s1 = AList.delete i (httpflv_handle_map s)
      else writers (hf_manager s1) p \<noteq> None \<and> httpflv_handle_map s1 = httpflv_handle_map s)"
proof -
  obtain w where w: "writers (hf_manager s) p = Some w" "resp_ok w" using assms(2) by (auto simp: listed_ok_def)
  let ?w = "w\<lparr>hw_aliver := snd (is_alive (hw_aliver w))\<rparr>"
  let ?m = "(hf_manager s)\<lparr>writers := (writers (hf_manager s))(p \<mapsto> ?w)\<rparr>"
  have m: "ms_inv httpflv_ops ?m" by (rule ms_inv_writers [OF assms(1)]) (use w in \<open>auto simp: httpflv_ops_def\<close>)
  show ?thesis
  proof (cases "fst (is_alive (hw_aliver w))")
    case True
    then have "check_alive_loop ((i, p) # items) s = check_alive_loop items (s\<lparr>hf_manager := ?m\<rparr>)"
      using w by (auto simp: deref_def Let_def split: prod.splits)
    then show ?thesis using m w True by (intro exI [of _ "s\<lparr>hf_manager := ?m\<rparr>"]) (simp add: expired_def)
  next
    case False
    obtain m2 where m2: "remove_player httpflv_ops p ?m = Inr m2"
      using remove_player_total [of ?m p ?w] by auto
    have ws2: "writers m2 = writers ?m" by (rule remove_player_writers [OF m2])
    obtain w' where "hw_close_writer ?w = Inr w'" using close_writer_ok [of ?w] w(2) by (auto simp: resp_ok_def)
    then have "delete_writer p m2 = Inr (m2\<lparr>writers := (writers m2)(p := None)\<rparr>)"
      using ws2 by (simp add: delete_writer_def deref_def)
    then have "check_alive_loop ((i, p) # items) s = check_alive_loop items
        (s\<lparr>httpflv_handle_map := AList.delete i (httpflv_handle_map s), hf_manager := m2\<lparr>writers := (writers m2)(p := None)\<rparr>\<rparr>)"
      using w False m2 by (auto simp: deref_def Let_def split: prod.splits)
    then show ?thesis using delete_player_inv [OF m m2] ws2 w False by (fastforce simp: expired_def)
  qed
qed

lemma check_alive_ok:
  assumes "ms_inv httpflv_ops (hf_manager s)" "listed_ok (writers (hf_manager s)) items"
  shows "\<exists>s'. check_alive_loop items s = Inr s' \<and> ms_inv httpflv_ops (hf_manager s') \<and>
     (\<forall>(i, p) \<in> set items. writers (hf_manager s') p = None \<longleftrightarrow> expired (writers (hf_manager s)) p) \<and>
     (\<forall>q. q \<notin> snd ` set items \<longrightarrow> writers (hf_manager s') q = writers (hf_manager s) q) \<and>
     (\<forall>i. map_of (httpflv_handle_map s') i =
        (if \<exists>p. (i, p) \<in> set items \<and> expired (writers (hf_manager s)) p then None else map_of (httpflv_handle_map s) i))"
  using assms
proof (induction items arbitrary: s)
  case (Cons x items)
  obtain i p where x: "x = (i, p)" by (cases x)
  obtain s1 where s1: "check_alive_loop (x # items) s = check_alive_loop items s1" "ms_inv httpflv_ops (hf_manager s1)"
     "\<And>q. q \<noteq> p \<Longrightarrow> writers (hf_manager s1) q = writers (hf_manager s) q"
     "if expired (writers (hf_manager s)) p
      then writers (hf_manager s1) p = None \<and> httpflv_handle_map s1 = AList.delete i (httpflv_handle_map s)
      else writers (hf_manager s1) p \<noteq> None \<and> httpflv_handle_map s1 = httpflv_handle_map s"
    using check_alive_step [OF Cons.prems(1)] Cons.prems(2) x by blast
  note tail = listed_tail [OF Cons.prems(2) [unfolded x] s1(3)]
  have ex: "expired (writers (hf_manager s1)) q = expired (writers (hf_manager s)) q" if "q \<noteq> p" for q
    using s1(3) [OF that] by (simp add: expired_def)
  obtain s' where s': "check_alive_loop items s1 = Inr s'" "ms_inv httpflv_ops (hf_manager s')"
     "\<forall>(i, p) \<in> set items. writers (hf_manager s') p = None \<longleftrightarrow> expired (writers (hf_manager s1)) p"
     "\<And>q. q \<notin> snd ` set items \<Longrightarrow> writers (hf_manager s') q = writers (hf_manager s1) q"
     "\<And>i. map_of (httpflv_handle_map s') i =
        (if \<exists>p. (i, p) \<in> set items \<and> expired (writers (hf_manager s1)) p then None else map_of (httpflv_handle_map s1) i)"
    using Cons.IH [OF s1(2) tail(1)] by blast
  have items: "(j, q) \<in> set items \<Longrightarrow> q \<noteq> p" for j q using tail(2) by force
  have p: "writers (hf_manager s') p = None \<longleftrightarrow> expired (writers (hf_manager s)) p"
    using s'(4) [OF tail(2)] s1(4) by (auto split: if_splits)
  have "map_of (httpflv_handle_map s') j =
      (if \<exists>q. (j, q) \<in> set (x # items) \<and> expired (writers (hf_manager s)) q then None else map_of (httpflv_handle_map s) j)" for j
    using s'(5) [of j] s1(4) ex items x by (auto simp: um_simps split: if_splits)
  then show ?case using s1(1) s'(1-4) s1(3) ex items p x by (auto 0 3)
qed simp

text \<open>
  The periodic liveness check is memory-safe: when every listed writer exists and is filed
  under its own id, \<open>on_check_alive\<close> never uses a dangling writer. It destroys exactly the
  writers that expired, drops exactly those from the list and from the stream manager, and
  keeps the manager's invariant.
\<close>

theorem httpflv_check_alive_safe:
  assumes "ms_inv httpflv_ops (hf_manager s)" "listed_ok (writers (hf_manager s)) (httpflv_handle_map s)"
  shows "\<exists>s'. on_check_alive s = Inr s' \<and> ms_inv httpflv_ops (hf_manager s') \<and>
     (\<forall>(i, p) \<in> set (httpflv_handle_map s). writers (hf_manager s') p = None \<longleftrightarrow> expired (writers (hf_manager s)) p) \<and>
     (\<forall>i. map_of (httpflv_handle_map s') i =
        (if \<exists>p. (i, p) \<in> set (httpflv_handle_map s) \<and> expired (writers (hf_manager s)) p then None
         else map_of (httpflv_handle_map s) i))"
  using check_alive_ok [OF assms] unfolding on_check_alive_def by blast

theorem httpflv_check_alive_safe_witness:
  "\<exists>s'. on_check_alive \<lparr>httpflv_handle_map = [([1], 0)], hf_manager = \<lparr>media_streams_map = [],
      writers = [0 \<mapsto> (new_httpflv_writer [9] [1] new_http_response True True)\<lparr>hw_aliver := \<lparr>not_alive_cnt = 5, try_max = 4\<rparr>\<rparr>]\<rparr>\<rparr> = Inr s' \<and>
     writers (hf_manager s') 0 = None"
  using httpflv_check_alive_safe [of "\<lparr>httpflv_handle_map = [([1], 0)], hf_manager = \<lparr>media_streams_map = [],
      writers = [0 \<mapsto> (new_httpflv_writer [9] [1] new_http_response True True)\<lparr>hw_aliver := \<lparr>not_alive_cnt = 5, try_max = 4\<rparr>\<rparr>]\<rparr>\<rparr>"]
  by (fastforce simp: ms_inv_def listed_ok_def resp_ok_def new_httpflv_writer_def new_http_response_def expired_def is_alive_def)

end
