(* ===== verification/Chunk_Stream.thy ===== *)
theory Chunk_Stream
  imports Byte_Stream
begin

text \<open>
  RTMP chunk streams: \<open>src/net/rtmp/chunk_stream.cpp\<close>. The reader methods work on the session's
  receive buffer, which is an argument and a result here; the writer gives the buffers it
  passes to \<open>rtmp_send\<close>. Buffers are byte sequences.
\<close>

definition RTMP_OK :: int where "RTMP_OK = 0"
definition RTMP_NEED_READ_MORE :: int where "RTMP_NEED_READ_MORE = 1"
definition CHUNK_DEF_SIZE :: u32 where "CHUNK_DEF_SIZE = 128"

definition RTMP_CONTROL_SET_CHUNK_SIZE :: u8 where "RTMP_CONTROL_SET_CHUNK_SIZE = 1"
definition RTMP_CONTROL_ACK :: u8 where "RTMP_CONTROL_ACK = 3"
definition RTMP_CONTROL_USER_CTRL_MESSAGES :: u8 where "RTMP_CONTROL_USER_CTRL_MESSAGES = 4"
definition RTMP_CONTROL_WINDOW_ACK_SIZE :: u8 where "RTMP_CONTROL_WINDOW_ACK_SIZE = 5"
definition RTMP_CONTROL_SET_PEER_BANDWIDTH :: u8 where "RTMP_CONTROL_SET_PEER_BANDWIDTH = 6"
definition RTMP_MEDIA_PACKET_AUDIO :: u8 where "RTMP_MEDIA_PACKET_AUDIO = 8"
definition RTMP_MEDIA_PACKET_VIDEO :: u8 where "RTMP_MEDIA_PACKET_VIDEO = 9"
definition RTMP_COMMAND_MESSAGES_META_DATA3 :: u8 where "RTMP_COMMAND_MESSAGES_META_DATA3 = 15"
definition RTMP_COMMAND_MESSAGES_META_DATA0 :: u8 where "RTMP_COMMAND_MESSAGES_META_DATA0 = 18"
definition RTMP_COMMAND_MESSAGES_AMF0 :: u8 where "RTMP_COMMAND_MESSAGES_AMF0 = 20"

datatype CHUNK_STREAM_PHASE = CHUNK_STREAM_PHASE_HEADER | CHUNK_STREAM_PHASE_PAYLOAD

record chunk_stream =
  cs_timestamp_delta :: u32
  cs_timestamp32 :: u32
  cs_msg_len :: u32
  cs_type_id :: u8
  cs_msg_stream_id :: u32
  cs_remain :: int
  cs_require_len :: int
  cs_chunk_size :: u32
  cs_all :: bytes
  cs_data :: bytes
  cs_ext_ts_flag :: bool
  cs_fmt :: u8
  cs_csid :: u16
  cs_phase :: CHUNK_STREAM_PHASE
  cs_chunk_ready :: bool
  cs_msg_count :: int

definition new_chunk_stream :: "u8 \<Rightarrow> u16 \<Rightarrow> u32 \<Rightarrow> chunk_stream" where
  "new_chunk_stream fmt csid chunk_size = \<lparr>cs_timestamp_delta = 0, cs_timestamp32 = 0, cs_msg_len = 0, cs_type_id = 0,
     cs_msg_stream_id = 0, cs_remain = 0, cs_require_len = 0, cs_chunk_size = chunk_size, cs_all = [], cs_data = [],
     cs_ext_ts_flag = False, cs_fmt = fmt, cs_csid = csid, cs_phase = CHUNK_STREAM_PHASE_HEADER,
     cs_chunk_ready = False, cs_msg_count = 0\<rparr>"

subsection \<open>Writing\<close>

text \<open>\<open>None\<close> is the return of -1, which appends nothing.\<close>

definition basic_header :: "u8 \<Rightarrow> u16 \<Rightarrow> bytes option" where
  "basic_header fmt csid =
     (if uint csid < 64 then Some [push_bit 6 fmt OR (ucast csid AND 0x3f)]
      else if uint csid - 64 < 256 then Some [push_bit 6 fmt AND 0xc0, ucast csid]
      else if uint csid - 64 < 65536 then Some ([(push_bit 6 fmt AND 0xc0) OR 0x01] @ write_2bytes csid)
      else None)"

definition message_header :: "chunk_stream \<Rightarrow> bytes" where
  "message_header c =
     (if cs_fmt c = 0 then write_3bytes (cs_timestamp32 c) @ write_3bytes (cs_msg_len c) @ [cs_type_id c] @ write_4bytes (cs_msg_stream_id c)
      else if cs_fmt c = 1 then write_3bytes (cs_timestamp32 c) @ write_3bytes (cs_msg_len c) @ [cs_type_id c]
      else if cs_fmt c = 2 then write_3bytes (cs_timestamp32 c)
      else [])"

definition gen_data :: "bytes \<Rightarrow> chunk_stream \<Rightarrow> int \<times> chunk_stream" where
  "gen_data data c =
     (case basic_header (cs_fmt c) (cs_csid c) of
        None \<Rightarrow> (-1, c)
      | Some bh \<Rightarrow> (RTMP_OK, c\<lparr>cs_all := cs_all c @ bh @ message_header c @ data\<rparr>))"

definition gen_control_message :: "u8 \<Rightarrow> u32 \<Rightarrow> u32 \<Rightarrow> chunk_stream \<Rightarrow> int \<times> chunk_stream" where
  "gen_control_message ctrl_type sz val c =
     (let c1 = c\<lparr>cs_fmt := 0, cs_type_id := ctrl_type, cs_msg_stream_id := 0, cs_msg_len := sz\<rparr>;
          data = (if sz = 1 then Some [ucast val]
                  else if sz = 2 then Some (write_2bytes (ucast val))
                  else if sz = 3 then Some (write_3bytes val)
                  else if sz = 4 then Some (write_4bytes val)
                  else if sz = 5 then Some (write_4bytes val @ [2])
                  else None)
      in case data of None \<Rightarrow> (-1, c1) | Some d \<Rightarrow> (RTMP_OK, snd (gen_data d c1)))"

text \<open>The event of a user control message and the constant stream id 1.\<close>

definition gen_user_control :: "u8 \<Rightarrow> chunk_stream \<Rightarrow> int \<times> chunk_stream" where
  "gen_user_control event c =
     (let c1 = c\<lparr>cs_fmt := 0, cs_csid := 2, cs_type_id := RTMP_CONTROL_USER_CTRL_MESSAGES, cs_msg_stream_id := 1, cs_msg_len := 6\<rparr>;
          data = [0, event] @ map (\<lambda>i. drop_bit ((3 - i) * 8) 1) [0..<4]
      in (RTMP_OK, snd (gen_data data c1)))"

definition gen_set_recorded_message :: "chunk_stream \<Rightarrow> int \<times> chunk_stream" where
  "gen_set_recorded_message = gen_user_control 4"

definition gen_set_begin_message :: "chunk_stream \<Rightarrow> int \<times> chunk_stream" where
  "gen_set_begin_message = gen_user_control 0"

definition reset_chunk_stream :: "chunk_stream \<Rightarrow> chunk_stream" where
  "reset_chunk_stream c = c\<lparr>cs_phase := CHUNK_STREAM_PHASE_HEADER, cs_chunk_ready := False, cs_all := [], cs_data := []\<rparr>"

text \<open>
  \<open>write_data_by_chunk_stream\<close>, in both of its overloads: one chunk per index, the first with
  format 0 and the others with format 3; the result is the list of buffers sent.
\<close>

definition chunk_at :: "nat \<Rightarrow> nat \<Rightarrow> u16 \<Rightarrow> u32 \<Rightarrow> u8 \<Rightarrow> u32 \<Rightarrow> u32 \<Rightarrow> bytes \<Rightarrow> bytes cxx" where
  "chunk_at index cs_count csid timestamp type_id msg_stream_id chunk_size input =
     (let sz = unat chunk_size;
          off = index * sz mod 2 ^ 32;
          len = (if index = cs_count - 1 then if 0 < length input mod sz then length input mod sz else sz else sz)
      in cxx_bind (mem_read input off len) (\<lambda>data.
         let c = (new_chunk_stream (if index = 0 then 0 else 3) csid chunk_size)
               \<lparr>cs_timestamp32 := timestamp, cs_msg_len := of_nat (length input), cs_type_id := type_id,
                cs_msg_stream_id := msg_stream_id\<rparr>
         in Inr (cs_all (snd (gen_data data c)))))"

fun chunk_loop :: "(nat \<Rightarrow> bytes cxx) \<Rightarrow> nat list \<Rightarrow> bytes list cxx" where
  "chunk_loop f [] = Inr []"
| "chunk_loop f (i # is) = cxx_bind (f i) (\<lambda>b. cxx_bind (chunk_loop f is) (\<lambda>bs. Inr (b # bs)))"

definition write_data_by_chunk_stream :: "u16 \<Rightarrow> u32 \<Rightarrow> u8 \<Rightarrow> u32 \<Rightarrow> u32 \<Rightarrow> bytes \<Rightarrow> bytes list cxx" where
  "write_data_by_chunk_stream csid timestamp type_id msg_stream_id chunk_size input =
     (if chunk_size = 0 then Inl DivByZero
      else
        let sz = unat chunk_size;
            cs_count = length input div sz + (if 0 < length input mod sz then 1 else 0)
        in chunk_loop (\<lambda>i. chunk_at i cs_count csid timestamp type_id msg_stream_id chunk_size input) [0..<cs_count])"

subsection \<open>Reading\<close>

text \<open>A reader gives its return code, the receive buffer and the chunk stream.\<close>

definition ext_timestamp :: "bool \<Rightarrow> nat \<Rightarrow> bytes \<Rightarrow> u32 \<Rightarrow> (u32 \<times> bytes) cxx" where
  "ext_timestamp ext hlen buf ts =
     (if ext then cxx_bind (read_4bytes (drop hlen buf)) (\<lambda>t. Inr (t, drop 4 (drop hlen buf))) else Inr (ts, drop hlen buf))"

definition read_msg_format0 :: "u8 \<Rightarrow> u16 \<Rightarrow> bytes \<Rightarrow> chunk_stream \<Rightarrow> (int \<times> bytes \<times> chunk_stream) cxx" where
  "read_msg_format0 input_fmt input_csid buf c =
     (if length buf < 11 then Inr (RTMP_NEED_READ_MORE, buf, c)
      else
        cxx_bind (read_3bytes buf) (\<lambda>ts.
        let c1 = c\<lparr>cs_fmt := input_fmt, cs_csid := input_csid, cs_ext_ts_flag := cs_ext_ts_flag c \<or> 0xffffff \<le> ts\<rparr> in
        if 0xffffff \<le> ts \<and> length buf < 11 + 4 then Inr (RTMP_NEED_READ_MORE, buf, c1)
        else
          cxx_bind (read_3bytes (drop 3 buf)) (\<lambda>msg_len.
          cxx_bind (mem_at buf 6) (\<lambda>type_id.
          cxx_bind (read_4bytes (drop 7 buf)) (\<lambda>msg_stream_id.
          cxx_bind (ext_timestamp (0xffffff \<le> ts) 11 buf ts) (\<lambda>(ts', buf').
          Inr (RTMP_OK, buf', c1\<lparr>cs_timestamp32 := ts', cs_timestamp_delta := 0, cs_msg_len := msg_len,
             cs_type_id := type_id, cs_msg_stream_id := msg_stream_id, cs_remain := uint msg_len\<rparr>)))))))"

definition read_msg_format1 :: "u8 \<Rightarrow> u16 \<Rightarrow> bytes \<Rightarrow> chunk_stream \<Rightarrow> (int \<times> bytes \<times> chunk_stream) cxx" where
  "read_msg_format1 input_fmt input_csid buf c =
     (if length buf < 7 then Inr (RTMP_NEED_READ_MORE, buf, c)
      else
        cxx_bind (read_3bytes buf) (\<lambda>ts.
        let c1 = c\<lparr>cs_fmt := input_fmt, cs_csid := input_csid, cs_ext_ts_flag := cs_ext_ts_flag c \<or> 0xffffff \<le> ts\<rparr> in
        if 0xffffff \<le> ts \<and> length buf < 7 + 4 then Inr (RTMP_NEED_READ_MORE, buf, c1)
        else
          cxx_bind (read_3bytes (drop 3 buf)) (\<lambda>msg_len.
          cxx_bind (mem_at buf 6) (\<lambda>type_id.
          cxx_bind (ext_timestamp (0xffffff \<le> ts) 7 buf ts) (\<lambda>(ts', buf').
          Inr (RTMP_OK, buf', c1\<lparr>cs_timestamp_delta := ts', cs_timestamp32 := cs_timestamp32 c + ts', cs_msg_len := msg_len,
             cs_type_id := type_id, cs_remain := uint msg_len\<rparr>))))))"

definition read_msg_format2 :: "u8 \<Rightarrow> u16 \<Rightarrow> bytes \<Rightarrow> chunk_stream \<Rightarrow> (int \<times> bytes \<times> chunk_stream) cxx" where
  "read_msg_format2 input_fmt input_csid buf c =
     (if length buf < 3 then Inr (RTMP_NEED_READ_MORE, buf, c)
      else
        cxx_bind (read_3bytes buf) (\<lambda>ts.
        let c1 = c\<lparr>cs_fmt := input_fmt, cs_csid := input_csid, cs_ext_ts_flag := cs_ext_ts_flag c \<or> 0xffffff \<le> ts\<rparr> in
        if 0xffffff \<le> ts \<and> length buf < 3 + 4 then Inr (RTMP_NEED_READ_MORE, buf, c1)
        else
          cxx_bind (ext_timestamp (0xffffff \<le> ts) 3 buf ts) (\<lambda>(ts', buf').
          Inr (RTMP_OK, buf', c1\<lparr>cs_timestamp_delta := ts', cs_timestamp32 := cs_timestamp32 c + ts',
             cs_remain := uint (cs_msg_len c)\<rparr>))))"

text \<open>A new message that repeats the last header; the old format decides about the timestamp.\<close>

definition start_message :: "u32 \<Rightarrow> chunk_stream \<Rightarrow> chunk_stream" where
  "start_message ts c = c\<lparr>cs_timestamp32 := ts, cs_all := [], cs_data := [], cs_remain := uint (cs_msg_len c), cs_chunk_ready := False\<rparr>"

definition read_msg_format3 :: "u8 \<Rightarrow> u16 \<Rightarrow> bytes \<Rightarrow> chunk_stream \<Rightarrow> (int \<times> bytes \<times> chunk_stream) cxx" where
  "read_msg_format3 input_fmt input_csid buf c =
     (if cs_ext_ts_flag c \<and> (cs_remain c \<noteq> 0 \<or> cs_fmt c = 0 \<or> cs_fmt c = 1 \<or> cs_fmt c = 2) \<and> length buf < 4
      then Inr (RTMP_NEED_READ_MORE, buf, c)
      else if cs_remain c = 0 then
        if cs_fmt c = 0 then
          cxx_bind (ext_timestamp (cs_ext_ts_flag c) 0 buf (cs_timestamp32 c)) (\<lambda>(ts, buf').
          Inr (RTMP_OK, buf', (start_message ts c)\<lparr>cs_fmt := input_fmt, cs_csid := input_csid\<rparr>))
        else if cs_fmt c = 1 \<or> cs_fmt c = 2 then
          cxx_bind (ext_timestamp (cs_ext_ts_flag c) 0 buf (cs_timestamp_delta c)) (\<lambda>(ts_delta, buf').
          Inr (RTMP_OK, buf', (start_message (cs_timestamp32 c + ts_delta) c)\<lparr>cs_fmt := input_fmt, cs_csid := input_csid\<rparr>))
        else Inr (RTMP_OK, buf, (start_message (cs_timestamp32 c) c)\<lparr>cs_fmt := input_fmt, cs_csid := input_csid\<rparr>)
      else if cs_ext_ts_flag c then
        cxx_bind (read_4bytes buf) (\<lambda>ts.
        Inr (RTMP_OK, if ts = cs_timestamp32 c then drop 4 buf else buf, c\<lparr>cs_fmt := input_fmt, cs_csid := input_csid\<rparr>))
      else Inr (RTMP_OK, buf, c\<lparr>cs_fmt := input_fmt, cs_csid := input_csid\<rparr>))"

definition read_message_header :: "u8 \<Rightarrow> u16 \<Rightarrow> bytes \<Rightarrow> chunk_stream \<Rightarrow> (int \<times> bytes \<times> chunk_stream) cxx" where
  "read_message_header input_fmt input_csid buf c =
     (if cs_phase c \<noteq> CHUNK_STREAM_PHASE_HEADER then Inr (RTMP_OK, buf, c)
      else
        cxx_bind
          (if input_fmt = 0 then read_msg_format0 input_fmt input_csid buf c
           else if input_fmt = 1 then read_msg_format1 input_fmt input_csid buf c
           else if input_fmt = 2 then read_msg_format2 input_fmt input_csid buf c
           else if input_fmt = 3 then read_msg_format3 input_fmt input_csid buf c
           else Inl AssertFail)
          (\<lambda>(ret, buf', c'). Inr (ret, buf', if ret \<noteq> RTMP_OK then c' else c'\<lparr>cs_phase := CHUNK_STREAM_PHASE_PAYLOAD\<rparr>)))"

definition read_message_payload :: "bytes \<Rightarrow> chunk_stream \<Rightarrow> (int \<times> bytes \<times> chunk_stream) cxx" where
  "read_message_payload buf c =
     (if cs_phase c \<noteq> CHUNK_STREAM_PHASE_PAYLOAD then Inr (RTMP_OK, buf, c)
      else
        let require_len = (if uint (cs_chunk_size c) < cs_remain c then uint (cs_chunk_size c) else cs_remain c);
            c1 = c\<lparr>cs_require_len := require_len\<rparr> in
        if length buf < nat require_len then Inr (RTMP_NEED_READ_MORE, buf, c1)
        else
          cxx_bind (mem_read buf 0 (nat require_len)) (\<lambda>data.
          let remain = cs_remain c - require_len in
          Inr (RTMP_OK, drop (nat require_len) buf,
            c1\<lparr>cs_data := cs_data c @ data, cs_remain := remain, cs_msg_count := cs_msg_count c + 1,
               cs_chunk_ready := cs_chunk_ready c \<or> remain \<le> 0, cs_phase := CHUNK_STREAM_PHASE_HEADER\<rparr>)))"

end
