(* ===== verification/Rtmp_Session.thy ===== *)
theory Rtmp_Session
  imports Chunk_Stream Flv
begin

text \<open>
  The part of an RTMP session that server and client share,
  \<open>src/net/rtmp/rtmp_session_base.cpp\<close>: the basic header, the map of chunk streams and the
  media packet of a complete message. The map is keyed by \<open>uint8_t\<close>, as in the code.
\<close>

record rtmp_request =
  rq_publish_flag :: bool
  rq_is_ready :: bool
  rq_app :: bytes
  rq_tcurl :: bytes
  rq_flash_ver :: bytes
  rq_stream_name :: bytes
  rq_key :: bytes
  rq_transaction_id :: int
  rq_stream_id :: u32

definition new_rtmp_request :: rtmp_request where
  "new_rtmp_request = \<lparr>rq_publish_flag = False, rq_is_ready = False, rq_app = [], rq_tcurl = [], rq_flash_ver = [],
     rq_stream_name = [], rq_key = [], rq_transaction_id = 1, rq_stream_id = 0\<rparr>"

datatype RTMP_SERVER_SESSION_PHASE =
    initial_phase | handshake_c2_phase | connect_phase | create_stream_phase | create_publish_play_phase | media_handle_phase

datatype RTMP_CLIENT_SESSION_PHASE =
    client_initial_phase | client_c0c1_phase | client_connect_phase | client_connect_resp_phase | client_create_stream_phase
  | client_create_stream_resp_phase | client_create_play_phase | client_create_publish_phase | client_media_handle_phase

record rtmp_session_base =
  recv_buffer :: bytes
  fmt_ready :: bool
  ss_fmt :: u8
  ss_csid :: u16
  cs_map :: "(u8 \<times> chunk_stream) list"
  remote_window_acksize :: u32
  ack_received :: u32
  ss_req :: rtmp_request
  ss_stream_id :: u32
  server_phase :: RTMP_SERVER_SESSION_PHASE
  client_phase :: RTMP_CLIENT_SESSION_PHASE
  ss_chunk_size :: u32

definition new_rtmp_session_base :: rtmp_session_base where
  "new_rtmp_session_base = \<lparr>recv_buffer = [], fmt_ready = False, ss_fmt = 0, ss_csid = 0, cs_map = [],
     remote_window_acksize = 2500000, ack_received = 0, ss_req = new_rtmp_request, ss_stream_id = 1,
     server_phase = initial_phase, client_phase = client_initial_phase, ss_chunk_size = CHUNK_DEF_SIZE\<rparr>"

definition set_chunk_size :: "u32 \<Rightarrow> rtmp_session_base \<Rightarrow> rtmp_session_base" where
  "set_chunk_size n s = s\<lparr>ss_chunk_size := n\<rparr>"

definition get_chunk_size :: "rtmp_session_base \<Rightarrow> u32" where
  "get_chunk_size s = ss_chunk_size s"

definition is_publish :: "rtmp_session_base \<Rightarrow> bool" where
  "is_publish s = rq_publish_flag (ss_req s)"

definition read_fmt_csid :: "rtmp_session_base \<Rightarrow> int \<times> rtmp_session_base" where
  "read_fmt_csid s =
     (case recv_buffer s of
        [] \<Rightarrow> (RTMP_NEED_READ_MORE, s)
      | b # buf \<Rightarrow>
          let s1 = s\<lparr>ss_fmt := drop_bit 6 b AND 0x3, ss_csid := ucast (b AND 0x3f), recv_buffer := buf\<rparr> in
          if ss_csid s1 = 0 then
            (case buf of
               [] \<Rightarrow> (RTMP_NEED_READ_MORE, s1)
             | b1 # buf1 \<Rightarrow> (RTMP_OK, s1\<lparr>ss_csid := 64 + ucast b1, recv_buffer := buf1\<rparr>))
          else if ss_csid s1 = 1 then
            (case buf of
               b1 # b2 # buf2 \<Rightarrow> (RTMP_OK, s1\<lparr>ss_csid := 64 + ucast b1 + ucast b2, recv_buffer := buf2\<rparr>)
             | _ \<Rightarrow> (RTMP_NEED_READ_MORE, s1))
          else (RTMP_OK, s1))"

text \<open>
  \<open>read_chunk_stream\<close> gives its return code, the session and the key under which the chunk
  stream it worked on is in the map (\<open>None\<close> when it returns before there is one).
\<close>

definition cs_key :: "rtmp_session_base \<Rightarrow> u8" where
  "cs_key s = ucast (ss_csid s)"

definition find_chunk_stream :: "rtmp_session_base \<Rightarrow> chunk_stream" where
  "find_chunk_stream s =
     (case map_of (cs_map s) (cs_key s) of
        None \<Rightarrow> new_chunk_stream (ss_fmt s) (ss_csid s) (ss_chunk_size s)
      | Some c \<Rightarrow> c)"

definition put_chunk_stream :: "bytes \<Rightarrow> chunk_stream \<Rightarrow> rtmp_session_base \<Rightarrow> rtmp_session_base" where
  "put_chunk_stream buf c s = s\<lparr>recv_buffer := buf, cs_map := AList.update (cs_key s) c (cs_map s)\<rparr>"

definition read_body :: "rtmp_session_base \<Rightarrow> (int \<times> rtmp_session_base \<times> u8 option) cxx" where
  "read_body s =
     cxx_bind (read_message_header (ss_fmt s) (ss_csid s) (recv_buffer s) (find_chunk_stream s)) (\<lambda>(ret, buf, c).
     if ret < RTMP_OK \<or> ret = RTMP_NEED_READ_MORE then Inr (ret, put_chunk_stream buf c s, Some (cs_key s))
     else
       cxx_bind (read_message_payload buf c) (\<lambda>(ret2, buf2, c2).
       let s2 = put_chunk_stream buf2 c2 s in
       Inr (ret2, if ret2 = RTMP_OK then s2\<lparr>fmt_ready := False\<rparr> else s2, Some (cs_key s))))"

definition read_chunk_stream :: "rtmp_session_base \<Rightarrow> (int \<times> rtmp_session_base \<times> u8 option) cxx" where
  "read_chunk_stream s =
     (if \<not> fmt_ready s then
        let (ret, s1) = read_fmt_csid s in
        if ret \<noteq> 0 then Inr (ret, s1, None) else read_body (s1\<lparr>fmt_ready := True\<rparr>)
      else read_body s)"

text \<open>\<open>get_media_packet\<close>; \<open>None\<close> is the null pointer it returns for less than two bytes.\<close>

definition media_video :: "bytes \<Rightarrow> MEDIA_PACKET \<Rightarrow> ((MEDIA_PACKET \<times> u32) + MEDIA_PACKET) cxx" where
  "media_video p pkt =
     cxx_bind (mem_at p 0) (\<lambda>p0.
     case video_codec p0 of None \<Rightarrow> Inl AssertFail
     | Some codec \<Rightarrow>
         let pkt1 = pkt\<lparr>av_type := MEDIA_VIDEO_TYPE, codec_type := codec\<rparr>;
             frame_type = p0 AND 0xf0 in
         cxx_bind (mem_at p 1) (\<lambda>nalu_type.
         if frame_type = FLV_VIDEO_KEY_FLAG \<and> nalu_type \<noteq> FLV_VIDEO_AVC_SEQHDR \<and> nalu_type \<noteq> FLV_VIDEO_AVC_NALU
         then Inr (Inr pkt1)
         else
           let pkt2 = (if frame_type = FLV_VIDEO_KEY_FLAG then
                         if nalu_type = FLV_VIDEO_AVC_SEQHDR then pkt1\<lparr>is_seq_hdr := True\<rparr> else pkt1\<lparr>is_key_frame := True\<rparr>
                       else pkt1) in
           cxx_bind (read_3bytes (drop 2 p)) (\<lambda>ts_delta. Inr (Inl (pkt2, ts_delta)))))"

definition media_audio :: "bytes \<Rightarrow> MEDIA_PACKET \<Rightarrow> (MEDIA_PACKET \<times> u32) cxx" where
  "media_audio p pkt =
     cxx_bind (mem_at p 0) (\<lambda>p0.
     case audio_codec p0 of None \<Rightarrow> Inl AssertFail
     | Some codec \<Rightarrow>
         cxx_bind (mem_at p 1) (\<lambda>p1.
         Inr (pkt\<lparr>av_type := MEDIA_AUDIO_TYPE, codec_type := codec, is_seq_hdr := (p1 = 0)\<rparr>, 0)))"

definition get_media_packet :: "rtmp_request \<Rightarrow> chunk_stream \<Rightarrow> MEDIA_PACKET option cxx" where
  "get_media_packet req c =
     (if length (cs_data c) < 2 then Inr None
      else
        let p = cs_data c;
            pkt = new_MEDIA_PACKET\<lparr>pkt_typeid := cs_type_id c, fmt_type := MEDIA_FORMAT_RAW\<rparr>;
            finish = (\<lambda>pkt1 ts_delta. pkt1\<lparr>dts := uint (cs_timestamp32 c), pts := uint (cs_timestamp32 c) + uint (ts_delta :: u32),
               pkt_buffer := p, pkt_app := rq_app req, pkt_streamname := rq_stream_name req, pkt_key := rq_key req,
               pkt_streamid := cs_msg_stream_id c\<rparr>) in
        if cs_type_id c = RTMP_MEDIA_PACKET_VIDEO then
          cxx_bind (media_video p pkt) (\<lambda>r. case r of Inr pkt1 \<Rightarrow> Inr (Some pkt1) | Inl (pkt1, d) \<Rightarrow> Inr (Some (finish pkt1 d)))
        else if cs_type_id c = RTMP_MEDIA_PACKET_AUDIO then
          cxx_bind (media_audio p pkt) (\<lambda>(pkt1, d). Inr (Some (finish pkt1 d)))
        else if cs_type_id c = RTMP_COMMAND_MESSAGES_META_DATA0 \<or> cs_type_id c = RTMP_COMMAND_MESSAGES_META_DATA3 then
          Inr (Some (finish (pkt\<lparr>av_type := MEDIA_METADATA_TYPE\<rparr>) 0))
        else Inl AssertFail)"

subsection \<open>The read loop\<close>

text \<open>
  The head of the loop of \<open>receive_chunk_stream\<close> (server and client sessions): read chunks
  until one completes a message or more input is needed. It ends because a chunk that is read
  completely takes at least its basic header out of the buffer.
\<close>

definition ss_measure :: "rtmp_session_base \<Rightarrow> nat" where
  "ss_measure s = 2 * length (recv_buffer s) + (if fmt_ready s then 1 else 0)"

lemma read_fmt_csid_consumes:
  "read_fmt_csid s = (r, s1) \<Longrightarrow> r = RTMP_OK \<Longrightarrow> length (recv_buffer s1) < length (recv_buffer s)"
  by (auto simp: read_fmt_csid_def RTMP_OK_def RTMP_NEED_READ_MORE_def Let_def split: list.splits if_splits)

lemma ext_timestamp_length: "ext_timestamp e n buf ts = Inr (t, buf') \<Longrightarrow> length buf' \<le> length buf"
  by (auto simp: ext_timestamp_def cxx_bind_Inr_iff split: if_splits)

lemma read_format_length:
  "read_msg_format0 f i buf c = Inr (r, buf', c') \<Longrightarrow> length buf' \<le> length buf"
  "read_msg_format1 f i buf c = Inr (r, buf', c') \<Longrightarrow> length buf' \<le> length buf"
  "read_msg_format2 f i buf c = Inr (r, buf', c') \<Longrightarrow> length buf' \<le> length buf"
  "read_msg_format3 f i buf c = Inr (r, buf', c') \<Longrightarrow> length buf' \<le> length buf"
  by (auto simp: read_msg_format0_def read_msg_format1_def read_msg_format2_def read_msg_format3_def cxx_bind_Inr_iff Let_def
    dest: ext_timestamp_length split: if_splits)

lemma read_header_length: "read_message_header f i buf c = Inr (r, buf', c') \<Longrightarrow> length buf' \<le> length buf"
  by (auto simp: read_message_header_def cxx_bind_Inr_iff dest: read_format_length split: if_splits)

lemma read_payload_length: "read_message_payload buf c = Inr (r, buf', c') \<Longrightarrow> length buf' \<le> length buf"
  by (auto simp: read_message_payload_def cxx_bind_Inr_iff Let_def split: if_splits)

lemma put_simps [simp]:
  "recv_buffer (put_chunk_stream buf c s) = buf" "fmt_ready (put_chunk_stream buf c s) = fmt_ready s"
  "cs_map (put_chunk_stream buf c s) = AList.update (cs_key s) c (cs_map s)" "ss_csid (put_chunk_stream buf c s) = ss_csid s"
  "ss_fmt (put_chunk_stream buf c s) = ss_fmt s" "ss_chunk_size (put_chunk_stream buf c s) = ss_chunk_size s"
  by (simp_all add: put_chunk_stream_def)

lemma read_body_cases:
  assumes "read_body s = Inr (r, s', k)"
  obtains buf c where "read_message_header (ss_fmt s) (ss_csid s) (recv_buffer s) (find_chunk_stream s) = Inr (r, buf, c)"
      "r < RTMP_OK \<or> r = RTMP_NEED_READ_MORE" "s' = put_chunk_stream buf c s" "k = Some (cs_key s)"
  | r1 buf c buf2 c2 where
      "read_message_header (ss_fmt s) (ss_csid s) (recv_buffer s) (find_chunk_stream s) = Inr (r1, buf, c)"
      "\<not> (r1 < RTMP_OK \<or> r1 = RTMP_NEED_READ_MORE)" "read_message_payload buf c = Inr (r, buf2, c2)"
      "s' = (if r = RTMP_OK then (put_chunk_stream buf2 c2 s)\<lparr>fmt_ready := False\<rparr> else put_chunk_stream buf2 c2 s)"
      "k = Some (cs_key s)"
proof -
  obtain r1 buf c where h: "read_message_header (ss_fmt s) (ss_csid s) (recv_buffer s) (find_chunk_stream s) = Inr (r1, buf, c)"
    using assms by (auto simp: read_body_def cxx_bind_Inr_iff)
  show ?thesis
  proof (cases "r1 < RTMP_OK \<or> r1 = RTMP_NEED_READ_MORE")
    case True
    with assms h have "r = r1" "s' = put_chunk_stream buf c s" "k = Some (cs_key s)" by (simp_all add: read_body_def)
    with h True show ?thesis using that(1) by simp
  next
    case False
    with assms h obtain buf2 c2 where p: "read_message_payload buf c = Inr (r, buf2, c2)"
      "s' = (if r = RTMP_OK then (put_chunk_stream buf2 c2 s)\<lparr>fmt_ready := False\<rparr> else put_chunk_stream buf2 c2 s)"
      "k = Some (cs_key s)"
      by (simp add: read_body_def cxx_bind_Inr_iff Let_def) (elim exE conjE, simp)
    from h False p show ?thesis by (rule that(2))
  qed
qed

lemma read_body_measure:
  assumes "read_body s = Inr (r, s', k)" "r = RTMP_OK"
  shows "\<not> fmt_ready s' \<and> length (recv_buffer s') \<le> length (recv_buffer s)"
  using assms(1)
proof (cases rule: read_body_cases)
  case (2 r1 buf c buf2 c2)
  then show ?thesis using assms(2) read_header_length [OF 2(1)] read_payload_length [OF 2(3)] by simp
qed (use assms(2) in \<open>auto simp: RTMP_OK_def RTMP_NEED_READ_MORE_def\<close>)

lemma read_chunk_stream_measure:
  assumes "read_chunk_stream s = Inr (r, s', k)" "r = RTMP_OK" shows "ss_measure s' < ss_measure s"
proof (cases "fmt_ready s")
  case True
  then show ?thesis using assms read_body_measure [of s r s' k] by (simp add: read_chunk_stream_def ss_measure_def)
next
  case False
  obtain r1 s1 where h: "read_fmt_csid s = (r1, s1)" by (cases "read_fmt_csid s")
  with False assms have "r1 = RTMP_OK" "read_body (s1\<lparr>fmt_ready := True\<rparr>) = Inr (r, s', k)"
    by (auto simp: read_chunk_stream_def RTMP_OK_def split: if_splits)
  with read_fmt_csid_consumes [OF h] read_body_measure [of "s1\<lparr>fmt_ready := True\<rparr>" r s' k] assms(2) False
  show ?thesis by (simp add: ss_measure_def)
qed

definition cs_is_ready :: "rtmp_session_base \<Rightarrow> u8 option \<Rightarrow> bool" where
  "cs_is_ready s k = (case k of None \<Rightarrow> False | Some k \<Rightarrow>
     (case map_of (cs_map s) k of None \<Rightarrow> False | Some c \<Rightarrow> cs_chunk_ready c))"

function read_loop :: "rtmp_session_base \<Rightarrow> (int \<times> rtmp_session_base \<times> u8 option) cxx" where
  "read_loop s =
     cxx_bind (read_chunk_stream s) (\<lambda>(ret, s', k).
     if ret \<noteq> RTMP_OK then Inr (ret, s', k)
     else if \<not> cs_is_ready s' k then
       if recv_buffer s' \<noteq> [] then read_loop s' else Inr (RTMP_NEED_READ_MORE, s', k)
     else Inr (RTMP_OK, s', k))"
  by pat_completeness auto
termination
  by (relation "measure ss_measure") (auto dest: read_chunk_stream_measure)

declare read_loop.simps [simp del]

subsection \<open>Reading never goes out of bounds\<close>

lemma ext_timestamp_ok [ok_intros]: "(e \<Longrightarrow> n + 4 \<le> length buf) \<Longrightarrow> cxx_ok (ext_timestamp e n buf ts)"
  unfolding ext_timestamp_def by (intro ok_intros) auto

lemma read_format_ok [ok_intros]:
  "cxx_ok (read_msg_format0 f i buf c)" "cxx_ok (read_msg_format1 f i buf c)"
  "cxx_ok (read_msg_format2 f i buf c)" "cxx_ok (read_msg_format3 f i buf c)"
  unfolding read_msg_format0_def read_msg_format1_def read_msg_format2_def read_msg_format3_def Let_def
  by (intro ok_intros; auto)+

lemma read_header_ok [ok_intros]: "uint f < 4 \<Longrightarrow> cxx_ok (read_message_header f i buf c)"
proof -
  assume "uint f < 4"
  moreover have "0 \<le> uint f" by simp
  ultimately have "uint f = 0 \<or> uint f = 1 \<or> uint f = 2 \<or> uint f = 3" by linarith
  then have "f = 0 \<or> f = 1 \<or> f = 2 \<or> f = 3" by (metis word_of_int_uint of_int_0 of_int_1 of_int_numeral)
  then show ?thesis unfolding read_message_header_def by (intro ok_intros) auto
qed

lemma read_payload_ok [ok_intros]: "cxx_ok (read_message_payload buf c)"
  unfolding read_message_payload_def Let_def by (intro ok_intros) auto

text \<open>The stored format is always two bits.\<close>

lemma uint_and_3: "uint (x AND 3 :: u8) < 4"
proof -
  have "int (unat (x AND 3)) < 4" by (simp only: unat_and_3)
  then show ?thesis by simp
qed

lemma read_fmt_csid_fmt: "read_fmt_csid s = (r, s1) \<Longrightarrow> r = RTMP_OK \<Longrightarrow> uint (ss_fmt s1) < 4"
  by (auto simp: read_fmt_csid_def RTMP_OK_def RTMP_NEED_READ_MORE_def Let_def uint_and_3 split: list.splits if_splits)

definition ss_inv :: "rtmp_session_base \<Rightarrow> bool" where
  "ss_inv s \<longleftrightarrow> (fmt_ready s \<longrightarrow> uint (ss_fmt s) < 4)"

lemma read_body_ok: "uint (ss_fmt s) < 4 \<Longrightarrow> cxx_ok (read_body s)"
  unfolding read_body_def Let_def by (intro ok_intros) auto

lemma read_chunk_stream_ok: "ss_inv s \<Longrightarrow> cxx_ok (read_chunk_stream s)"
  unfolding read_chunk_stream_def Let_def
  by (intro ok_intros read_body_ok) (auto simp: ss_inv_def RTMP_OK_def dest: read_fmt_csid_fmt)

lemma read_body_inv: "read_body s = Inr (r, s', k) \<Longrightarrow> uint (ss_fmt s) < 4 \<Longrightarrow> ss_inv s'"
  by (erule read_body_cases) (auto simp: ss_inv_def)

lemma read_chunk_stream_inv:
  assumes "read_chunk_stream s = Inr (r, s', k)" "ss_inv s" shows "ss_inv s'"
proof (cases "fmt_ready s")
  case True
  with assms read_body_inv show ?thesis by (auto simp: read_chunk_stream_def ss_inv_def)
next
  case False
  obtain r1 s1 where h: "read_fmt_csid s = (r1, s1)" by (cases "read_fmt_csid s")
  have nf: "\<not> fmt_ready s1" using h False by (auto simp: read_fmt_csid_def Let_def split: list.splits if_splits)
  show ?thesis
  proof (cases "r1 = RTMP_OK")
    case True
    with False h assms(1) have "read_body (s1\<lparr>fmt_ready := True\<rparr>) = Inr (r, s', k)" by (simp add: read_chunk_stream_def RTMP_OK_def)
    with read_body_inv read_fmt_csid_fmt [OF h True] show ?thesis by fastforce
  next
    case r1: False
    with False h assms(1) have "s' = s1" by (simp add: read_chunk_stream_def RTMP_OK_def)
    with nf show ?thesis by (simp add: ss_inv_def)
  qed
qed

lemma read_loop_ok: "ss_inv s \<Longrightarrow> \<exists>r s' k. read_loop s = Inr (r, s', k) \<and> ss_inv s'"
proof (induction s rule: read_loop.induct)
  case (1 s)
  obtain r s' k where h: "read_chunk_stream s = Inr (r, s', k)" using cxx_okD [OF read_chunk_stream_ok [OF 1(2)]] by auto
  note inv = read_chunk_stream_inv [OF h 1(2)]
  show ?case using 1(1) [OF h refl refl] inv h by (subst read_loop.simps) auto
qed

text \<open>Any sequence of network reads.\<close>

fun receive_pieces :: "bytes list \<Rightarrow> rtmp_session_base \<Rightarrow> (int list \<times> rtmp_session_base) cxx" where
  "receive_pieces [] s = Inr ([], s)"
| "receive_pieces (xs # xss) s =
     cxx_bind (read_loop (s\<lparr>recv_buffer := recv_buffer s @ xs\<rparr>)) (\<lambda>(r, s', k).
     cxx_bind (receive_pieces xss s') (\<lambda>(rs, s''). Inr (r # rs, s'')))"

text \<open>
  C7. The chunk reader is memory-safe and always returns: from a new session, whatever bytes
  arrive, in whatever pieces, the read loop terminates, never reads outside the received
  bytes and never fails an assertion.
\<close>

theorem rtmp_reader_safe: "\<exists>rs s'. receive_pieces xss new_rtmp_session_base = Inr (rs, s') \<and> length rs = length xss"
proof -
  have "\<exists>rs s'. receive_pieces xss s = Inr (rs, s') \<and> length rs = length xss" if "ss_inv s" for s
    using that
  proof (induction xss arbitrary: s)
    case (Cons xs xss)
    have "ss_inv (s\<lparr>recv_buffer := recv_buffer s @ xs\<rparr>)" using Cons.prems by (simp add: ss_inv_def)
    from read_loop_ok [OF this] obtain r s' k where
      "read_loop (s\<lparr>recv_buffer := recv_buffer s @ xs\<rparr>) = Inr (r, s', k)" "ss_inv s'" by blast
    with Cons.IH [of s'] show ?case by auto
  qed simp
  moreover have "ss_inv new_rtmp_session_base" by (simp add: ss_inv_def new_rtmp_session_base_def)
  ultimately show ?thesis by blast
qed

subsection \<open>Reading what was written\<close>

text \<open>The pieces of a message body: \<open>n\<close> bytes each, the last one shorter.\<close>

function pieces :: "nat \<Rightarrow> 'a list \<Rightarrow> 'a list list" where
  "pieces n xs = (if xs = [] \<or> n = 0 then [] else take n xs # pieces n (drop n xs))"
  by pat_completeness auto
termination by (relation "measure (\<lambda>(n, xs). length xs)") auto

declare pieces.simps [simp del]

text \<open>A basic header of one byte is read back.\<close>

lemma basic_header_read:
  assumes "2 \<le> uint csid" "uint csid < 64" "uint fmt < 4"
  obtains b where "basic_header fmt csid = Some [b]" "drop_bit 6 b AND 0x3 = fmt" "ucast (b AND 0x3f) = csid"
proof -
  let ?b = "push_bit 6 fmt OR (ucast csid AND 0x3f) :: u8"
  have m3: "(3 :: u8) = mask 2" "(0x3f :: u8) = mask 6" by (simp_all add: mask_eq_exp_minus_1)
  have cs: "take_bit 6 csid = csid"
    by (rule take_bit_word_id) (use assms(2) in \<open>simp add: unat_lt_iff\<close>)
  have f: "take_bit 2 fmt = fmt"
    by (rule take_bit_word_id) (use assms(3) in \<open>simp add: unat_lt_iff\<close>)
  have "bit (drop_bit 6 ?b AND 3) i = bit (take_bit 2 fmt) i" for i
    unfolding m3 by (auto simp: bit_simps)
  then have 1: "drop_bit 6 ?b AND 3 = fmt" using f by (metis bit_eq_iff)
  have "bit (ucast (?b AND 0x3f) :: u16) i = bit (take_bit 6 csid) i" for i
    unfolding m3 by (auto simp: bit_simps)
  then have 2: "ucast (?b AND 0x3f) = csid" using cs by (metis bit_eq_iff)
  have "basic_header fmt csid = Some [?b]" using assms(2) by (simp add: basic_header_def)
  from this 1 2 show ?thesis by (rule that)
qed

text \<open>The chunk that carries one piece of a message.\<close>

definition first_header :: "u32 \<Rightarrow> u8 \<Rightarrow> u32 \<Rightarrow> bytes \<Rightarrow> bytes" where
  "first_header ts ty sid data = write_3bytes ts @ write_3bytes (of_nat (length data)) @ [ty] @ write_4bytes sid"

definition wire :: "u16 \<Rightarrow> bytes \<Rightarrow> bytes list \<Rightarrow> bytes" where
  "wire csid h ps = (case ps of [] \<Rightarrow> [] | p # ps' \<Rightarrow>
     the (basic_header 0 csid) @ h @ p @ concat (map (\<lambda>q. the (basic_header 3 csid) @ q) ps'))"

lemma read_basic:
  assumes "2 \<le> uint csid" "uint csid < 64" "uint fmt < 4" "\<not> fmt_ready s" "recv_buffer s = the (basic_header fmt csid) @ rest"
  shows "read_chunk_stream s = read_body (s\<lparr>ss_fmt := fmt, ss_csid := csid, recv_buffer := rest, fmt_ready := True\<rparr>)"
proof -
  obtain b where b: "basic_header fmt csid = Some [b]" "drop_bit 6 b AND 0x3 = fmt" "ucast (b AND 0x3f) = csid"
    by (rule basic_header_read [OF assms(1-3)])
  have "csid \<noteq> 0" "csid \<noteq> 1" using assms(1) by auto
  then have "read_fmt_csid s = (RTMP_OK, s\<lparr>ss_fmt := fmt, ss_csid := csid, recv_buffer := rest\<rparr>)"
    using assms(5) b by (simp add: read_fmt_csid_def Let_def)
  then show ?thesis using assms(4) by (simp add: read_chunk_stream_def RTMP_OK_def)
qed

text \<open>
  A chunk stream in the middle of a message: it has read \<open>got\<close>, and \<open>left\<close> bytes of it remain.
\<close>

definition receiving :: "u16 \<Rightarrow> u32 \<Rightarrow> u32 \<Rightarrow> u8 \<Rightarrow> u32 \<Rightarrow> bytes \<Rightarrow> nat \<Rightarrow> chunk_stream \<Rightarrow> bool" where
  "receiving csid sz ts ty sid got left c \<longleftrightarrow> cs_phase c = CHUNK_STREAM_PHASE_HEADER \<and> \<not> cs_ext_ts_flag c \<and>
     cs_chunk_size c = sz \<and> cs_timestamp32 c = ts \<and> cs_type_id c = ty \<and> cs_msg_stream_id c = sid \<and>
     cs_data c = got \<and> cs_remain c = int left \<and> cs_chunk_ready c = (left = 0)"

lemma payload_piece:
  assumes "cs_phase c = CHUNK_STREAM_PHASE_PAYLOAD" "cs_remain c = int n" "p = take (unat (cs_chunk_size c)) xs"
    "length xs = n" "\<not> cs_chunk_ready c" "\<not> cs_ext_ts_flag c"
  shows "\<exists>c'. read_message_payload (p @ rest) c = Inr (RTMP_OK, rest, c') \<and>
     receiving csid (cs_chunk_size c) (cs_timestamp32 c) (cs_type_id c) (cs_msg_stream_id c) (cs_data c @ p) (n - length p) c'"
proof -
  have len: "length p = min n (unat (cs_chunk_size c))" using assms(3,4) by simp
  have r: "(if uint (cs_chunk_size c) < cs_remain c then uint (cs_chunk_size c) else cs_remain c) = int (length p)"
    using len assms(2) uint_int [of "cs_chunk_size c"] by (auto simp: min_def simp del: of_nat_unat)
  show ?thesis using assms(1,2,5,6) r len
    by (auto simp: read_message_payload_def Let_def mem_read_def receiving_def)
qed

text \<open>What reading a whole message on \<open>csid\<close> leaves behind.\<close>

definition received :: "u16 \<Rightarrow> u32 \<Rightarrow> u32 \<Rightarrow> u8 \<Rightarrow> u32 \<Rightarrow> bytes \<Rightarrow> nat \<Rightarrow> bytes \<Rightarrow> rtmp_session_base \<Rightarrow> rtmp_session_base \<Rightarrow> bool" where
  "received csid sz ts ty sid got left rest s s' \<longleftrightarrow> \<not> fmt_ready s' \<and> recv_buffer s' = rest \<and> ss_chunk_size s' = ss_chunk_size s \<and>
     (\<exists>c. map_of (cs_map s') (ucast csid) = Some c \<and> receiving csid sz ts ty sid got left c) \<and>
     (\<forall>k. k \<noteq> ucast csid \<longrightarrow> map_of (cs_map s') k = map_of (cs_map s) k)"

lemma read_body_chunk:
  assumes h: "read_message_header fmt csid (recv_buffer s) c = Inr (RTMP_OK, p @ rest, c1)"
    and pl: "read_message_payload (p @ rest) c1 = Inr (RTMP_OK, rest, c2)" and c: "find_chunk_stream s = c"
    and s: "ss_fmt s = fmt" "ss_csid s = csid"
  shows "read_body s = Inr (RTMP_OK, (put_chunk_stream rest c2 s)\<lparr>fmt_ready := False\<rparr>, Some (ucast csid))"
  using assms by (simp add: read_body_def RTMP_OK_def RTMP_NEED_READ_MORE_def cs_key_def)

lemma format0_read:
  assumes "unat ts < 2 ^ 24 - 1" "length data < 2 ^ 24" "\<not> cs_ext_ts_flag c"
  shows "read_msg_format0 f i (first_header ts ty sid data @ rest) c =
     Inr (RTMP_OK, rest, c\<lparr>cs_fmt := f, cs_csid := i, cs_timestamp32 := ts, cs_timestamp_delta := 0, cs_msg_len := of_nat (length data),
        cs_type_id := ty, cs_msg_stream_id := sid, cs_remain := int (length data)\<rparr>)"
proof -
  let ?n = "of_nat (length data) :: u32" and ?buf = "first_header ts ty sid data @ rest"
  have n: "unat ?n < 2 ^ 24" "uint ?n = int (length data)" using assms(2) by (simp_all add: unat_of_nat uint_int del: of_nat_unat)
  have ts: "read_3bytes ?buf = Inr ts" "\<not> 0xffffff \<le> ts"
    using assms(1) by (auto simp: first_header_def f3.dec_enc word_le_nat_alt)
  have d3: "drop 3 ?buf = write_3bytes ?n @ [ty] @ write_4bytes sid @ rest"
    and d7: "drop 7 ?buf = write_4bytes sid @ rest" and d11: "drop 11 ?buf = rest" and l: "11 \<le> length ?buf"
    and at: "mem_at ?buf 6 = Inr ty"
    by (simp_all add: first_header_def mem_at_def nth_append)
  have len: "read_3bytes (drop 3 ?buf) = Inr ?n" and id: "read_4bytes (drop 7 ?buf) = Inr sid"
    unfolding d3 d7 by (simp_all only: f3.dec_enc [OF n(1)] f4.dec_enc)
  show ?thesis using assms(3) l
    by (simp add: read_msg_format0_def ts len id at d11 ext_timestamp_def n(2) del: read_3bytes.simps drop_append)
qed

definition idle :: "u32 \<Rightarrow> chunk_stream \<Rightarrow> bool" where
  "idle sz c \<longleftrightarrow> cs_phase c = CHUNK_STREAM_PHASE_HEADER \<and> \<not> cs_ext_ts_flag c \<and> \<not> cs_chunk_ready c \<and> cs_data c = [] \<and> cs_chunk_size c = sz"

text \<open>The next message on \<open>csid\<close> will be read with chunks of size \<open>sz\<close>.\<close>

definition idle_for :: "u16 \<Rightarrow> u32 \<Rightarrow> rtmp_session_base \<Rightarrow> bool" where
  "idle_for csid sz s \<longleftrightarrow> \<not> fmt_ready s \<and>
     (case map_of (cs_map s) (ucast csid) of None \<Rightarrow> ss_chunk_size s = sz | Some c \<Rightarrow> idle sz c)"

lemma first_chunk:
  assumes cs: "2 \<le> uint csid" "uint csid < 64" and ts: "unat ts < 2 ^ 24 - 1" "length data < 2 ^ 24"
    and s: "idle_for csid sz s" "recv_buffer s = the (basic_header 0 csid) @ first_header ts ty sid data @ take (unat sz) data @ rest"
  shows "\<exists>s'. read_chunk_stream s = Inr (RTMP_OK, s', Some (ucast csid)) \<and>
     received csid sz ts ty sid (take (unat sz) data) (length data - length (take (unat sz) data)) rest s s'"
proof -
  let ?p = "take (unat sz) data"
  let ?s = "s\<lparr>ss_fmt := 0, ss_csid := csid, recv_buffer := first_header ts ty sid data @ ?p @ rest, fmt_ready := True\<rparr>"
  have rb: "read_chunk_stream s = read_body ?s"
    by (rule read_basic [OF cs]) (use s in \<open>simp_all add: idle_for_def\<close>)
  define c where "c = find_chunk_stream ?s"
  have idle: "idle sz c"
    using s(1) by (auto simp: c_def find_chunk_stream_def cs_key_def idle_for_def idle_def new_chunk_stream_def split: option.splits)
  let ?c1 = "c\<lparr>cs_fmt := 0, cs_csid := csid, cs_timestamp32 := ts, cs_timestamp_delta := 0, cs_msg_len := of_nat (length data),
        cs_type_id := ty, cs_msg_stream_id := sid, cs_remain := int (length data), cs_phase := CHUNK_STREAM_PHASE_PAYLOAD\<rparr>"
  have h: "read_message_header 0 csid (recv_buffer ?s) c = Inr (RTMP_OK, ?p @ rest, ?c1)"
    using idle format0_read [OF ts, of c 0 csid ty sid "?p @ rest"] by (simp add: read_message_header_def idle_def)
  obtain c2 where c2: "read_message_payload (?p @ rest) ?c1 = Inr (RTMP_OK, rest, c2)"
    "receiving csid sz ts ty sid ?p (length data - length ?p) c2"
    using payload_piece [of ?c1 "length data" ?p data rest csid] idle by (auto simp: idle_def)
  have "read_body ?s = Inr (RTMP_OK, (put_chunk_stream rest c2 ?s)\<lparr>fmt_ready := False\<rparr>, Some (ucast csid))"
    by (rule read_body_chunk [OF h c2(1)]) (simp_all add: c_def)
  then show ?thesis using rb c2(2) by (simp add: received_def um_simps cs_key_def)
qed

lemma next_chunk:
  assumes cs: "2 \<le> uint csid" "uint csid < 64" and s: "received csid sz ts ty sid got (length xs) buf s0 s" and ne: "xs \<noteq> []"
    and buf: "buf = the (basic_header 3 csid) @ take (unat sz) xs @ rest"
  shows "\<exists>s'. read_chunk_stream s = Inr (RTMP_OK, s', Some (ucast csid)) \<and>
     received csid sz ts ty sid (got @ take (unat sz) xs) (length xs - length (take (unat sz) xs)) rest s0 s'"
proof -
  let ?p = "take (unat sz) xs"
  obtain c where c: "map_of (cs_map s) (ucast csid) = Some c" "receiving csid sz ts ty sid got (length xs) c"
    using s by (auto simp: received_def)
  let ?s = "s\<lparr>ss_fmt := 3, ss_csid := csid, recv_buffer := ?p @ rest, fmt_ready := True\<rparr>"
  have rb: "read_chunk_stream s = read_body ?s"
    by (rule read_basic [OF cs]) (use s buf in \<open>simp_all add: received_def\<close>)
  let ?c1 = "c\<lparr>cs_fmt := 3, cs_csid := csid, cs_phase := CHUNK_STREAM_PHASE_PAYLOAD\<rparr>"
  have h: "read_message_header 3 csid (recv_buffer ?s) c = Inr (RTMP_OK, ?p @ rest, ?c1)"
    using c(2) ne by (simp add: read_message_header_def read_msg_format3_def receiving_def)
  obtain c2 where c2: "read_message_payload (?p @ rest) ?c1 = Inr (RTMP_OK, rest, c2)"
    "receiving csid sz ts ty sid (got @ ?p) (length xs - length ?p) c2"
    using payload_piece [of ?c1 "length xs" ?p xs rest csid] c(2) ne by (auto simp: receiving_def)
  have "read_body ?s = Inr (RTMP_OK, (put_chunk_stream rest c2 ?s)\<lparr>fmt_ready := False\<rparr>, Some (ucast csid))"
    by (rule read_body_chunk [OF h c2(1)]) (simp_all add: find_chunk_stream_def cs_key_def c(1))
  then show ?thesis using rb c2(2) s by (auto simp: received_def um_simps cs_key_def)
qed

lemma received_ready: "received csid sz ts ty sid got left rest s s' \<Longrightarrow> cs_is_ready s' (Some (ucast csid)) \<longleftrightarrow> left = 0"
  by (auto simp: received_def receiving_def cs_is_ready_def)

lemma rest_chunks:
  assumes cs: "2 \<le> uint csid" "uint csid < 64" "sz \<noteq> 0" and "xs \<noteq> []"
    and "received csid sz ts ty sid got (length xs) (concat (map (\<lambda>q. the (basic_header 3 csid) @ q) (pieces (unat sz) xs)) @ rest) s0 s"
  shows "\<exists>s'. read_loop s = Inr (RTMP_OK, s', Some (ucast csid)) \<and> received csid sz ts ty sid (got @ xs) 0 rest s0 s'"
  using assms(4,5)
proof (induction xs arbitrary: got s rule: length_induct)
  case (1 xs)
  have sz: "0 < unat sz" using cs(3) by (simp add: unat_gt_0)
  let ?p = "take (unat sz) xs" and ?xs = "drop (unat sz) xs"
  let ?R = "\<lambda>xs. concat (map (\<lambda>q. the (basic_header 3 csid) @ q) (pieces (unat sz) xs)) @ rest"
  have buf: "?R xs = the (basic_header 3 csid) @ ?p @ ?R ?xs"
    using 1(2) sz by (simp add: pieces.simps [of "unat sz" xs])
  obtain s1 where s1: "read_chunk_stream s = Inr (RTMP_OK, s1, Some (ucast csid))"
    "received csid sz ts ty sid (got @ ?p) (length xs - length ?p) (?R ?xs) s0 s1"
    using next_chunk [OF cs(1,2) 1(3,2) buf] by blast
  show ?case
  proof (cases "?xs = []")
    case True
    then have "length xs - length ?p = 0" "?p = xs" by auto
    then show ?thesis using s1 received_ready [OF s1(2)] True
      by (subst read_loop.simps) (simp add: pieces.simps [of _ "[]"])
  next
    case False
    have len: "length xs - length ?p = length ?xs" by simp
    have "?R ?xs \<noteq> []"
      using False sz by (simp add: pieces.simps [of "unat sz" ?xs])
    then have loop: "read_loop s = read_loop s1"
      using s1 received_ready [OF s1(2)] False len
      by (subst read_loop.simps) (simp add: received_def)
    have "length ?xs < length xs" using sz 1(2) by (cases xs) auto
    then show ?thesis using 1(1) [rule_format, of ?xs "got @ ?p" s1] False s1(2) len loop by simp
  qed
qed

lemma read_wire:
  assumes cs: "2 \<le> uint csid" "uint csid < 64" "sz \<noteq> 0" and ts: "unat ts < 2 ^ 24 - 1" "length data < 2 ^ 24" "data \<noteq> []"
    and s: "idle_for csid sz s" "recv_buffer s = wire csid (first_header ts ty sid data) (pieces (unat sz) data) @ rest"
  shows "\<exists>s'. read_loop s = Inr (RTMP_OK, s', Some (ucast csid)) \<and> received csid sz ts ty sid data 0 rest s s'"
proof -
  have sz: "0 < unat sz" using cs(3) by (simp add: unat_gt_0)
  let ?p = "take (unat sz) data" and ?xs = "drop (unat sz) data"
  let ?R = "\<lambda>xs. concat (map (\<lambda>q. the (basic_header 3 csid) @ q) (pieces (unat sz) xs)) @ rest"
  have buf: "recv_buffer s = the (basic_header 0 csid) @ first_header ts ty sid data @ ?p @ ?R ?xs"
    using s(2) ts(3) sz by (simp add: wire_def pieces.simps [of "unat sz" data])
  obtain s1 where s1: "read_chunk_stream s = Inr (RTMP_OK, s1, Some (ucast csid))"
    "received csid sz ts ty sid ?p (length data - length ?p) (?R ?xs) s s1"
    using first_chunk [OF cs(1,2) ts(1,2) s(1) buf] by blast
  show ?thesis
  proof (cases "?xs = []")
    case True
    then have "length data - length ?p = 0" "?p = data" by auto
    then show ?thesis using s1 received_ready [OF s1(2)] True
      by (subst read_loop.simps) (simp add: pieces.simps [of _ "[]"])
  next
    case False
    have len: "length data - length ?p = length ?xs" by simp
    have "?R ?xs \<noteq> []" using False sz by (simp add: pieces.simps [of "unat sz" ?xs])
    then have "read_loop s = read_loop s1"
      using s1 received_ready [OF s1(2)] False len by (subst read_loop.simps) (simp add: received_def)
    then show ?thesis using rest_chunks [OF cs False, of ts ty sid ?p rest s s1] s1(2) len by simp
  qed
qed

text \<open>The writer cuts the message into exactly these pieces.\<close>

lemma pieces_nth_upt:
  assumes "0 < n"
  shows "pieces n xs = map (\<lambda>i. take n (drop (i * n) xs)) [0..<length xs div n + (if 0 < length xs mod n then 1 else 0)]"
proof (induction xs rule: length_induct)
  case (1 xs)
  show ?case
  proof (cases "xs = []")
    case False
    let ?k = "\<lambda>m. m div n + (if 0 < m mod n then 1 else (0::nat))"
    have k: "?k (length xs) = Suc (?k (length xs - n))"
    proof (cases "n \<le> length xs")
      case True
      then show ?thesis using assms by (simp add: le_div_geq le_mod_geq)
    next
      case False
      then show ?thesis using \<open>xs \<noteq> []\<close> by simp
    qed
    have "length (drop n xs) < length xs" using False assms by (cases xs) auto
    from 1 [rule_format, OF this]
    have "pieces n (drop n xs) = map (\<lambda>i. take n (drop (Suc i * n) xs)) [0..<?k (length xs - n)]"
      by (simp add: add.commute)
    then show ?thesis using False assms unfolding k
      by (subst pieces.simps) (simp add: upt_conv_Cons map_Suc_upt [symmetric] comp_def del: upt_Suc map_Suc_upt)
  qed (simp add: pieces.simps)
qed

definition piece_count :: "nat \<Rightarrow> nat \<Rightarrow> nat" where
  "piece_count n len = len div n + (if 0 < len mod n then 1 else 0)"

lemma piece_bounds:
  assumes "i < piece_count n len" "0 < n"
  shows "i * n < len" "min n (len - i * n) = (if i = piece_count n len - 1 then if 0 < len mod n then len mod n else n else n)"
proof -
  have len: "len = len div n * n + len mod n" by simp
  have q: "i \<le> len div n" "i = len div n \<Longrightarrow> 0 < len mod n"
    using assms by (auto simp: piece_count_def split: if_splits)
  have le: "i * n \<le> len div n * n" using q(1) by simp
  show "i * n < len"
  proof (cases "i = len div n")
    case False
    then have "Suc i * n \<le> len div n * n" using q(1) by (intro mult_le_mono1) simp
    then have "n + i * n \<le> len div n * n" by simp
    with assms(2) len show ?thesis by linarith
  next
    case True
    then have "i * n = len div n * n" by simp
    with q(2) [OF True] len show ?thesis by linarith
  qed
  show "min n (len - i * n) = (if i = piece_count n len - 1 then if 0 < len mod n then len mod n else n else n)"
  proof (cases "i = len div n")
    case True
    have "len - i * n = len mod n" unfolding True by (simp add: minus_div_mult_eq_mod)
    moreover have "len mod n < n" using assms(2) by simp
    ultimately show ?thesis using q(2) [OF True] True by (simp add: piece_count_def)
  next
    case False
    then have s: "Suc i * n \<le> len div n * n" using q(1) by (intro mult_le_mono1) simp
    then have "n + i * n \<le> len" using len by (simp only: mult_Suc)
    then have "n \<le> len - i * n" by simp
    moreover have "0 < len mod n \<Longrightarrow> i \<noteq> piece_count n len - 1" using False by (simp add: piece_count_def)
    ultimately show ?thesis by simp
  qed
qed

lemma chunk_at_piece:
  assumes i: "i < piece_count (unat sz) (length data)" and sz: "sz \<noteq> 0" and len: "length data < 2 ^ 24" and cs: "uint csid < 64"
  shows "chunk_at i (piece_count (unat sz) (length data)) csid ts ty sid sz data =
     Inr (the (basic_header (if i = 0 then 0 else 3) csid) @ (if i = 0 then first_header ts ty sid data else []) @
          take (unat sz) (drop (i * unat sz) data))"
proof -
  let ?n = "unat sz"
  have n: "0 < ?n" using sz by (simp add: unat_gt_0)
  note b = piece_bounds [OF i n]
  have off: "i * ?n mod 2 ^ 32 = i * ?n" using b(1) len by simp
  have rd: "mem_read data (i * ?n) (min ?n (length data - i * ?n)) = Inr (take ?n (drop (i * ?n) data))"
    using b(1) by (auto simp: mem_read_def min_def)
  obtain h where h: "basic_header (if i = 0 then 0 else 3) csid = Some h" using cs by (simp add: basic_header_def)
  show ?thesis
    unfolding chunk_at_def Let_def off b(2) [symmetric] rd cxx_bind.simps
    using h by (simp add: gen_data_def new_chunk_stream_def message_header_def first_header_def)
qed

lemma chunk_loop_Inr: "(\<And>i. i \<in> set is \<Longrightarrow> f i = Inr (g i)) \<Longrightarrow> chunk_loop f is = Inr (map g is)"
  by (induction "is") auto

lemma write_wire:
  assumes sz: "sz \<noteq> 0" and len: "length data < 2 ^ 24" "data \<noteq> []" and cs: "uint csid < 64"
  shows "\<exists>bs. write_data_by_chunk_stream csid ts ty sid sz data = Inr bs \<and>
     concat bs = wire csid (first_header ts ty sid data) (pieces (unat sz) data)"
proof -
  let ?n = "unat sz" and ?k = "piece_count (unat sz) (length data)"
  let ?g = "\<lambda>i. the (basic_header (if i = 0 then 0 else 3) csid) @ (if i = 0 then first_header ts ty sid data else []) @
          take ?n (drop (i * ?n) data)"
  have n: "0 < ?n" using sz by (simp add: unat_gt_0)
  have w: "write_data_by_chunk_stream csid ts ty sid sz data = Inr (map ?g [0..<?k])"
    using sz chunk_loop_Inr [of "[0..<?k]" "\<lambda>i. chunk_at i ?k csid ts ty sid sz data" ?g] chunk_at_piece [OF _ sz len(1) cs]
    by (simp add: write_data_by_chunk_stream_def piece_count_def Let_def)
  have p: "pieces ?n data = map (\<lambda>i. take ?n (drop (i * ?n) data)) [0..<?k]"
    by (simp only: pieces_nth_upt [OF n] piece_count_def)
  obtain k where k: "?k = Suc k"
    using n len(2) by (cases ?k) (auto simp: piece_count_def div_eq_0_iff split: if_splits)
  have "concat (map ?g [0..<?k]) = wire csid (first_header ts ty sid data) (pieces ?n data)"
    unfolding p k wire_def by (simp add: upt_conv_Cons map_Suc_upt [symmetric] comp_def del: upt_Suc map_Suc_upt)
  with w show ?thesis by blast
qed

lemma message_round_trip:
  assumes "2 \<le> uint csid" "uint csid < 64" "sz \<noteq> 0" "unat ts < 2 ^ 24 - 1" "length data < 2 ^ 24" "data \<noteq> []"
    and "idle_for csid sz s"
  shows "\<exists>bs s'. write_data_by_chunk_stream csid ts ty sid sz data = Inr bs \<and>
     read_loop (s\<lparr>recv_buffer := concat bs @ rest\<rparr>) = Inr (RTMP_OK, s', Some (ucast csid)) \<and>
     received csid sz ts ty sid data 0 rest s s'"
proof -
  obtain bs where bs: "write_data_by_chunk_stream csid ts ty sid sz data = Inr bs"
    "concat bs = wire csid (first_header ts ty sid data) (pieces (unat sz) data)"
    using write_wire [OF assms(3,5,6,2)] by blast
  have "idle_for csid sz (s\<lparr>recv_buffer := concat bs @ rest\<rparr>)" using assms(7) by (simp add: idle_for_def split: option.splits)
  from read_wire [OF assms(1-6) this, of ty sid rest] obtain s' where
    "read_loop (s\<lparr>recv_buffer := concat bs @ rest\<rparr>) = Inr (RTMP_OK, s', Some (ucast csid))"
    "received csid sz ts ty sid data 0 rest (s\<lparr>recv_buffer := concat bs @ rest\<rparr>) s'"
    using bs(2) by auto
  then show ?thesis using bs(1) by (auto simp: received_def)
qed

text \<open>
  C5. What \<open>write_data_by_chunk_stream\<close> sends for a message, the reader gets back: from a session
  whose chunk stream is idle, the loop of \<open>read_chunk_stream\<close> over the bytes sent, with anything
  after them, ends with the chunk stream ready, holding the same payload, timestamp, type and
  stream id; the bytes that follow stay in the buffer, and every other chunk stream is as it
  was. Bounds: a one-byte basic header, a timestamp below 0xffffff and a 24-bit length.\<close>

theorem rtmp_message_round_trip:
  assumes "2 \<le> uint csid" "uint csid < 64" "sz \<noteq> 0" "unat ts < 2 ^ 24 - 1" "length data < 2 ^ 24" "data \<noteq> []"
    and "idle_for csid sz s"
  shows "\<exists>bs s'. write_data_by_chunk_stream csid ts ty sid sz data = Inr bs \<and>
     read_loop (s\<lparr>recv_buffer := concat bs @ rest\<rparr>) = Inr (RTMP_OK, s', Some (ucast csid)) \<and>
     received csid sz ts ty sid data 0 rest s s'"
  using assms by (rule message_round_trip)

theorem rtmp_message_round_trip_witness:
  "\<exists>bs s'. write_data_by_chunk_stream 6 40 RTMP_MEDIA_PACKET_VIDEO 1 2 [23, 1, 0, 0, 0] = Inr bs \<and>
     read_loop (new_rtmp_session_base\<lparr>ss_chunk_size := 2, recv_buffer := concat bs @ [7]\<rparr>) = Inr (RTMP_OK, s', Some 6) \<and>
     received 6 2 40 RTMP_MEDIA_PACKET_VIDEO 1 [23, 1, 0, 0, 0] 0 [7] (new_rtmp_session_base\<lparr>ss_chunk_size := 2\<rparr>) s'"
  using rtmp_message_round_trip [of 6 2 40 "[23, 1, 0, 0, 0]" "new_rtmp_session_base\<lparr>ss_chunk_size := 2\<rparr>" RTMP_MEDIA_PACKET_VIDEO 1 "[7]"]
  by (simp add: idle_for_def new_rtmp_session_base_def)

end
