(* ===== verification/Players.thy ===== *)
theory Players
  imports Httpflv Rtmp_Session
begin

text \<open>
  The RTMP writer of \<open>src/net/rtmp/rtmp_writer.cpp\<close>, and the two kinds of players the stream
  manager serves, as one type of writers. An RTMP writer holds the session it points to (the
  part it reads), the session key, and what it has asked the session to send. The union
  interprets \<open>av_writer\<close>, so the facts of the manager hold for any mix of players.
\<close>

record rtmp_writer =
  rw_session :: rtmp_session_base
  rw_session_key :: bytes
  rw_init_flag :: bool
  rw_sent :: "bytes list"

definition new_rtmp_writer :: "rtmp_session_base \<Rightarrow> bytes \<Rightarrow> rtmp_writer" where
  "new_rtmp_writer s key = \<lparr>rw_session = s, rw_session_key = key, rw_init_flag = False, rw_sent = []\<rparr>"

definition rtmp_packet_ids :: "MEDIA_PACKET \<Rightarrow> (u16 \<times> u8) option" where
  "rtmp_packet_ids pkt =
     (case av_type pkt of
        MEDIA_VIDEO_TYPE \<Rightarrow> Some (6, RTMP_MEDIA_PACKET_VIDEO)
      | MEDIA_AUDIO_TYPE \<Rightarrow> Some (4, RTMP_MEDIA_PACKET_AUDIO)
      | MEDIA_METADATA_TYPE \<Rightarrow> Some (6, pkt_typeid pkt)
      | MEDIA_UNKOWN_TYPE \<Rightarrow> None)"

definition rtmp_write_packet :: "MEDIA_PACKET \<Rightarrow> rtmp_writer \<Rightarrow> (int \<times> rtmp_writer) cxx" where
  "rtmp_write_packet pkt w =
     (case rtmp_packet_ids pkt of
        None \<Rightarrow> Inr (-1, w)
      | Some (csid, type_id) \<Rightarrow>
          cxx_bind (write_data_by_chunk_stream csid (word_of_int (dts pkt)) type_id (pkt_streamid pkt)
             (get_chunk_size (rw_session w)) (pkt_buffer pkt)) (\<lambda>bs.
          Inr (RTMP_OK, w\<lparr>rw_sent := rw_sent w @ bs\<rparr>)))"

definition rtmp_get_key :: "rtmp_writer \<Rightarrow> bytes" where
  "rtmp_get_key w = rq_key (ss_req (rw_session w))"

definition rtmp_writer_ops :: "rtmp_writer av_writer_base" where
  "rtmp_writer_ops = \<lparr>write_packet = rtmp_write_packet, get_key = rtmp_get_key, get_writerid = rw_session_key,
     is_inited = rw_init_flag, set_init_flag = (\<lambda>f w. w\<lparr>rw_init_flag := f\<rparr>)\<rparr>"

lemma rtmp_write_packet_sent:
  "rtmp_write_packet pkt w = Inr (r, w') \<Longrightarrow> \<exists>bs. w' = w\<lparr>rw_sent := rw_sent w @ bs\<rparr>"
  by (auto simp: rtmp_write_packet_def cxx_bind_Inr_iff split: option.splits prod.splits intro: exI [of _ "[]"])

interpretation rw: av_writer rtmp_writer_ops
  by unfold_locales (auto simp: rtmp_writer_ops_def rtmp_get_key_def dest!: rtmp_write_packet_sent)

subsection \<open>What an RTMP player receives\<close>

text \<open>A packet the writer can send: it fits the 24-bit fields of a message header.\<close>

definition sendable :: "MEDIA_PACKET \<Rightarrow> bool" where
  "sendable pkt \<longleftrightarrow> av_type pkt \<noteq> MEDIA_UNKOWN_TYPE \<and> pkt_buffer pkt \<noteq> [] \<and> length (pkt_buffer pkt) < 2 ^ 24 \<and>
     0 \<le> dts pkt \<and> dts pkt < 2 ^ 24 - 1"

lemma sendable_ids: "sendable pkt \<Longrightarrow> \<exists>csid ty. rtmp_packet_ids pkt = Some (csid, ty) \<and> 2 \<le> uint csid \<and> uint csid < 64"
  by (cases "av_type pkt") (auto simp: sendable_def rtmp_packet_ids_def)



lemma cs_all_gen_data:
  "cs_all (snd (gen_data d c)) =
     cs_all c @ (case basic_header (cs_fmt c) (cs_csid c) of None \<Rightarrow> [] | Some bh \<Rightarrow> bh @ message_header c @ d)"
  by (simp add: gen_data_def split: option.splits)

text \<open>
  A message header has no room for a timestamp of more than 24 bits and the writer never
  writes the extended timestamp: what it sends depends only on the low 24 bits, so a stream
  that plays for more than 4.6 hours starts again at zero.
\<close>

theorem rtmp_timestamp_truncated:
  "write_data_by_chunk_stream csid ts ty sid sz data = write_data_by_chunk_stream csid (take_bit 24 ts) ty sid sz data"
proof -
  have "write_3bytes (take_bit 24 ts) = write_3bytes ts"
    by (rule nth_equalityI) (auto simp: write_3bytes_def Let_def less_Suc_eq bit_to_mem bit_take_bit_iff intro!: bit_word_eqI)
  then have "chunk_at i n csid (take_bit 24 ts) ty sid sz data = chunk_at i n csid ts ty sid sz data" for i n
    unfolding chunk_at_def Let_def cs_all_gen_data by (simp add: message_header_def new_chunk_stream_def cong: option.case_cong)
  then show ?thesis by (simp add: write_data_by_chunk_stream_def)
qed

subsection \<open>All players of the server\<close>

datatype player = Httpflv_player httpflv_writer | Rtmp_player rtmp_writer

text \<open>A virtual call on a player goes to the writer it is.\<close>

definition on_player :: "(httpflv_writer \<Rightarrow> 'a) \<Rightarrow> (rtmp_writer \<Rightarrow> 'a) \<Rightarrow> player \<Rightarrow> 'a" where
  "on_player f g pl = (case pl of Httpflv_player w \<Rightarrow> f w | Rtmp_player w \<Rightarrow> g w)"

definition wrap_write :: "('w \<Rightarrow> player) \<Rightarrow> (int \<times> 'w) cxx \<Rightarrow> (int \<times> player) cxx" where
  "wrap_write con r = cxx_bind r (\<lambda>(ret, w). Inr (ret, con w))"

definition player_ops :: "player av_writer_base" where
  "player_ops = \<lparr>
     write_packet = (\<lambda>pkt. on_player (\<lambda>w. wrap_write Httpflv_player (write_packet httpflv_ops pkt w))
                                     (\<lambda>w. wrap_write Rtmp_player (write_packet rtmp_writer_ops pkt w))),
     get_key = on_player (get_key httpflv_ops) (get_key rtmp_writer_ops),
     get_writerid = on_player (get_writerid httpflv_ops) (get_writerid rtmp_writer_ops),
     is_inited = on_player (is_inited httpflv_ops) (is_inited rtmp_writer_ops),
     set_init_flag = (\<lambda>f. on_player (\<lambda>w. Httpflv_player (set_init_flag httpflv_ops f w))
                                    (\<lambda>w. Rtmp_player (set_init_flag rtmp_writer_ops f w)))\<rparr>"

lemma on_player_simps [simp]:
  "on_player f g (Httpflv_player w) = f w" "on_player f g (Rtmp_player v) = g v"
  by (simp_all add: on_player_def)

lemma wrap_write_Inr: "wrap_write con r = Inr (ret, w') \<longleftrightarrow> (\<exists>w. r = Inr (ret, w) \<and> w' = con w)"
  by (auto simp: wrap_write_def cxx_bind_Inr_iff)

interpretation pl: av_writer player_ops
proof unfold_locales
  fix f :: bool and w :: player
  show "is_inited player_ops (set_init_flag player_ops f w) = f"
    "get_key player_ops (set_init_flag player_ops f w) = get_key player_ops w"
    "get_writerid player_ops (set_init_flag player_ops f w) = get_writerid player_ops w"
    by (cases w; simp add: player_ops_def hf.flag_set rw.flag_set hf.flag_key rw.flag_key hf.flag_id rw.flag_id)+
next
  fix p r and w w' :: player
  assume h: "write_packet player_ops p w = Inr (r, w')"
  show "get_key player_ops w' = get_key player_ops w" "get_writerid player_ops w' = get_writerid player_ops w"
    "is_inited player_ops w' = is_inited player_ops w"
    using h by (cases w; auto simp: player_ops_def wrap_write_Inr hf.write_key rw.write_key hf.write_id rw.write_id
      hf.write_flag rw.write_flag)+
qed

subsection \<open>The stream manager with these players\<close>


definition one_player :: "player manager" where
  "one_player = \<lparr>media_streams_map = [([97], new_media_stream\<lparr>writer_map := [([65], 0)]\<rparr>)],
     writers = (\<lambda>_. None)(0 \<mapsto> Rtmp_player (new_rtmp_writer (new_rtmp_session_base\<lparr>ss_req := new_rtmp_request\<lparr>rq_key := [97]\<rparr>\<rparr>) [65]))\<rparr>"

lemma one_player_reachable: "(ms_step player_ops)\<^sup>*\<^sup>* ms_init one_player"
proof -
  let ?w = "Rtmp_player (new_rtmp_writer (new_rtmp_session_base\<lparr>ss_req := new_rtmp_request\<lparr>rq_key := [97]\<rparr>\<rparr>) [65])"
  let ?s = "ms_init\<lparr>writers := (writers ms_init)(0 \<mapsto> ?w)\<rparr> :: player manager"
  have 1: "ms_step player_ops ms_init ?s" by (rule new_writer) (simp add: ms_init_def)
  have 2: "add_player player_ops 0 ?s = Inr (1, one_player)"
    by (simp add: add_player_def deref_def ms_init_def player_ops_def rtmp_writer_ops_def rtmp_get_key_def new_rtmp_writer_def
      new_rtmp_session_base_def new_rtmp_request_def um_insert_def one_player_def)
  show ?thesis
    by (rule rtranclp.rtrancl_into_rtrancl [OF r_into_rtranclp [of "ms_step player_ops", OF 1] player_joins [OF 2]])
qed


lemma write_data_stops: "write_data_by_chunk_stream csid ts ty sid sz data = Inl e \<Longrightarrow> e = DivByZero \<or> e = OutOfBounds"
proof -
  have "chunk_loop f is = Inl e \<Longrightarrow> (\<And>i e. f i = Inl e \<Longrightarrow> e = OutOfBounds) \<Longrightarrow> e = OutOfBounds" for f "is" and e :: stop
    by (induction "is") (auto simp: cxx_bind_Inl_iff)
  moreover have "chunk_at i n csid ts ty sid sz data = Inl e \<Longrightarrow> e = OutOfBounds" for i n e
    by (auto simp: chunk_at_def Let_def cxx_bind_Inl_iff mem_read_def split: if_splits)
  ultimately show "write_data_by_chunk_stream csid ts ty sid sz data = Inl e \<Longrightarrow> ?thesis"
    by (auto simp: write_data_by_chunk_stream_def Let_def split: if_splits)
qed

lemma hw_write_packet_returns: "\<exists>r w'. hw_write_packet pkt w = Inr (r, w')"
  by (auto simp: hw_write_packet_def Let_def split: prod.splits)

lemma player_ops_Rtmp [simp]:
  "write_packet player_ops pkt (Rtmp_player w) = wrap_write Rtmp_player (rtmp_write_packet pkt w)"
  "get_key player_ops (Rtmp_player w) = rtmp_get_key w" "get_writerid player_ops (Rtmp_player w) = rw_session_key w"
  "is_inited player_ops (Rtmp_player w) = rw_init_flag w"
  "set_init_flag player_ops f (Rtmp_player w) = Rtmp_player (w\<lparr>rw_init_flag := f\<rparr>)"
  by (simp_all add: player_ops_def rtmp_writer_ops_def)

lemma rtmp_write_stops: "rtmp_write_packet pkt w = Inl e \<Longrightarrow> e = DivByZero \<or> e = OutOfBounds"
  by (auto simp: rtmp_write_packet_def cxx_bind_Inl_iff split: option.splits dest: write_data_stops)

lemma player_stops:
  assumes "writer_stops player_ops e" shows "e = DivByZero \<or> e = OutOfBounds"
proof -
  from assms obtain p w where w: "write_packet player_ops p w = Inl e" by (auto simp: writer_stops_def)
  show ?thesis
  proof (cases w)
    case (Httpflv_player h)
    then show ?thesis using w hw_write_packet_returns [of p h]
      by (auto simp: player_ops_def wrap_write_def httpflv_ops_def)
  next
    case (Rtmp_player v)
    then show ?thesis using w by (auto simp: wrap_write_def cxx_bind_Inl_iff dest: rtmp_write_stops)
  qed
qed





end
