(* ===== verification/Tcp_Session.thy ===== *)
theory Tcp_Session
  imports MS_Prelude
begin

text \<open>
  The sending side of \<open>src/net/tcp/tcp_session.hpp\<close>: a queue of buffers of which at most the
  first is handed to the socket at a time. The socket itself is not modelled; \<open>tcp_started\<close>
  records the buffers that were passed to \<open>boost::asio::async_write\<close>, in order, and an event
  \<open>Written\<close> is its completion handler (which reports all bytes of the buffer, as
  \<open>async_write\<close> documents).
\<close>

record tcp_session =
  tcp_open :: bool
  tcp_callback :: bool
  send_buffer_queue :: "(bytes \<times> bool) list"
  tcp_started :: "bytes list"

definition new_tcp_session :: tcp_session where
  "new_tcp_session = \<lparr>tcp_open = True, tcp_callback = True, send_buffer_queue = [], tcp_started = []\<rparr>"

text \<open>A queue entry is a buffer and its \<open>sent_flag_\<close>.\<close>

definition do_write :: "tcp_session \<Rightarrow> tcp_session" where
  "do_write t =
     (case send_buffer_queue t of
        [] \<Rightarrow> t
      | (b, sent) # q \<Rightarrow>
          if sent then t
          else t\<lparr>send_buffer_queue := (b, True) # q, tcp_started := tcp_started t @ [b]\<rparr>)"

definition async_write :: "bytes \<Rightarrow> tcp_session \<Rightarrow> tcp_session" where
  "async_write data t =
     (if \<not> tcp_open t then t
      else do_write (t\<lparr>send_buffer_queue := send_buffer_queue t @ [(data, False)]\<rparr>))"

fun pop_written :: "nat \<Rightarrow> (bytes \<times> bool) list \<Rightarrow> (bytes \<times> bool) list cxx" where
  "pop_written remain q =
     (if remain = 0 then Inr q
      else case q of
          [] \<Rightarrow> Inl NullDeref
        | (b, sent) # q' \<Rightarrow>
            if remain < length b then Inr ((drop remain b, sent) # q')
            else pop_written (remain - length b) q')"

declare pop_written.simps [simp del]

text \<open>The completion handler, for an error (\<open>ec\<close>) or a success.\<close>

definition on_written :: "bool \<Rightarrow> nat \<Rightarrow> tcp_session \<Rightarrow> tcp_session cxx" where
  "on_written ec written_size t =
     (if \<not> ec \<and> tcp_callback t then
        cxx_bind (pop_written written_size (send_buffer_queue t)) (\<lambda>q. Inr (do_write (t\<lparr>send_buffer_queue := q\<rparr>)))
      else Inr t)"

definition tcp_close :: "tcp_session \<Rightarrow> tcp_session" where
  "tcp_close t = t\<lparr>tcp_open := False, tcp_callback := False\<rparr>"

subsection \<open>Runs\<close>

datatype tcp_event = Write bytes | Written

text \<open>A completion is possible only while a buffer is in flight; it reports the whole buffer.\<close>

fun tcp_step :: "tcp_event \<Rightarrow> tcp_session \<Rightarrow> tcp_session cxx" where
  "tcp_step (Write data) t = Inr (async_write data t)"
| "tcp_step Written t =
     (case send_buffer_queue t of
        (b, True) # q \<Rightarrow> on_written False (length b) t
      | _ \<Rightarrow> Inr t)"

fun tcp_run :: "tcp_event list \<Rightarrow> tcp_session \<Rightarrow> tcp_session cxx" where
  "tcp_run [] t = Inr t"
| "tcp_run (e # es) t = cxx_bind (tcp_step e t) (tcp_run es)"

fun submitted :: "tcp_event list \<Rightarrow> bytes list" where
  "submitted [] = []"
| "submitted (Write data # es) = data # submitted es"
| "submitted (Written # es) = submitted es"

text \<open>
  The invariant with respect to the buffers \<open>sub\<close> submitted so far: exactly the first buffer
  of a non-empty queue is in flight, and what was started and what waits make up what was
  submitted, in order.
\<close>

definition tcp_inv :: "bytes list \<Rightarrow> tcp_session \<Rightarrow> bool" where
  "tcp_inv sub t \<longleftrightarrow> tcp_open t \<and> tcp_callback t \<and>
     (case send_buffer_queue t of
        [] \<Rightarrow> tcp_started t = sub
      | (b, sent) # q \<Rightarrow> sent \<and> (\<forall>x \<in> set q. \<not> snd x) \<and> (\<forall>x \<in> set ((b, sent) # q). fst x \<noteq> []) \<and>
          tcp_started t @ map fst q = sub)"

lemma async_write_inv:
  assumes "tcp_inv sub t" "data \<noteq> []" shows "tcp_inv (sub @ [data]) (async_write data t)"
  using assms
  by (cases "send_buffer_queue t") (auto simp: tcp_inv_def async_write_def do_write_def split: list.splits)

lemma written_inv:
  assumes "tcp_inv sub t"
  shows "\<exists>t'. tcp_step Written t = Inr t' \<and> tcp_inv sub t' \<and>
     send_buffer_queue t' = (case tl (send_buffer_queue t) of [] \<Rightarrow> [] | x # q \<Rightarrow> (fst x, True) # q)"
proof (cases "send_buffer_queue t")
  case Nil
  with assms show ?thesis by (auto simp: tcp_inv_def)
next
  case (Cons x q)
  obtain b sent where x: "x = (b, sent)" by (cases x)
  with assms Cons have s: "sent" "b \<noteq> []" "tcp_callback t" by (auto simp: tcp_inv_def)
  have "pop_written (length b) ((b, True) # q) = Inr q"
    using s(2) by (simp add: pop_written.simps [of "length b"] pop_written.simps [of 0])
  then have "tcp_step Written t = Inr (do_write (t\<lparr>send_buffer_queue := q\<rparr>))"
    using Cons x s by (simp add: on_written_def)
  moreover have "tcp_inv sub (do_write (t\<lparr>send_buffer_queue := q\<rparr>))"
    using assms Cons x by (auto simp: tcp_inv_def do_write_def split: list.splits)
  ultimately show ?thesis using Cons assms x
    by (auto simp: do_write_def tcp_inv_def split: list.splits)
qed

lemma tcp_run_inv:
  assumes "tcp_inv sub t" "\<forall>data \<in> set (submitted es). data \<noteq> []"
  shows "\<exists>t'. tcp_run es t = Inr t' \<and> tcp_inv (sub @ submitted es) t'"
  using assms
proof (induction es arbitrary: sub t)
  case (Cons e es)
  show ?case
  proof (cases e)
    case (Write data)
    then show ?thesis using Cons.IH [OF async_write_inv [OF Cons.prems(1), of data]] Cons.prems(2) by auto
  next
    case Written
    obtain t1 where "tcp_step Written t = Inr t1" "tcp_inv sub t1" using written_inv [OF Cons.prems(1)] by blast
    then show ?thesis using Cons.IH [of sub t1] Cons.prems(2) Written by auto
  qed
qed simp

text \<open>Completions drain the queue.\<close>

lemma drain:
  assumes "tcp_inv sub t"
  shows "\<exists>t'. tcp_run (replicate (length (send_buffer_queue t)) Written) t = Inr t' \<and>
     send_buffer_queue t' = [] \<and> tcp_started t' = sub"
  using assms
proof (induction "length (send_buffer_queue t)" arbitrary: t)
  case 0
  then show ?case by (auto simp: tcp_inv_def)
next
  case (Suc n)
  obtain t1 where t1: "tcp_step Written t = Inr t1" "tcp_inv sub t1"
    "send_buffer_queue t1 = (case tl (send_buffer_queue t) of [] \<Rightarrow> [] | x # q \<Rightarrow> (fst x, True) # q)"
    using written_inv [OF Suc.prems] by blast
  then have "length (send_buffer_queue t1) = n" using Suc.hyps(2) by (cases "send_buffer_queue t") (auto split: list.splits)
  with Suc.hyps(1) [of t1] t1(1,2) show ?case by (simp flip: Suc.hyps(2))
qed

text \<open>
  C26. A session sends what it is given, in order, once, and one buffer at a time: for any
  sequence of writes of non-empty buffers interleaved with write completions, the buffers
  handed to the socket are exactly the submitted ones up to those still queued; the handler
  never touches an empty queue; and the outstanding completions send everything.
\<close>

theorem tcp_send_fifo:
  assumes "\<forall>data \<in> set (submitted es). data \<noteq> []"
  shows "\<exists>t. tcp_run es new_tcp_session = Inr t \<and>
     tcp_started t @ map fst (tl (send_buffer_queue t)) = submitted es \<and>
     (\<exists>t'. tcp_run (replicate (length (send_buffer_queue t)) Written) t = Inr t' \<and> tcp_started t' = submitted es)"
proof -
  have "tcp_inv [] new_tcp_session" by (simp add: tcp_inv_def new_tcp_session_def)
  from tcp_run_inv [OF this assms] obtain t where t: "tcp_run es new_tcp_session = Inr t" "tcp_inv (submitted es) t" by auto
  from t(2) have "tcp_started t @ map fst (tl (send_buffer_queue t)) = submitted es"
    by (auto simp: tcp_inv_def split: list.splits)
  with t drain [OF t(2)] show ?thesis by blast
qed

theorem tcp_send_fifo_witness:
  "\<exists>t. tcp_run [Write [1, 2], Write [3], Written, Write [4]] new_tcp_session = Inr t \<and>
     tcp_started t @ map fst (tl (send_buffer_queue t)) = [[1, 2], [3], [4]]"
  using tcp_send_fifo [of "[Write [1, 2], Write [3], Written, Write [4]]"] by auto

text \<open>
  An empty buffer stalls the session for good: its completion reports 0 bytes, so it is not
  taken off the queue, keeps its \<open>sent_flag_\<close>, and no later buffer is ever handed to the socket.
\<close>

theorem tcp_empty_write_stalls:
  "\<exists>q. tcp_run (Write [] # es) new_tcp_session =
     Inr \<lparr>tcp_open = True, tcp_callback = True, send_buffer_queue = ([], True) # q, tcp_started = [[]]\<rparr>"
proof -
  let ?t = "\<lambda>q. \<lparr>tcp_open = True, tcp_callback = True, send_buffer_queue = ([], True) # q, tcp_started = [[]]\<rparr>"
  have "\<exists>q'. tcp_run es (?t q) = Inr (?t q')" for q
  proof (induction es arbitrary: q)
    case (Cons e es)
    have "\<exists>q'. tcp_step e (?t q) = Inr (?t q')"
      by (cases e) (auto simp: async_write_def do_write_def on_written_def pop_written.simps)
    with Cons show ?case by auto
  qed simp
  then show ?thesis by (simp add: async_write_def do_write_def new_tcp_session_def)
qed

end
