(* ===== verification/Amf0.thy ===== *)
theory Amf0
  imports Byte_Stream
begin

text \<open>
  AMF0, \<open>src/net/rtmp/amf/amf0.hpp\<close>: the encoder of the command responses and the recursive
  decoder of received commands, with the decode loop of the command handlers
  (\<open>src/net/rtmp/rtmp_control_handler.cpp\<close>). A \<open>double\<close> is its 64 bits, which is what
  \<open>av_double2int\<close> and \<open>av_int2double\<close> move. \<open>unordered_map\<close>s are association lists.

  \<open>encode(const std::string&)\<close> writes one byte more than it allocates when it writes a marker. How
  many bytes of a block of \<open>n\<close> bytes may be touched is the allocator's \<open>usable n\<close>, a parameter.
\<close>

datatype AMF_DATA_TYPE =
    AMF_DATA_TYPE_UNKNOWN | AMF_DATA_TYPE_NUMBER | AMF_DATA_TYPE_BOOL | AMF_DATA_TYPE_STRING
  | AMF_DATA_TYPE_OBJECT | AMF_DATA_TYPE_NULL | AMF_DATA_TYPE_UNDEFINED | AMF_DATA_TYPE_REFERENCE
  | AMF_DATA_TYPE_MIXEDARRAY | AMF_DATA_TYPE_OBJECT_END | AMF_DATA_TYPE_ARRAY | AMF_DATA_TYPE_DATE
  | AMF_DATA_TYPE_LONG_STRING | AMF_DATA_TYPE_UNSUPPORTED

datatype AMF_ITERM = AMF_ITERM
  (amf_type: AMF_DATA_TYPE) (number: u64) (enable: bool) (desc_str: bytes)
  (amf_obj: "(bytes \<times> AMF_ITERM) list") (amf_array: "AMF_ITERM list")

definition new_AMF_ITERM :: AMF_ITERM where
  "new_AMF_ITERM = AMF_ITERM AMF_DATA_TYPE_UNKNOWN 0 False [] [] []"

definition amf_null :: "AMF_DATA_TYPE \<Rightarrow> AMF_ITERM" where
  "amf_null t = AMF_ITERM t 0 False [] [] []"

definition amf_number :: "AMF_DATA_TYPE \<Rightarrow> u64 \<Rightarrow> AMF_ITERM" where
  "amf_number t v = AMF_ITERM t v False [] [] []"

definition amf_bool :: "bool \<Rightarrow> AMF_ITERM" where
  "amf_bool b = AMF_ITERM AMF_DATA_TYPE_BOOL 0 b [] [] []"

definition amf_string :: "AMF_DATA_TYPE \<Rightarrow> bytes \<Rightarrow> AMF_ITERM" where
  "amf_string t s = AMF_ITERM t 0 False s [] []"

definition amf_object :: "(bytes \<times> AMF_ITERM) list \<Rightarrow> AMF_ITERM" where
  "amf_object m = AMF_ITERM AMF_DATA_TYPE_OBJECT 0 False [] m []"

definition amf_list :: "AMF_ITERM list \<Rightarrow> AMF_ITERM" where
  "amf_list xs = AMF_ITERM AMF_DATA_TYPE_ARRAY 0 False [] [] xs"

subsection \<open>The encoder\<close>

text \<open>Each \<open>encode\<close> appends to the buffer; the model gives the bytes it appends.\<close>

definition encode_number :: "u64 \<Rightarrow> bytes" where
  "encode_number num = 0x00 # write_8bytes num"

definition encode_null :: bytes where
  "encode_null = [0x05]"

definition encode_bool :: "bool \<Rightarrow> bytes" where
  "encode_bool flag = [0x01, if flag then 1 else 0]"

definition encode_string :: "(nat \<Rightarrow> nat) \<Rightarrow> bool \<Rightarrow> bytes \<Rightarrow> bytes cxx" where
  "encode_string usable skip_marker str =
     (if 0xffff < length str then
        let str_len = of_nat (length str) :: u32;
            data = (if skip_marker then [] else [0x0c]) @ write_4bytes str_len @ take (unat str_len) str in
        if length data \<le> usable (4 + unat str_len) then Inr data else Inl OutOfBounds
      else
        let str_len = of_nat (length str) :: u16;
            data = (if skip_marker then [] else [0x02]) @ write_2bytes str_len @ str in
        if length data \<le> usable (2 + unat str_len) then Inr data else Inl OutOfBounds)"

definition encode_onlytype :: "u8 \<Rightarrow> bytes" where
  "encode_onlytype ty = [ty]"

text \<open>
  The value of one property of an object: \<open>None\<close> is the return of -1. The array, date and
  mixed array branches append nothing (they are marked TODO).
\<close>

definition encode_value :: "(nat \<Rightarrow> nat) \<Rightarrow> AMF_ITERM \<Rightarrow> bytes option cxx" where
  "encode_value usable item =
     (case amf_type item of
        AMF_DATA_TYPE_NUMBER \<Rightarrow> Inr (Some (encode_number (number item)))
      | AMF_DATA_TYPE_BOOL \<Rightarrow> Inr (Some (encode_bool (enable item)))
      | AMF_DATA_TYPE_STRING \<Rightarrow> cxx_bind (encode_string usable False (desc_str item)) (\<lambda>b. Inr (Some b))
      | AMF_DATA_TYPE_NULL \<Rightarrow> Inr (Some (encode_onlytype 0x05))
      | AMF_DATA_TYPE_UNDEFINED \<Rightarrow> Inr (Some (encode_onlytype 0x06))
      | AMF_DATA_TYPE_REFERENCE \<Rightarrow> Inr None
      | AMF_DATA_TYPE_MIXEDARRAY \<Rightarrow> Inr (Some [])
      | AMF_DATA_TYPE_ARRAY \<Rightarrow> Inr (Some [])
      | AMF_DATA_TYPE_DATE \<Rightarrow> Inr (Some [])
      | AMF_DATA_TYPE_LONG_STRING \<Rightarrow> cxx_bind (encode_string usable False (desc_str item)) (\<lambda>b. Inr (Some b))
      | _ \<Rightarrow> Inr None)"

text \<open>The loop over the map; the code is the return value, the bytes stay appended on an error.\<close>

fun encode_props :: "(nat \<Rightarrow> nat) \<Rightarrow> (bytes \<times> AMF_ITERM) list \<Rightarrow> bytes \<Rightarrow> (int \<times> bytes) cxx" where
  "encode_props usable [] acc =
     cxx_bind (encode_string usable True []) (\<lambda>e. Inr (0, acc @ e @ [0x09]))"
| "encode_props usable ((key, item) # m) acc =
     cxx_bind (encode_string usable True key) (\<lambda>k.
     cxx_bind (encode_value usable item) (\<lambda>v. case v of
       None \<Rightarrow> Inr (-1, acc @ k)
     | Some b \<Rightarrow> encode_props usable m (acc @ k @ b)))"

definition encode_object :: "(nat \<Rightarrow> nat) \<Rightarrow> (bytes \<times> AMF_ITERM) list \<Rightarrow> (int \<times> bytes) cxx" where
  "encode_object usable m = encode_props usable m [0x03]"

subsection \<open>The decoder\<close>

text \<open>
  The result of \<open>decode\<close> is its return value, the pointer and the length it left behind, and
  the item. The pointer is the bytes from it to the end of the message. \<open>std::string(data, n)\<close>
  reads \<open>n\<close> bytes; \<open>left_len -= str_len\<close> does not wrap then, as the length of a message has 24
  bits. The first argument bounds the depth of calls and loop rounds;
  \<open>decode_fuel\<close> is enough for every input (\<open>decode_no_fuel\<close> below).
\<close>

type_synonym 'a decoded = "(int \<times> bytes \<times> int \<times> 'a) cxx"

definition decode_string :: "AMF_DATA_TYPE \<Rightarrow> nat \<Rightarrow> bytes \<Rightarrow> int \<Rightarrow> AMF_ITERM decoded" where
  "decode_string t n data left_len =
     cxx_bind (mem_read data 0 n) (\<lambda>s. Inr (0, drop n data, left_len - int n, amf_string t s))"

text \<open>The cases of the switch that do not recurse.\<close>

definition decode_scalar :: "u8 \<Rightarrow> bytes \<Rightarrow> int \<Rightarrow> AMF_ITERM decoded" where
  "decode_scalar marker data left_len =
     (if marker = 0x00 then
        cxx_bind (read_8bytes data) (\<lambda>v. Inr (0, drop 8 data, left_len - 8, amf_number AMF_DATA_TYPE_NUMBER v))
      else if marker = 0x01 then
        cxx_bind (mem_at data 0) (\<lambda>v. Inr (0, drop 1 data, left_len - 1, amf_bool (v \<noteq> 0)))
      else if marker = 0x02 then
        cxx_bind (read_2bytes data) (\<lambda>n. decode_string AMF_DATA_TYPE_STRING (unat n) (drop 2 data) (left_len - 2))
      else if marker = 0x05 then Inr (0, data, left_len, amf_null AMF_DATA_TYPE_NULL)
      else if marker = 0x06 then Inr (0, data, left_len, amf_null AMF_DATA_TYPE_UNDEFINED)
      else if marker = 0x07 then Inl AssertFail
      else if marker = 0x0b then
        cxx_bind (read_8bytes data) (\<lambda>v.
        Inr (0, drop 2 (drop 8 data), left_len - 8 - 2, amf_number AMF_DATA_TYPE_DATE v))
      else if marker = 0x0c then
        cxx_bind (read_4bytes data) (\<lambda>n. decode_string AMF_DATA_TYPE_LONG_STRING (unat n) (drop 4 data) (left_len - 4))
      else if marker = 0x0d then Inr (0, data, left_len, amf_null AMF_DATA_TYPE_LONG_STRING)
      else Inr (-1, data, left_len, new_AMF_ITERM))"

text \<open>The loops of \<open>decode_amf_object\<close> and \<open>decode_amf_array\<close>, over the decoder they call.\<close>

primrec decode_amf_object :: "nat \<Rightarrow> (bytes \<Rightarrow> int \<Rightarrow> AMF_ITERM decoded) \<Rightarrow> bytes \<Rightarrow> int \<Rightarrow>
    (bytes \<times> AMF_ITERM) list \<Rightarrow> (bytes \<times> AMF_ITERM) list decoded" where
  "decode_amf_object 0 dec data len m = Inl OutOfFuel"
| "decode_amf_object (Suc f) dec data len m =
     (if len \<le> 0 then Inr (0, data, len, m)
      else
        cxx_bind (read_2bytes data) (\<lambda>key_len.
        let data1 = drop 2 data; len1 = len - 2 in
        if key_len = 0 then
          cxx_bind (mem_at data1 0) (\<lambda>b. if b = 0x09 then Inr (0, data1, len1, m) else Inl AssertFail)
        else
          cxx_bind (mem_read data1 0 (unat key_len)) (\<lambda>key.
          let data2 = drop (unat key_len) data1; len2 = len1 - int (unat key_len) in
          cxx_bind (mem_at data2 0) (\<lambda>b.
          if 0x0d < b then Inr (-1, data2, len2, m)
          else
            cxx_bind (dec data2 len2) (\<lambda>(ret, d, l, item).
            if ret \<noteq> 0 then Inr (ret, d, l, m)
            else decode_amf_object f dec d l (um_insert key item m))))))"

primrec decode_amf_array :: "nat \<Rightarrow> (bytes \<Rightarrow> int \<Rightarrow> AMF_ITERM decoded) \<Rightarrow> nat \<Rightarrow> bytes \<Rightarrow> int \<Rightarrow>
    AMF_ITERM list \<Rightarrow> AMF_ITERM list decoded" where
  "decode_amf_array 0 dec n data len xs = Inl OutOfFuel"
| "decode_amf_array (Suc f) dec n data len xs =
     (if n = 0 then Inr (0, data, len, xs)
      else
        cxx_bind (dec data len) (\<lambda>(ret, d, l, item).
        if ret \<noteq> 0 then Inr (ret, d, l, xs)
        else decode_amf_array f dec (n - 1) d l (xs @ [item])))"

text \<open>The whole switch; the return value of \<open>decode_amf_array\<close> is dropped, as in the code.\<close>

definition decode_marker :: "nat \<Rightarrow> (bytes \<Rightarrow> int \<Rightarrow> AMF_ITERM decoded) \<Rightarrow> u8 \<Rightarrow> bytes \<Rightarrow> int \<Rightarrow> AMF_ITERM decoded" where
  "decode_marker f dec marker data left_len =
     (if marker = 0x03 then
        cxx_bind (decode_amf_object f dec data left_len []) (\<lambda>(ret, d, l, m). Inr (ret, d, l, amf_object m))
      else if marker = 0x08 then
        cxx_bind (read_4bytes data) (\<lambda>_.
        cxx_bind (decode_amf_object f dec (drop 4 data) (left_len - 4) []) (\<lambda>(ret, d, l, m). Inr (ret, d, l, amf_object m)))
      else if marker = 0x0a then
        cxx_bind (read_4bytes data) (\<lambda>array_len.
        cxx_bind (decode_amf_array f dec (unat array_len) (drop 4 data) (left_len - 4) []) (\<lambda>(_, d, l, xs). Inr (0, d, l, amf_list xs)))
      else decode_scalar marker data left_len)"

primrec decode :: "nat \<Rightarrow> bytes \<Rightarrow> int \<Rightarrow> AMF_ITERM decoded" where
  "decode 0 data left_len = Inl OutOfFuel"
| "decode (Suc f) data left_len =
     cxx_bind (mem_at data 0) (\<lambda>marker.
     if 0x0d < marker then Inr (-1, data, left_len, new_AMF_ITERM)
     else decode_marker f (decode f) marker (drop 1 data) (left_len - 1))"

definition decode_fuel :: "bytes \<Rightarrow> nat" where
  "decode_fuel data = 2 * length data + 2"

subsection \<open>The decoder always returns\<close>

text \<open>Every call takes bytes away, and a successful \<open>decode\<close> at least one.\<close>

definition shrinks :: "bytes \<Rightarrow> 'a decoded \<Rightarrow> bool" where
  "shrinks data r \<longleftrightarrow> (\<forall>ret d l x. r = Inr (ret, d, l, x) \<longrightarrow> length d \<le> length data)"

definition consumes :: "bytes \<Rightarrow> AMF_ITERM decoded \<Rightarrow> bool" where
  "consumes data r \<longleftrightarrow> shrinks data r \<and> (\<forall>d l x. r = Inr (0, d, l, x) \<longrightarrow> length d < length data)"


lemma shrinks_bind: "(\<And>v. m = Inr v \<Longrightarrow> shrinks data (f v)) \<Longrightarrow> shrinks data (cxx_bind m f)"
  by (cases m) (auto simp: shrinks_def)

lemma shrinks_step:
  "shrinks data m \<Longrightarrow> (\<And>ret d l x. m = Inr (ret, d, l, x) \<Longrightarrow> length d \<le> length data \<Longrightarrow> shrinks data (f (ret, d, l, x))) \<Longrightarrow> shrinks data (cxx_bind m f)"
  by (cases m) (auto simp: shrinks_def)

lemma shrinks_mono: "shrinks d r \<Longrightarrow> length d \<le> length data \<Longrightarrow> shrinks data r"
  by (auto simp: shrinks_def intro: le_trans)

lemma shrinks_triv: "length d \<le> length data \<Longrightarrow> shrinks data (Inr (ret, d, l, x))" "shrinks data (Inl e)"
  by (auto simp: shrinks_def)

lemma decode_scalar_shrinks: "shrinks data (decode_scalar marker data len)"
  by (auto simp: decode_scalar_def decode_string_def intro!: shrinks_bind shrinks_triv)

lemma object_shrinks:
  assumes "\<And>data len. consumes data (dec data len)"
  shows "shrinks data (decode_amf_object f dec data len m)"
proof (induction f arbitrary: data len m)
  case (Suc f)
  have s: "shrinks d (dec d l)" for d l using assms by (simp add: consumes_def)
  have *: "shrinks data (cxx_bind (dec d2 l2) (\<lambda>(ret, d, l, item). if ret \<noteq> 0 then Inr (ret, d, l, m) else decode_amf_object f dec d l (um_insert key item m)))"
    if "length d2 \<le> length data" for d2 l2 key
    by (rule shrinks_step [OF shrinks_mono [OF s that]]) (auto intro: shrinks_triv shrinks_mono [OF Suc])
  show ?case by (auto simp: Let_def intro!: shrinks_bind shrinks_triv *)
qed (simp add: shrinks_triv)

lemma array_shrinks:
  assumes "\<And>data len. consumes data (dec data len)"
  shows "shrinks data (decode_amf_array f dec n data len xs)"
proof (induction f arbitrary: n data len xs)
  case (Suc f)
  have s: "shrinks d (dec d l)" for d l using assms by (simp add: consumes_def)
  have "shrinks data (cxx_bind (dec data len) (\<lambda>(ret, d, l, item). if ret \<noteq> 0 then Inr (ret, d, l, xs) else decode_amf_array f dec (n - 1) d l (xs @ [item])))"
    by (rule shrinks_step [OF s]) (auto intro: shrinks_triv shrinks_mono [OF Suc])
  then show ?case by (simp add: shrinks_triv)
qed (simp add: shrinks_triv)

lemma decode_marker_shrinks:
  assumes "\<And>data len. consumes data (dec data len)"
  shows "shrinks data (decode_marker f dec marker data len)"
proof -
  have o: "shrinks data (cxx_bind (decode_amf_object f dec d l []) (\<lambda>(ret, d, l, m). Inr (ret, d, l, amf_object m)))"
    if "length d \<le> length data" for d l
    by (rule shrinks_step [OF shrinks_mono [OF object_shrinks [OF assms] that]]) (auto intro: shrinks_triv)
  have a: "shrinks data (cxx_bind (decode_amf_array f dec n d l []) (\<lambda>(_, d, l, xs). Inr (0, d, l, amf_list xs)))"
    if "length d \<le> length data" for n d l
    by (rule shrinks_step [OF shrinks_mono [OF array_shrinks [OF assms] that]]) (auto intro: shrinks_triv)
  show ?thesis unfolding decode_marker_def by (auto intro!: shrinks_bind o a decode_scalar_shrinks)
qed

lemma decode_consumes: "consumes data (decode f data len)"
proof (induction f arbitrary: data len)
  case (Suc f)
  show ?case
  proof (cases data)
    case (Cons b bs)
    have "shrinks bs (decode_marker f (decode f) b bs (len - 1))" by (rule decode_marker_shrinks [OF Suc])
    then show ?thesis using Cons by (fastforce simp: consumes_def shrinks_def mem_at_def)
  qed (simp add: mem_at_def consumes_def shrinks_def)
qed (simp add: consumes_def shrinks_def)

text \<open>The fuel is never used up, and the only stops are bad input: reading on past it, or an assertion.\<close>

definition input_stop :: "'a cxx \<Rightarrow> bool" where
  "input_stop r \<longleftrightarrow> (\<forall>e. r = Inl e \<longrightarrow> e = OutOfBounds \<or> e = AssertFail)"

named_theorems input_stops

lemma input_stop_simple [input_stops]:
  "input_stop (Inr x)" "input_stop (Inl OutOfBounds)" "input_stop (Inl AssertFail)"
  "input_stop (mem_at data i)" "input_stop (mem_read data i n)"
  by (simp_all add: input_stop_def mem_at_def mem_read_def)

lemma input_stop_read [input_stops]:
  "input_stop (read_8bytes data)" "input_stop (read_4bytes data)" "input_stop (read_2bytes data)"
  by ((cases data rule: read_8bytes.cases; simp add: input_stop_def),
      (cases data rule: read_4bytes.cases; simp add: input_stop_def),
      (cases data rule: read_2bytes.cases; simp add: input_stop_def))

lemma input_stop_bind [input_stops]:
  "input_stop m \<Longrightarrow> (\<And>v. m = Inr v \<Longrightarrow> input_stop (f v)) \<Longrightarrow> input_stop (cxx_bind m f)"
  by (cases m) (auto simp: input_stop_def)

lemma decode_scalar_stop [input_stops]: "input_stop (decode_scalar marker data len)"
  by (auto simp: decode_scalar_def decode_string_def intro!: input_stops)

lemma object_stop:
  assumes "\<And>d l. 2 * length d + 1 \<le> k \<Longrightarrow> input_stop (dec d l)" "\<And>d l. consumes d (dec d l)"
    and "2 * length data + 1 \<le> k" "length data < f"
  shows "input_stop (decode_amf_object f dec data len m)"
  using assms(3,4)
proof (induction f arbitrary: data len m)
  case (Suc f)
  have *: "input_stop (cxx_bind (dec d2 l2) (\<lambda>(ret, d, l, item). if ret \<noteq> 0 then Inr (ret, d, l, m) else decode_amf_object f dec d l (um_insert key item m)))"
    if "length d2 \<le> length data" for d2 l2 key
  proof (intro input_stop_bind)
    show "input_stop (dec d2 l2)" using assms(1) that Suc.prems by simp
    fix v assume v: "dec d2 l2 = Inr v"
    obtain ret d l item where [simp]: "v = (ret, d, l, item)" by (cases v)
    have "ret = 0 \<Longrightarrow> length d < length data" using assms(2) [of d2 l2] v that by (auto simp: consumes_def)
    then show "input_stop (case v of (ret, d, l, item) \<Rightarrow> if ret \<noteq> 0 then Inr (ret, d, l, m) else decode_amf_object f dec d l (um_insert key item m))"
      using Suc.prems by (auto intro!: input_stops Suc.IH)
  qed
  show ?case by (auto simp: Let_def intro!: input_stops *)
qed simp

lemma array_stop:
  assumes "\<And>d l. 2 * length d + 1 \<le> k \<Longrightarrow> input_stop (dec d l)" "\<And>d l. consumes d (dec d l)"
    and "2 * length data + 1 \<le> k" "length data < f"
  shows "input_stop (decode_amf_array f dec n data len xs)"
  using assms(3,4)
proof (induction f arbitrary: n data len xs)
  case (Suc f)
  have "input_stop (cxx_bind (dec data len) (\<lambda>(ret, d, l, item). if ret \<noteq> 0 then Inr (ret, d, l, xs) else decode_amf_array f dec (n - 1) d l (xs @ [item])))"
  proof (intro input_stop_bind)
    show "input_stop (dec data len)" using assms(1) Suc.prems by simp
    fix v assume v: "dec data len = Inr v"
    obtain ret d l item where [simp]: "v = (ret, d, l, item)" by (cases v)
    have "ret = 0 \<Longrightarrow> length d < length data" using assms(2) [of data len] v by (auto simp: consumes_def)
    then show "input_stop (case v of (ret, d, l, item) \<Rightarrow> if ret \<noteq> 0 then Inr (ret, d, l, xs) else decode_amf_array f dec (n - 1) d l (xs @ [item]))"
      using Suc.prems by (auto intro!: input_stops Suc.IH)
  qed
  then show ?case by (simp add: input_stops)
qed simp

lemma decode_stop: "2 * length data + 1 \<le> f \<Longrightarrow> input_stop (decode f data len)"
proof (induction f arbitrary: data len)
  case (Suc f)
  have o: "input_stop (decode_amf_object f (decode f) d l m)" if "Suc (length d) \<le> length data" for d l m
    by (rule object_stop [of f]) (use that Suc in \<open>auto simp: decode_consumes\<close>)
  have a: "input_stop (decode_amf_array f (decode f) n d l xs)" if "Suc (length d) \<le> length data" for n d l xs
    by (rule array_stop [of f]) (use that Suc in \<open>auto simp: decode_consumes\<close>)
  show ?case by (cases data) (auto simp: decode_marker_def mem_at_def intro!: input_stops o a)
qed simp

subsection \<open>The decode loop\<close>

text \<open>
  The loop of both command handlers, as it is written: the return value of \<open>decode\<close> is
  ignored, so nothing ends the loop but the length. \<open>None\<close> is a loop that does not end.
\<close>

partial_function (option) decode_loop :: "bytes \<Rightarrow> int \<Rightarrow> AMF_ITERM list \<Rightarrow> AMF_ITERM list cxx option" where
  "decode_loop data len amf_vec =
     (if len > 0 then
        (case decode (decode_fuel data) data len of
           Inl e \<Rightarrow> Some (Inl e)
         | Inr (_, d, l, item) \<Rightarrow> decode_loop d l (amf_vec @ [item]))
      else Some (Inr amf_vec))"

text \<open>An executable form that detects the round in which nothing moves.\<close>

primrec decode_rounds :: "nat \<Rightarrow> bytes \<Rightarrow> int \<Rightarrow> AMF_ITERM list \<Rightarrow> AMF_ITERM list cxx" where
  "decode_rounds 0 data len amf_vec = Inl OutOfFuel"
| "decode_rounds (Suc f) data len amf_vec =
     (if len > 0 then
        cxx_bind (decode (decode_fuel data) data len) (\<lambda>(_, d, l, item).
        if d = data \<and> l = len then Inl Diverges else decode_rounds f d l (amf_vec @ [item]))
      else Inr amf_vec)"

definition decode_command :: "bytes \<Rightarrow> AMF_ITERM list cxx" where
  "decode_command data = decode_rounds (length data + 1) data (int (length data)) []"

lemma decode_progress:
  assumes "decode f data len = Inr (r, d, l, x)" shows "(d = data \<and> l = len) \<or> length d < length data"
proof (cases f)
  case (Suc g)
  obtain b bs where data: "data = b # bs" using assms Suc by (cases data) (auto simp: mem_at_def)
  have "shrinks bs (decode_marker g (decode g) b bs (len - 1))" by (rule decode_marker_shrinks [OF decode_consumes])
  then show ?thesis using assms Suc data by (auto simp: mem_at_def shrinks_def split: if_splits)
qed (use assms in simp)

lemma decode_loop_stuck:
  assumes "decode_loop data len v = Some r"
  shows "\<not> (0 < len \<and> (\<exists>q x. decode (decode_fuel data) data len = Inr (q, data, len, x)))"
proof (rule decode_loop.raw_induct [OF _ assms])
  fix loop data len v r
  assume IH: "\<And>data len v r. loop data len v = Some r \<Longrightarrow>
      \<not> (0 < len \<and> (\<exists>q x. decode (decode_fuel data) data len = Inr (q, data, len, x)))"
    and step: "(if len > 0 then (case decode (decode_fuel data) data len of Inl e \<Rightarrow> Some (Inl e)
         | Inr (_, d, l, item) \<Rightarrow> loop d l (v @ [item])) else Some (Inr v)) = Some r"
  show "\<not> (0 < len \<and> (\<exists>q x. decode (decode_fuel data) data len = Inr (q, data, len, x)))"
    using step IH [of data len] by auto
qed

lemma decode_rounds_loop:
  "length data < f \<Longrightarrow> decode_loop data len v = (if decode_rounds f data len v = Inl Diverges then None else Some (decode_rounds f data len v))"
proof (induction f arbitrary: data len v)
  case (Suc f)
  show ?case
  proof (cases "0 < len")
    case len: True
    have st: "input_stop (decode (decode_fuel data) data len)" by (rule decode_stop) (simp add: decode_fuel_def)
    show ?thesis
    proof (cases "decode (decode_fuel data) data len")
      case (Inl e)
      then show ?thesis using st len by (subst decode_loop.simps) (auto simp: input_stop_def)
    next
      case (Inr y)
      obtain q d l x where y: "y = (q, d, l, x)" by (cases y)
      note dec = Inr [unfolded y]
      show ?thesis
      proof (cases "d = data \<and> l = len")
        case True
        then have "decode_loop data len v = None" using decode_loop_stuck dec len by (cases "decode_loop data len v") blast+
        then show ?thesis using True dec len by simp
      next
        case False
        then have "length d < length data" using decode_progress [OF dec] by blast
        then have "decode_loop d l (v @ [x]) = (if decode_rounds f d l (v @ [x]) = Inl Diverges then None else Some (decode_rounds f d l (v @ [x])))"
          using Suc by simp
        then show ?thesis using False dec len by (subst decode_loop.simps) auto
      qed
    qed
  qed (subst decode_loop.simps, simp)
qed simp

lemma decode_rounds_fuel: "length data < f \<Longrightarrow> decode_rounds f data len v \<noteq> Inl OutOfFuel"
proof (induction f arbitrary: data len v)
  case (Suc f)
  have st: "input_stop (decode (decode_fuel data) data len)" by (rule decode_stop) (simp add: decode_fuel_def)
  have "decode_rounds f d l (v @ [x]) \<noteq> Inl OutOfFuel"
    if "decode (decode_fuel data) data len = Inr (q, d, l, x)" "\<not> (d = data \<and> l = len)" for q d l x
    using Suc decode_progress [OF that(1)] that(2) by (metis less_Suc_eq_le order.strict_trans2 not_less_eq less_antisym)
  then show ?case using st by (auto simp: cxx_bind_Inl_iff input_stop_def split: if_splits)
qed simp


subsection \<open>Round trip\<close>

lemma write_2_eq: "write_2bytes v = [ucast (drop_bit 8 v), ucast v]"
  by (simp add: write_2bytes_def to_mem.simps numeral_2_eq_2)

text \<open>The values of an object that the encoder writes completely.\<close>

inductive plain_item :: "AMF_ITERM \<Rightarrow> bool" where
  plain_number: "plain_item (amf_number AMF_DATA_TYPE_NUMBER v)"
| plain_bool: "plain_item (amf_bool b)"
| plain_string: "length s \<le> 0xffff \<Longrightarrow> plain_item (amf_string AMF_DATA_TYPE_STRING s)"
| plain_null: "plain_item (amf_null AMF_DATA_TYPE_NULL)"
| plain_undefined: "plain_item (amf_null AMF_DATA_TYPE_UNDEFINED)"

lemma encode_string_short:
  "length s \<le> 0xffff \<Longrightarrow> encode_string u skip s = Inr b \<Longrightarrow>
     b = (if skip then [] else [0x02]) @ write_2bytes (of_nat (length s)) @ s"
  by (simp add: encode_string_def Let_def split: if_splits)

lemma unat_u16_length: "length s \<le> 0xffff \<Longrightarrow> unat (of_nat (length s) :: u16) = length s"
  by (simp add: unat_of_nat)

lemma decode_value:
  assumes "plain_item item" "encode_value u item = Inr (Some b)"
  shows "decode (Suc f) (b @ rest) len = Inr (0, rest, len - int (length b), item)"
  using assms
proof cases
  case (plain_number v)
  have "b = 0 # write_8bytes v" using assms(2) plain_number by (simp add: encode_value_def amf_number_def encode_number_def)
  then show ?thesis using plain_number
    by (simp add: mem_at_def decode_marker_def decode_scalar_def read_write_8 del: read_8bytes.simps)
next
  case (plain_bool v)
  then show ?thesis using assms(2)
    by (cases v) (auto simp: encode_value_def amf_bool_def encode_bool_def mem_at_def decode_marker_def decode_scalar_def)
next
  case (plain_string s)
  then obtain e where e: "encode_string u False s = Inr e" "b = e"
    using assms(2) by (auto simp: encode_value_def amf_string_def cxx_bind_Inr_iff)
  have "b = 2 # write_2bytes (of_nat (length s)) @ s" using encode_string_short [OF plain_string(2) e(1)] e(2) by simp
  then show ?thesis using plain_string
    by (simp add: mem_at_def mem_read_def decode_marker_def decode_scalar_def decode_string_def read_write_2 unat_u16_length del: read_2bytes.simps of_nat_unat)
next
  case plain_null
  then show ?thesis using assms(2)
    by (auto simp: encode_value_def amf_null_def encode_onlytype_def mem_at_def decode_marker_def decode_scalar_def)
next
  case plain_undefined
  then show ?thesis using assms(2)
    by (auto simp: encode_value_def amf_null_def encode_onlytype_def mem_at_def decode_marker_def decode_scalar_def)
qed

lemma encode_value_marker:
  assumes "plain_item item" "encode_value u item = Inr (Some b)" shows "\<exists>c bs. b = c # bs \<and> c \<le> 0x0d"
  using assms
proof cases
  case (plain_string s)
  then obtain e where e: "encode_string u False s = Inr e" "b = e"
    using assms(2) by (auto simp: encode_value_def amf_string_def cxx_bind_Inr_iff)
  then show ?thesis using encode_string_short [OF plain_string(2) e(1)] by simp
qed (use assms(2) in \<open>auto simp: encode_value_def amf_number_def amf_bool_def amf_null_def encode_number_def encode_bool_def encode_onlytype_def\<close>)

definition plain_prop :: "bytes \<times> AMF_ITERM \<Rightarrow> bool" where
  "plain_prop p \<longleftrightarrow> fst p \<noteq> [] \<and> length (fst p) \<le> 0xffff \<and> plain_item (snd p)"

lemma encode_props_acc: "encode_props u m acc = Inr (r, bs) \<Longrightarrow> \<exists>e. bs = acc @ e"
  by (induction u m acc rule: encode_props.induct) (fastforce simp: cxx_bind_Inr_iff split: option.splits)+

lemma encode_props_Cons:
  assumes "encode_props u ((key, item) # m) acc = Inr (0, acc @ bs)"
  obtains k b bs' where "encode_string u True key = Inr k" "encode_value u item = Inr (Some b)"
    "encode_props u m (acc @ k @ b) = Inr (0, (acc @ k @ b) @ bs')" "bs = k @ b @ bs'"
proof -
  from assms obtain k b where kb: "encode_string u True key = Inr k" "encode_value u item = Inr (Some b)"
    and r: "encode_props u m (acc @ k @ b) = Inr (0, acc @ bs)"
    by (auto simp: cxx_bind_Inr_iff split: option.splits)
  from encode_props_acc [OF r] obtain bs' where "acc @ bs = (acc @ k @ b) @ bs'" by blast
  with kb r show ?thesis using that by simp
qed

lemma encode_props_length:
  "encode_props u m acc = Inr (0, acc @ bs) \<Longrightarrow> list_all plain_prop m \<Longrightarrow> length m \<le> length bs"
proof (induction m arbitrary: acc bs)
  case (Cons p m)
  obtain key item where p: "p = (key, item)" by (cases p)
  obtain k b bs' where e: "encode_string u True key = Inr k" "encode_value u item = Inr (Some b)"
    "encode_props u m (acc @ k @ b) = Inr (0, (acc @ k @ b) @ bs')" and bs: "bs = k @ b @ bs'"
    using encode_props_Cons [OF Cons.prems(1) [unfolded p]] by blast
  have "length key \<le> 0xffff" using Cons.prems(2) p by (simp add: plain_prop_def)
  then have "2 \<le> length k" using encode_string_short [OF _ e(1)] by simp
  then show ?case using Cons.IH [OF e(3)] Cons.prems(2) bs by simp
qed simp

lemma decode_props:
  assumes "encode_props u m acc = Inr (0, acc @ bs)" "list_all plain_prop m" "length m < f" "int (length bs) \<le> len"
  shows "decode_amf_object f (decode (Suc g)) (bs @ rest) len m0 =
     Inr (0, 0x09 # rest, len - int (length bs) + 1, fold (\<lambda>(k, v). um_insert k v) m m0)"
  using assms
proof (induction m arbitrary: acc bs f len m0)
  case Nil
  then obtain e where e: "encode_string u True [] = Inr e" "bs = e @ [9]" by (auto simp: cxx_bind_Inr_iff)
  have bs: "bs = write_2bytes 0 @ [9]" using encode_string_short [OF _ e(1)] e(2) by simp
  then have rd: "read_2bytes (bs @ rest) = Inr 0" "drop 2 (bs @ rest) = 9 # rest"
    by (simp_all add: read_write_2 del: read_2bytes.simps)
  obtain f' where f: "f = Suc f'" using Nil(3) by (cases f) auto
  then show ?case unfolding f decode_amf_object.simps rd using Nil(4) bs by (simp add: mem_at_def)
next
  case (Cons p m)
  obtain key item where p: "p = (key, item)" by (cases p)
  obtain k b bs' where e: "encode_string u True key = Inr k" "encode_value u item = Inr (Some b)"
    "encode_props u m (acc @ k @ b) = Inr (0, (acc @ k @ b) @ bs')" and bs: "bs = k @ b @ bs'"
    using encode_props_Cons [OF Cons.prems(1) [unfolded p]] by blast
  have pl: "key \<noteq> []" "length key \<le> 0xffff" "plain_item item" using Cons.prems(2) p by (auto simp: plain_prop_def)
  have k: "k = write_2bytes (of_nat (length key)) @ key" using encode_string_short [OF pl(2) e(1)] by simp
  have kl: "unat (of_nat (length key) :: u16) = length key" by (rule unat_u16_length [OF pl(2)])
  then have nz: "(of_nat (length key) :: u16) \<noteq> 0" using pl(1) by (metis length_0_conv unat_0)
  obtain c cs where c: "b = c # cs" "c \<le> 0x0d" using encode_value_marker [OF pl(3) e(2)] by blast
  obtain f' where f: "f = Suc f'" using Cons.prems(3) by (cases f) auto
  let ?l = "len - 2 - int (length key)"
  have dec: "decode (Suc g) (b @ bs' @ rest) ?l = Inr (0, bs' @ rest, ?l - int (length b), item)"
    by (rule decode_value [OF pl(3) e(2)])
  have IH: "decode_amf_object f' (decode (Suc g)) (bs' @ rest) (?l - int (length b)) (um_insert key item m0) =
     Inr (0, 9 # rest, ?l - int (length b) - int (length bs') + 1, fold (\<lambda>(k, v). um_insert k v) m (um_insert key item m0))"
    by (rule Cons.IH [OF e(3)]) (use Cons.prems f bs k in auto)
  have rd: "read_2bytes (bs @ rest) = Inr (of_nat (length key))" "drop 2 (bs @ rest) = key @ b @ bs' @ rest"
    by (simp_all add: bs k read_write_2 del: read_2bytes.simps)
  have "0 < len" using Cons.prems(4) bs k by simp
  then show ?case unfolding f decode_amf_object.simps rd
    using nz kl c(1) c(2) [folded not_less] dec IH
    by (simp add: p mem_read_def mem_at_def bs k algebra_simps Let_def del: decode.simps)
qed

lemma map_of_fold_insert:
  "distinct_keys m \<Longrightarrow> \<forall>k \<in> fst ` set m. map_of m0 k = None \<Longrightarrow>
    map_of (fold (\<lambda>(k, v). um_insert k v) m m0) = map_of m0 ++ map_of m"
proof (induction m arbitrary: m0)
  case (Cons p m)
  obtain k v where p: "p = (k, v)" by (cases p)
  have "map_of (fold (\<lambda>(k, v). um_insert k v) m (um_insert k v m0)) = map_of (um_insert k v m0) ++ map_of m"
    by (rule Cons.IH) (use Cons.prems p in \<open>auto simp: um_simps\<close>)
  moreover have "map_of m k = None" using Cons.prems(1) p by (simp add: map_of_eq_None_iff)
  ultimately show ?case using Cons.prems p by (auto simp: um_simps map_add_def fun_eq_iff split: option.splits)
qed simp

text \<open>
  C25. An object with number, boolean, string, null and undefined values that the encoder has
  written is decoded to the same properties, whatever follows it; the end marker is left in front
  of the bytes that follow.
\<close>

theorem amf_object_round_trip:
  assumes "encode_object u m = Inr (0, bs)" "list_all plain_prop m" "distinct_keys m"
  shows "\<exists>m'. decode (decode_fuel (bs @ rest)) (bs @ rest) (int (length bs)) = Inr (0, 0x09 # rest, 1, amf_object m') \<and>
     map_of m' = map_of m"
proof -
  from encode_props_acc assms(1) obtain e where bs: "bs = [3] @ e" unfolding encode_object_def by blast
  then have e: "encode_props u m [3] = Inr (0, [3] @ e)" using assms(1) by (simp add: encode_object_def)
  obtain n where n: "decode_fuel (bs @ rest) = Suc (Suc n)" "length e \<le> n" using bs by (simp add: decode_fuel_def)
  have "length m \<le> length e" by (rule encode_props_length [OF e assms(2)])
  then have "decode_amf_object (Suc n) (decode (Suc n)) (e @ rest) (int (length e)) [] =
     Inr (0, 0x09 # rest, int (length e) - int (length e) + 1, fold (\<lambda>(k, v). um_insert k v) m [])"
    by (intro decode_props [OF e assms(2)]) (use n in auto)
  moreover have "map_of (fold (\<lambda>(k, v). um_insert k v) m []) = map_of m"
    using map_of_fold_insert [of m "[]"] assms(3) by simp
  ultimately show ?thesis using n(1) bs by (auto simp: mem_at_def decode_marker_def simp del: decode_amf_object.simps)
qed

theorem amf_object_round_trip_witness:
  "\<exists>m'. decode (decode_fuel ([3, 0, 1, 97, 2, 0, 2, 104, 105, 0, 1, 98, 1, 1, 0, 0, 9] @ [5]))
       ([3, 0, 1, 97, 2, 0, 2, 104, 105, 0, 1, 98, 1, 1, 0, 0, 9] @ [5]) 17 = Inr (0, 0x09 # [5], 1, amf_object m') \<and>
     map_of m' = map_of [([97], amf_string AMF_DATA_TYPE_STRING [104, 105]), ([98], amf_bool True)]"
proof -
  have e: "encode_object (\<lambda>n. n + 8) [([97], amf_string AMF_DATA_TYPE_STRING [104, 105]), ([98], amf_bool True)] =
      Inr (0, [3, 0, 1, 97, 2, 0, 2, 104, 105, 0, 1, 98, 1, 1, 0, 0, 9])"
    by (simp add: encode_object_def encode_string_def encode_value_def encode_bool_def amf_string_def amf_bool_def write_2_eq)
  have pl: "list_all plain_prop [([97], amf_string AMF_DATA_TYPE_STRING [104, 105]), ([98], amf_bool True)]"
    by (simp add: plain_prop_def plain_item.intros)
  show ?thesis using amf_object_round_trip [OF e pl, of "[5]"] by simp
qed

subsection \<open>Commands made of plain values\<close>

text \<open>The bytes of a sequence of values.\<close>

fun encode_values :: "(nat \<Rightarrow> nat) \<Rightarrow> AMF_ITERM list \<Rightarrow> bytes cxx" where
  "encode_values u [] = Inr []"
| "encode_values u (item # items) =
     cxx_bind (encode_value u item) (\<lambda>v. case v of None \<Rightarrow> Inr []
     | Some b \<Rightarrow> cxx_bind (encode_values u items) (\<lambda>bs. Inr (b @ bs)))"

lemma decode_rounds_values:
  "encode_values u items = Inr bs \<Longrightarrow> list_all plain_item items \<Longrightarrow> list_all (\<lambda>i. encode_value u i \<noteq> Inr None) items \<Longrightarrow>
     length items < f \<Longrightarrow> decode_rounds f bs (int (length bs)) v = Inr (v @ items)"
proof (induction items arbitrary: f bs v)
  case Nil
  then obtain g where "f = Suc g" by (cases f) auto
  then show ?case using Nil by simp
next
  case (Cons item items)
  obtain b bs' where b: "encode_value u item = Inr (Some b)" "encode_values u items = Inr bs'" "bs = b @ bs'"
    using Cons.prems(1,3) by (auto simp: cxx_bind_Inr_iff split: option.splits)
  obtain g where f: "f = Suc g" using Cons.prems(4) by (cases f) auto
  have pl: "plain_item item" using Cons.prems(2) by simp
  obtain c cs where ne: "b = c # cs" using encode_value_marker [OF pl b(1)] by blast
  obtain n where n: "decode_fuel bs = Suc n" by (simp add: decode_fuel_def)
  have "decode (decode_fuel bs) bs (int (length bs)) = Inr (0, bs', int (length bs'), item)"
    using decode_value [OF pl b(1), of n bs' "int (length bs)"] n b(3) by simp
  moreover have "bs' \<noteq> bs" using b(3) ne by (metis append_Nil2 append_eq_append_conv2 list.distinct(1) self_append_conv2)
  moreover have "0 < int (length bs)" using b(3) ne by simp
  ultimately show ?case using Cons.IH [OF b(2), of g "v @ [item]"] Cons.prems f by simp
qed

lemma decode_command_values:
  assumes "encode_values u items = Inr bs" "list_all plain_item items" "list_all (\<lambda>i. encode_value u i \<noteq> Inr None) items"
  shows "decode_command bs = Inr items"
proof -
  have "length items \<le> length bs" using assms
  proof (induction items arbitrary: bs)
    case (Cons item items)
    then obtain b bs' where b: "encode_value u item = Inr (Some b)" "encode_values u items = Inr bs'" "bs = b @ bs'"
      by (auto simp: cxx_bind_Inr_iff split: option.splits)
    then show ?case using Cons encode_value_marker [of item u b] by fastforce
  qed simp
  then show ?thesis using decode_rounds_values [OF assms, of "length bs + 1" "[]"] by (simp add: decode_command_def)
qed

subsection \<open>What goes wrong\<close>

text \<open>
  \<open>encode(const std::string&)\<close> with a marker writes one byte past its allocation, for every
  string: on an allocator that gives a block no more than was asked for, it is out of bounds.
\<close>

theorem amf_string_overflows: "encode_string (\<lambda>n. n) False s = Inl OutOfBounds"
  by (simp add: encode_string_def Let_def unat_of_nat)

text \<open>
  A property whose value is an object is not decoded: the end marker of the inner object is
  left unread, the outer loop takes it for the first byte of a key length (at least 2304) and
  reads past the message.
\<close>

theorem amf_nested_object_out_of_bounds:
  assumes "encode_object u m = Inr (0, bs)" "list_all plain_prop m" "k \<noteq> []" "length k \<le> 0xffff" "length rest < 2302"
    and "d = 3 # write_2bytes (of_nat (length k)) @ k @ bs @ [0, 0, 9] @ rest"
  shows "decode (decode_fuel d) d (int (length d)) = Inl OutOfBounds"
proof -
  from encode_props_acc assms(1) obtain e where bs: "bs = [3] @ e" unfolding encode_object_def by blast
  then have e: "encode_props u m [3] = Inr (0, [3] @ e)" using assms(1) by (simp add: encode_object_def)
  let ?t = "[0, 0, 9] @ rest" and ?w = "write_2bytes (of_nat (length k))"
  let ?data = "?w @ k @ bs @ ?t"
  have kl: "unat (of_nat (length k) :: u16) = length k" by (rule unat_u16_length [OF assms(4)])
  then have nz: "(of_nat (length k) :: u16) \<noteq> 0" using assms(3) by (metis length_0_conv unat_0)
  obtain n where n: "decode_fuel d = Suc (Suc (Suc n))" "length e \<le> n" using assms(6) bs by (simp add: decode_fuel_def)
  define l where "l = int (length d) - 3 - int (length k)"
  have l: "int (length e) + 4 \<le> l" using assms(6) bs by (simp add: l_def)
  have "length m \<le> length e" by (rule encode_props_length [OF e assms(2)])
  then have o: "decode_amf_object (Suc n) (decode (Suc n)) (e @ ?t) (l - 1) [] =
     Inr (0, 9 # ?t, l - 1 - int (length e) + 1, fold (\<lambda>(k, v). um_insert k v) m [])"
    by (intro decode_props [OF e assms(2)]) (use n l in auto)
  define inner where "inner = amf_object (fold (\<lambda>(k, v). um_insert k v) m [])"
  have inner: "decode (Suc (Suc n)) (bs @ ?t) l = Inr (0, 9 # ?t, l - int (length e), inner)"
    using o bs by (simp add: mem_at_def decode_marker_def inner_def del: decode_amf_object.simps decode.simps(2) [of n])
  have m3: "\<not> (0x0d :: u8) < 3" by simp
  have rd2: "read_2bytes (9 # ?t) = Inr 0x0900" by (simp add: from_mem.simps)
  have oob: "decode_amf_object (Suc n) dec (9 # ?t) (l - int (length e)) m1 = Inl OutOfBounds" for dec m1
    unfolding decode_amf_object.simps rd2 using l assms(5) by (simp add: mem_read_def Let_def)
  have rd: "read_2bytes ?data = Inr (of_nat (length k))" "drop 2 ?data = k @ bs @ ?t"
    by (simp_all add: read_write_2 del: read_2bytes.simps)
  have "decode_amf_object (Suc (Suc n)) (decode (Suc (Suc n))) ?data (int (length d) - 1) [] = Inl OutOfBounds"
    unfolding decode_amf_object.simps(2) [of "Suc n"] rd
    using nz kl inner oob l bs m3 by (simp add: mem_read_def mem_at_def Let_def l_def algebra_simps del: decode.simps decode_amf_object.simps)
  then show ?thesis using n(1) assms(6) by (simp add: mem_at_def decode_marker_def del: decode_amf_object.simps)
qed

theorem amf_nested_object_out_of_bounds_witness:
  "decode 36 [3, 0, 1, 97, 3, 0, 1, 98, 5, 0, 0, 9, 0, 0, 9, 5, 5] 17 = Inl OutOfBounds"
proof -
  have e: "encode_object (\<lambda>n. n + 8) [([98], amf_null AMF_DATA_TYPE_NULL)] = Inr (0, [3, 0, 1, 98, 5, 0, 0, 9])"
    by (simp add: encode_object_def encode_string_def encode_value_def encode_onlytype_def amf_null_def write_2_eq)
  show ?thesis using amf_nested_object_out_of_bounds [OF e, of "[97]" "[5, 5]"]
    by (simp add: plain_prop_def plain_item.intros write_2_eq decode_fuel_def)
qed

text \<open>
  A command whose name is followed by a marker above 0x0d is never answered: \<open>decode\<close>
  refuses the marker without moving, its return value is ignored, and the loop goes on for ever.
\<close>

theorem amf_bad_marker_diverges:
  assumes "encode_string u False s = Inr e" "length s \<le> 0xffff" "0x0d < b"
  shows "decode_loop (e @ b # bs) (int (length (e @ b # bs))) [] = None"
proof -
  let ?d = "e @ b # bs"
  have e: "e = 2 # write_2bytes (of_nat (length s)) @ s" using encode_string_short [OF assms(2,1)] by simp
  have ev: "encode_value u (amf_string AMF_DATA_TYPE_STRING s) = Inr (Some e)"
    using assms(1) by (simp add: encode_value_def amf_string_def)
  obtain f where f: "decode_fuel ?d = Suc f" by (simp add: decode_fuel_def)
  have 1: "decode (decode_fuel ?d) ?d (int (length ?d)) = Inr (0, b # bs, int (length (b # bs)), amf_string AMF_DATA_TYPE_STRING s)"
    unfolding f decode_value [OF plain_string [OF assms(2)] ev] by simp
  obtain g where g: "decode_fuel (b # bs) = Suc g" by (simp add: decode_fuel_def)
  have 2: "decode (decode_fuel (b # bs)) (b # bs) l = Inr (-1, b # bs, l, new_AMF_ITERM)" for l
    unfolding g using assms(3) by (simp add: mem_at_def)
  have "decode_loop (b # bs) (int (length (b # bs))) v = None" for v
    using decode_loop_stuck [of "b # bs" "int (length (b # bs))" v] 2 by (cases "decode_loop (b # bs) (int (length (b # bs))) v") auto
  then show ?thesis using 1 e by (subst decode_loop.simps) simp
qed

theorem amf_bad_marker_diverges_witness:
  "encode_string (\<lambda>n. n + 8) False [120] = Inr [2, 0, 1, 120] \<and> decode_loop [2, 0, 1, 120, 255] 5 [] = None"
  using amf_bad_marker_diverges [of "\<lambda>n. n + 8" "[120]" "[2, 0, 1, 120]" 255 "[]"]
  by (simp add: encode_string_def write_2_eq)

end
