(* ===== verification/Rtmp_Control.thy ===== *)
theory Rtmp_Control
  imports Rtmp_Session Amf0
begin

text \<open>
  The control and command messages of an RTMP session,
  \<open>src/net/rtmp/rtmp_control_handler.cpp\<close>. A handler works on the part of the session that server
  and client share and on the virtual function \<open>rtmp_send\<close>: the state here is that part with the
  list of the buffers passed to \<open>rtmp_send\<close>, in order. Responses are encoded with the allocator
  of theory \<open>Amf0\<close>.
\<close>

record rtmp_ctl =
  ct_base :: rtmp_session_base
  ct_sent :: "bytes list"

definition ctl_send :: "bytes \<Rightarrow> rtmp_ctl \<Rightarrow> rtmp_ctl" where
  "ctl_send data s = s\<lparr>ct_sent := ct_sent s @ [data]\<rparr>"

abbreviation upd_base :: "(rtmp_session_base \<Rightarrow> rtmp_session_base) \<Rightarrow> rtmp_ctl \<Rightarrow> rtmp_ctl" where
  "upd_base f s \<equiv> s\<lparr>ct_base := f (ct_base s)\<rparr>"

abbreviation upd_req :: "(rtmp_request \<Rightarrow> rtmp_request) \<Rightarrow> rtmp_ctl \<Rightarrow> rtmp_ctl" where
  "upd_req f s \<equiv> upd_base (\<lambda>b. b\<lparr>ss_req := f (ss_req b)\<rparr>) s"

subsection \<open>Floating-point numbers\<close>

text \<open>
  The conversions the handlers make, on the 64 bits of a \<open>double\<close>: \<open>(double)i\<close> of an integer
  of less than 53 bits, where it is exact; \<open>(int64_t)d\<close> truncates, and gives the least integer when the value
  does not fit (as on x86-64).
\<close>

fun log2 :: "nat \<Rightarrow> nat" where
  "log2 n = (if n < 2 then 0 else Suc (log2 (n div 2)))"

declare log2.simps [simp del]

definition double_of_int :: "int \<Rightarrow> u64" where
  "double_of_int i =
     (let n = nat \<bar>i\<bar>; k = log2 n in
      if n = 0 then 0
      else of_nat ((if i < 0 then 2 ^ 63 else 0) + (1023 + k) * 2 ^ 52 + (n * 2 ^ (52 - k) - 2 ^ 52)))"

definition int64_of_double :: "u64 \<Rightarrow> int" where
  "int64_of_double d =
     (let e = unat (take_bit 11 (drop_bit 52 d)); m = uint (take_bit 52 d) + 2 ^ 52;
          mag = (if e < 1075 then m div 2 ^ (1075 - e) else m * 2 ^ (e - 1075)) in
      if e < 1023 then 0 else if 1086 \<le> e then - (2 ^ 63)
      else if bit d 63 then - mag else mag)"

subsection \<open>Responses\<close>

definition g_config_chunk_size :: u32 where "g_config_chunk_size = 4096"

text \<open>A control message sent on a fresh chunk stream.\<close>

definition control_bytes :: "u32 \<Rightarrow> u8 \<Rightarrow> u32 \<Rightarrow> u32 \<Rightarrow> bytes" where
  "control_bytes chunk_size ctrl_type sz val = cs_all (snd (gen_control_message ctrl_type sz val (new_chunk_stream 0 3 chunk_size)))"

definition send_set_chunksize :: "u32 \<Rightarrow> rtmp_ctl \<Rightarrow> rtmp_ctl" where
  "send_set_chunksize chunk_size s =
     ctl_send (control_bytes (get_chunk_size (ct_base s)) RTMP_CONTROL_SET_CHUNK_SIZE 4 chunk_size) s"

text \<open>\<open>write_data_by_chunk_stream\<close> with chunk stream 3 and timestamp 0, as every response does.\<close>

definition send_amf :: "u32 \<Rightarrow> bytes \<Rightarrow> rtmp_ctl \<Rightarrow> rtmp_ctl cxx" where
  "send_amf stream_id amf s =
     cxx_bind (write_data_by_chunk_stream 3 0 RTMP_COMMAND_MESSAGES_AMF0 stream_id (get_chunk_size (ct_base s)) amf) (\<lambda>bs.
     Inr (fold ctl_send bs s))"

text \<open>An object the code builds by inserting string and number items one by one.\<close>

definition status_object :: "string \<Rightarrow> string \<Rightarrow> (bytes \<times> AMF_ITERM) list" where
  "status_object code desc =
     um_insert (lit ''description'') (amf_string AMF_DATA_TYPE_STRING (lit desc))
    (um_insert (lit ''code'') (amf_string AMF_DATA_TYPE_STRING (lit code))
    (um_insert (lit ''level'') (amf_string AMF_DATA_TYPE_STRING (lit ''status'')) []))"

definition connect_amf :: "(nat \<Rightarrow> nat) \<Rightarrow> bytes cxx" where
  "connect_amf u =
     (let resp = um_insert (lit ''capabilities'') (amf_number AMF_DATA_TYPE_NUMBER 0x403F000000000000)
                (um_insert (lit ''fmsVer'') (amf_string AMF_DATA_TYPE_STRING (lit ''FMS/3,0,1,123'')) []);
          event = status_object ''NetConnection.Connect.Success'' ''Connection succeeded.'' in
      cxx_bind (encode_string u False (lit ''_result'')) (\<lambda>a.
      cxx_bind (encode_object u resp) (\<lambda>(_, b).
      cxx_bind (encode_object u event) (\<lambda>(_, c).
      Inr (a @ encode_number 0x3FF0000000000000 @ b @ c)))))"

definition send_rtmp_connect_resp :: "(nat \<Rightarrow> nat) \<Rightarrow> u32 \<Rightarrow> rtmp_ctl \<Rightarrow> (int \<times> rtmp_ctl) cxx" where
  "send_rtmp_connect_resp u stream_id s =
     (let cz = get_chunk_size (ct_base s);
          s1 = upd_base (set_chunk_size g_config_chunk_size) s;
          s2 = ctl_send (control_bytes cz RTMP_CONTROL_WINDOW_ACK_SIZE 4 2500000) s1;
          s3 = ctl_send (control_bytes cz RTMP_CONTROL_SET_PEER_BANDWIDTH 5 2500000) s2;
          s4 = ctl_send (control_bytes cz RTMP_CONTROL_SET_CHUNK_SIZE 4 g_config_chunk_size) s3 in
      cxx_bind (connect_amf u) (\<lambda>amf.
      cxx_bind (send_amf stream_id amf s4) (\<lambda>s5.
      Inr (RTMP_OK, upd_base (\<lambda>b. b\<lparr>server_phase := create_stream_phase\<rparr>) s5))))"

definition send_rtmp_create_stream_resp :: "(nat \<Rightarrow> nat) \<Rightarrow> u64 \<Rightarrow> rtmp_ctl \<Rightarrow> (int \<times> rtmp_ctl) cxx" where
  "send_rtmp_create_stream_resp u transaction_id s =
     cxx_bind (encode_string u False (lit ''_result'')) (\<lambda>a.
     cxx_bind (send_amf (ss_stream_id (ct_base s))
        (a @ encode_number transaction_id @ encode_null @ encode_number (double_of_int (uint (ss_stream_id (ct_base s))))) s) (\<lambda>s1.
     Inr (RTMP_OK, upd_base (\<lambda>b. b\<lparr>server_phase := create_publish_play_phase\<rparr>) s1)))"

text \<open>The five \<open>onStatus\<close> responses differ in their code and description only.\<close>

definition send_status :: "(nat \<Rightarrow> nat) \<Rightarrow> string \<Rightarrow> string \<Rightarrow> rtmp_ctl \<Rightarrow> rtmp_ctl cxx" where
  "send_status u code desc s =
     cxx_bind (encode_string u False (lit ''onStatus'')) (\<lambda>a.
     cxx_bind (encode_object u (status_object code desc)) (\<lambda>(_, b).
     send_amf (ss_stream_id (ct_base s)) (a @ encode_number 0 @ encode_null @ b) s))"

definition send_rtmp_play_reset_resp :: "(nat \<Rightarrow> nat) \<Rightarrow> rtmp_ctl \<Rightarrow> rtmp_ctl cxx" where
  "send_rtmp_play_reset_resp u = send_status u ''NetStream.Play.Reset'' ''Playing and resetting stream.''"

definition send_rtmp_play_start_resp :: "(nat \<Rightarrow> nat) \<Rightarrow> rtmp_ctl \<Rightarrow> rtmp_ctl cxx" where
  "send_rtmp_play_start_resp u = send_status u ''NetStream.Play.Start'' ''Started playing stream.''"

definition send_rtmp_play_data_resp :: "(nat \<Rightarrow> nat) \<Rightarrow> rtmp_ctl \<Rightarrow> rtmp_ctl cxx" where
  "send_rtmp_play_data_resp u = send_status u ''NetStream.Data.Start'' ''Started playing stream.''"

definition send_rtmp_play_notify_resp :: "(nat \<Rightarrow> nat) \<Rightarrow> rtmp_ctl \<Rightarrow> rtmp_ctl cxx" where
  "send_rtmp_play_notify_resp u = send_status u ''NetStream.Play.PublishNotify'' ''Started playing notify.''"

definition send_rtmp_play_resp :: "(nat \<Rightarrow> nat) \<Rightarrow> rtmp_ctl \<Rightarrow> (int \<times> rtmp_ctl) cxx" where
  "send_rtmp_play_resp u s =
     (let s1 = ctl_send (cs_all (snd (gen_set_recorded_message (new_chunk_stream 0 3 6)))) s;
          s2 = ctl_send (cs_all (snd (gen_set_begin_message (new_chunk_stream 0 3 6)))) s1 in
      cxx_bind (send_rtmp_play_reset_resp u s2) (\<lambda>s3.
      cxx_bind (send_rtmp_play_start_resp u s3) (\<lambda>s4.
      cxx_bind (send_rtmp_play_data_resp u s4) (\<lambda>s5.
      cxx_bind (send_rtmp_play_notify_resp u s5) (\<lambda>s6.
      Inr (RTMP_OK, s6))))))"

definition send_rtmp_publish_resp :: "(nat \<Rightarrow> nat) \<Rightarrow> rtmp_ctl \<Rightarrow> (int \<times> rtmp_ctl) cxx" where
  "send_rtmp_publish_resp u s =
     cxx_bind (send_status u ''NetStream.Publish.Start'' ''Start publising.'' s) (\<lambda>s1.
     Inr (RTMP_OK, upd_base (\<lambda>b. b\<lparr>server_phase := media_handle_phase\<rparr>) s1))"

definition send_rtmp_ack :: "u32 \<Rightarrow> rtmp_ctl \<Rightarrow> rtmp_ctl" where
  "send_rtmp_ack n s0 =
     (let s = upd_base (\<lambda>b. b\<lparr>ack_received := ack_received b + n\<rparr>) s0; cz = get_chunk_size (ct_base s) in
      if remote_window_acksize (ct_base s) < ack_received (ct_base s) then
        upd_base (\<lambda>b. b\<lparr>ack_received := 0\<rparr>) (ctl_send (control_bytes cz RTMP_CONTROL_ACK 4 cz) s)
      else s)"

subsection \<open>Control messages\<close>

definition handle_rtmp_control_message :: "chunk_stream \<Rightarrow> rtmp_ctl \<Rightarrow> (int \<times> rtmp_ctl) cxx" where
  "handle_rtmp_control_message c s =
     (if cs_type_id c = RTMP_CONTROL_SET_CHUNK_SIZE then
        if length (cs_data c) < 4 then Inr (-1, s)
        else cxx_bind (read_4bytes (cs_data c)) (\<lambda>n.
          let s1 = upd_base (set_chunk_size n) s in Inr (RTMP_OK, send_set_chunksize (get_chunk_size (ct_base s1)) s1))
      else if cs_type_id c = RTMP_CONTROL_WINDOW_ACK_SIZE then
        if length (cs_data c) < 4 then Inr (-1, s)
        else cxx_bind (read_4bytes (cs_data c)) (\<lambda>n. Inr (RTMP_OK, upd_base (\<lambda>b. b\<lparr>remote_window_acksize := n\<rparr>) s))
      else Inr (RTMP_OK, s))"

subsection \<open>Commands\<close>

text \<open>
  The scans of the argument vector. \<open>connect_items\<close> is the loop of \<open>handle_rtmp_connect_command\<close>:
  \<open>None\<close> is its return of -1, with the request as it is by then.
\<close>

definition string_prop :: "string \<Rightarrow> (bytes \<Rightarrow> rtmp_request \<Rightarrow> rtmp_request) \<Rightarrow> AMF_ITERM \<Rightarrow> rtmp_request \<Rightarrow> bool \<times> rtmp_request" where
  "string_prop key upd item req =
     (case map_of (amf_obj item) (lit key) of
        None \<Rightarrow> (True, req)
      | Some v \<Rightarrow> if amf_type v \<noteq> AMF_DATA_TYPE_STRING then (False, req) else (True, upd (desc_str v) req))"

definition connect_item :: "AMF_ITERM \<Rightarrow> rtmp_request \<Rightarrow> bool \<times> rtmp_request" where
  "connect_item item req =
     (if amf_type item = AMF_DATA_TYPE_OBJECT then
        let (ok1, req1) = string_prop ''app'' (\<lambda>v r. r\<lparr>rq_app := v\<rparr>) item req in
        if \<not> ok1 then (False, req1) else
        let (ok2, req2) = string_prop ''tcUrl'' (\<lambda>v r. r\<lparr>rq_tcurl := v\<rparr>) item req1 in
        if \<not> ok2 then (False, req2) else
        string_prop ''flashVer'' (\<lambda>v r. r\<lparr>rq_flash_ver := v\<rparr>) item req2
      else (True, req))"

fun connect_items :: "AMF_ITERM list \<Rightarrow> rtmp_request \<Rightarrow> bool \<times> rtmp_request" where
  "connect_items [] req = (True, req)"
| "connect_items (item # items) req =
     (let (ok, req') = connect_item item req in if ok then connect_items items req' else (False, req'))"

definition handle_rtmp_connect_command :: "(nat \<Rightarrow> nat) \<Rightarrow> AMF_ITERM list \<Rightarrow> rtmp_ctl \<Rightarrow> (int \<times> rtmp_ctl) cxx" where
  "handle_rtmp_connect_command u amf_vec s =
     (if length amf_vec < 3 then Inr (-1, s)
      else
        let (ok, req) = connect_items (tl amf_vec) (ss_req (ct_base s)); s1 = upd_req (\<lambda>_. req) s in
        if \<not> ok then Inr (-1, s1) else send_rtmp_connect_resp u (ss_stream_id (ct_base s1)) s1)"

text \<open>The last number, and the first non-empty string, of the arguments.\<close>

definition transaction_item :: "AMF_ITERM \<Rightarrow> u64 \<Rightarrow> u64" where
  "transaction_item item tid = (if amf_type item = AMF_DATA_TYPE_NUMBER then number item else tid)"

definition transaction_of :: "AMF_ITERM list \<Rightarrow> u64" where
  "transaction_of items = fold transaction_item items 0"

definition has_number :: "AMF_ITERM list \<Rightarrow> bool" where
  "has_number items = list_ex (\<lambda>i. amf_type i = AMF_DATA_TYPE_NUMBER) items"

definition set_transaction :: "AMF_ITERM list \<Rightarrow> rtmp_request \<Rightarrow> rtmp_request" where
  "set_transaction items req =
     (if has_number items then req\<lparr>rq_transaction_id := int64_of_double (transaction_of items)\<rparr> else req)"

definition name_item :: "AMF_ITERM \<Rightarrow> bytes \<Rightarrow> bytes" where
  "name_item item name = (if amf_type item = AMF_DATA_TYPE_STRING \<and> name = [] then desc_str item else name)"

definition stream_name_of :: "AMF_ITERM list \<Rightarrow> bytes" where
  "stream_name_of items = fold name_item items []"

definition handle_rtmp_createstream_command :: "(nat \<Rightarrow> nat) \<Rightarrow> u32 \<Rightarrow> AMF_ITERM list \<Rightarrow> rtmp_ctl \<Rightarrow> (int \<times> rtmp_ctl) cxx" where
  "handle_rtmp_createstream_command u stream_id amf_vec s =
     (if length amf_vec < 3 then Inr (-1, s)
      else
        let items = tl amf_vec; s1 = upd_req (\<lambda>r. set_transaction items (r\<lparr>rq_stream_id := stream_id\<rparr>)) s in
        send_rtmp_create_stream_resp u (transaction_of items) s1)"

definition ready_request :: "bool \<Rightarrow> AMF_ITERM list \<Rightarrow> rtmp_request \<Rightarrow> rtmp_request" where
  "ready_request publish items r0 =
     (let r = set_transaction items r0; name = stream_name_of items in
      r\<lparr>rq_stream_name := name, rq_publish_flag := publish, rq_is_ready := True, rq_key := rq_app r @ lit ''/'' @ name\<rparr>)"

definition handle_rtmp_play_command :: "(nat \<Rightarrow> nat) \<Rightarrow> AMF_ITERM list \<Rightarrow> rtmp_ctl \<Rightarrow> (int \<times> rtmp_ctl) cxx" where
  "handle_rtmp_play_command u amf_vec s =
     (if length amf_vec < 3 then Inr (-1, s)
      else send_rtmp_play_resp u (upd_req (ready_request False (tl amf_vec)) s))"

definition handle_rtmp_publish_command :: "(nat \<Rightarrow> nat) \<Rightarrow> AMF_ITERM list \<Rightarrow> rtmp_ctl \<Rightarrow> (int \<times> rtmp_ctl) cxx" where
  "handle_rtmp_publish_command u amf_vec s =
     (if length amf_vec < 3 then Inr (-1, s)
      else send_rtmp_publish_resp u (upd_req (ready_request True (tl amf_vec)) s))"

definition dispatch_command :: "(nat \<Rightarrow> nat) \<Rightarrow> u32 \<Rightarrow> AMF_ITERM list \<Rightarrow> rtmp_ctl \<Rightarrow> (int \<times> rtmp_ctl) cxx" where
  "dispatch_command u stream_id amf_vec s =
     (let cmd_type = desc_str (hd amf_vec) in
      if cmd_type = lit ''connect'' then handle_rtmp_connect_command u amf_vec s
      else if cmd_type = lit ''createStream'' then handle_rtmp_createstream_command u stream_id amf_vec s
      else if cmd_type = lit ''publish'' then handle_rtmp_publish_command u amf_vec s
      else if cmd_type = lit ''play'' then handle_rtmp_play_command u amf_vec s
      else Inr (0, s))"

definition handle_client_command_message :: "(nat \<Rightarrow> nat) \<Rightarrow> chunk_stream \<Rightarrow> rtmp_ctl \<Rightarrow> (int \<times> rtmp_ctl) cxx" where
  "handle_client_command_message u c s =
     cxx_bind (decode_command (cs_data c)) (\<lambda>amf_vec.
     if amf_vec = [] then Inr (-1, s)
     else if amf_type (hd amf_vec) \<noteq> AMF_DATA_TYPE_STRING then Inr (-1, s)
     else
       cxx_bind (dispatch_command u (cs_msg_stream_id c) amf_vec s) (\<lambda>(ret, s1).
       if ret = RTMP_OK then
         if rq_is_ready (ss_req (ct_base s1)) \<and> \<not> rq_publish_flag (ss_req (ct_base s1)) then Inr (ret, s1)
         else Inr (RTMP_NEED_READ_MORE, s1)
       else Inr (ret, s1)))"

subsection \<open>What a client does with a command of the server\<close>

definition is_cmd :: "AMF_ITERM \<Rightarrow> string list \<Rightarrow> bool" where
  "is_cmd item names \<longleftrightarrow> desc_str item \<in> lit ` set names"

text \<open>
  One round of the loop over the items: whether it goes on (\<open>False\<close> is the return of -1), and the
  next phase.
\<close>

definition server_string :: "rtmp_session_base \<Rightarrow> AMF_ITERM \<Rightarrow> RTMP_CLIENT_SESSION_PHASE \<Rightarrow> bool \<times> RTMP_CLIENT_SESSION_PHASE" where
  "server_string b item next_phase =
     (let ph = client_phase b in
      if ph \<in> {client_connect_phase, client_connect_resp_phase, client_create_stream_phase, client_create_stream_resp_phase} then
        if \<not> is_cmd item [''_result'', ''onBWDone''] then (False, next_phase)
        else (True,
          if \<not> is_cmd item [''_result''] then next_phase
          else if ph \<in> {client_connect_phase, client_connect_resp_phase} then client_create_stream_phase
          else if is_publish b then client_create_publish_phase else client_create_play_phase)
      else if ph \<in> {client_create_publish_phase, client_create_play_phase} \<and> \<not> is_cmd item [''_result'', ''onStatus'']
      then (False, next_phase)
      else (True, next_phase))"

definition server_object :: "rtmp_session_base \<Rightarrow> AMF_ITERM \<Rightarrow> bool" where
  "server_object b item =
     (case map_of (amf_obj item) (lit ''code'') of
        None \<Rightarrow> True
      | Some v \<Rightarrow>
          if amf_type v \<noteq> AMF_DATA_TYPE_STRING then True
          else if client_phase b = client_connect_phase then is_cmd v [''NetConnection.Connect.Success'']
          else if client_phase b \<in> {client_create_publish_phase, client_create_play_phase}
          then is_cmd v [''NetStream.Publish.Start'', ''NetStream.Play.Start'']
          else True)"

fun server_items :: "rtmp_session_base \<Rightarrow> AMF_ITERM list \<Rightarrow> RTMP_CLIENT_SESSION_PHASE \<Rightarrow> RTMP_CLIENT_SESSION_PHASE option" where
  "server_items b [] next_phase = Some next_phase"
| "server_items b (item # items) next_phase =
     (if amf_type item = AMF_DATA_TYPE_STRING then
        let (ok, nx) = server_string b item next_phase in if ok then server_items b items nx else None
      else if amf_type item = AMF_DATA_TYPE_OBJECT then
        if server_object b item then server_items b items next_phase else None
      else server_items b items next_phase)"

definition handle_server_command_message :: "chunk_stream \<Rightarrow> rtmp_session_base \<Rightarrow> (int \<times> rtmp_session_base) cxx" where
  "handle_server_command_message c b =
     cxx_bind (decode_command (cs_data c)) (\<lambda>amf_vec.
     if amf_vec = [] then Inr (-1, b)
     else case server_items b amf_vec (client_phase b) of
       None \<Rightarrow> Inr (-1, b)
     | Some next_phase \<Rightarrow> Inr (0, b\<lparr>client_phase := next_phase\<rparr>))"

subsection \<open>An allocator that makes the encoder work\<close>

text \<open>What the allocator of glibc lets a block of \<open>n\<close> bytes hold (\<open>malloc_usable_size\<close>, 64 bits).\<close>

definition glibc_usable :: "nat \<Rightarrow> nat" where
  "glibc_usable n = max 24 ((n + 23) div 16 * 16 - 8)"

definition roomy :: "(nat \<Rightarrow> nat) \<Rightarrow> bool" where
  "roomy u \<longleftrightarrow> (\<forall>n. glibc_usable n \<le> u n)"

text \<open>Strings whose overflow stays inside the block.\<close>

definition fits :: "bytes \<Rightarrow> bool" where
  "fits s \<longleftrightarrow> length s \<le> 1000 \<and> length s + 3 \<le> glibc_usable (length s + 2)"

lemma glibc_usable_ge: "n \<le> glibc_usable n"
  unfolding glibc_usable_def by presburger

lemma encode_string_roomy:
  assumes "roomy u" "length s \<le> 1000"
  shows "encode_string u True s = Inr (write_2bytes (of_nat (length s)) @ s)"
    "fits s \<Longrightarrow> encode_string u False s = Inr (2 # write_2bytes (of_nat (length s)) @ s)"
proof -
  have n: "unat (of_nat (length s) :: u16) = length s" by (rule unat_u16_length) (use assms(2) in simp)
  have u: "glibc_usable (2 + length s) \<le> u (2 + length s)" using assms(1) by (simp add: roomy_def)
  then have "2 + length s \<le> u (2 + length s)" using glibc_usable_ge [of "2 + length s"] by linarith
  then show "encode_string u True s = Inr (write_2bytes (of_nat (length s)) @ s)" using n assms(2) by (simp add: encode_string_def)
  show "encode_string u False s = Inr (2 # write_2bytes (of_nat (length s)) @ s)" if "fits s"
    using that u n assms(2) by (simp add: encode_string_def fits_def add.commute)
qed

lemma status_encodes:
  assumes "roomy u" "fits (lit code)" "fits (lit desc)"
  shows "\<exists>b. encode_object u (status_object code desc) = Inr (0, b) \<and> length b < 3000"
proof -
  have ne: "lit ''code'' \<noteq> lit ''level''" "lit ''description'' \<noteq> lit ''level''" "lit ''description'' \<noteq> lit ''code''"
    by (rule notI, drule arg_cong [of _ _ length], simp)+
  have m: "status_object code desc =
     [(lit ''description'', amf_string AMF_DATA_TYPE_STRING (lit desc)), (lit ''code'', amf_string AMF_DATA_TYPE_STRING (lit code)),
      (lit ''level'', amf_string AMF_DATA_TYPE_STRING (lit ''status''))]"
    using ne by (simp add: status_object_def um_insert_def)
  have st: "fits (lit ''status'')" by (simp add: fits_def glibc_usable_def)
  have v: "encode_value u (amf_string AMF_DATA_TYPE_STRING s) = Inr (Some (2 # write_2bytes (of_nat (length s)) @ s))" if "fits s" for s
    using encode_string_roomy(2) [OF assms(1), of s] that by (simp add: encode_value_def amf_string_def fits_def)
  show ?thesis unfolding m encode_object_def using encode_string_roomy(1) [OF assms(1)] v [OF assms(2)] v [OF assms(3)] v [OF st] assms(2,3)
    by (simp add: fits_def)
qed

text \<open>With such an allocator and a chunk size, every response is sent.\<close>

lemma send_amf_returns:
  assumes "get_chunk_size (ct_base s) \<noteq> 0" "amf \<noteq> []" "length amf < 2 ^ 24"
  shows "\<exists>bs. send_amf i amf s = Inr (fold ctl_send bs s)"
  using write_wire [of "get_chunk_size (ct_base s)" amf 3 0 RTMP_COMMAND_MESSAGES_AMF0 i] assms by (auto simp: send_amf_def)

lemma send_status_returns:
  assumes "roomy u" "fits (lit code)" "fits (lit desc)" "get_chunk_size (ct_base s) \<noteq> 0"
  shows "\<exists>bs. send_status u code desc s = Inr (fold ctl_send bs s)"
proof -
  obtain b where b: "encode_object u (status_object code desc) = Inr (0, b)" "length b < 3000"
    using status_encodes [OF assms(1-3)] by blast
  have "fits (lit ''onStatus'')" by (simp add: fits_def glibc_usable_def)
  then have "encode_string u False (lit ''onStatus'') = Inr (2 # write_2bytes (of_nat (length (lit ''onStatus''))) @ lit ''onStatus'')"
    using encode_string_roomy(2) [OF assms(1), of "lit ''onStatus''"] by simp
  then show ?thesis
    using b send_amf_returns [OF assms(4)] by (simp add: send_status_def encode_number_def encode_null_def)
qed

end
