(* ===== verification/Rtmp_Server.thy ===== *)
theory Rtmp_Server
  imports Rtmp_Control Http
begin

text \<open>
  The RTMP session of the server, \<open>src/net/rtmp/rtmp_server_session.cpp\<close>, with the server side of
  the handshake (\<open>rtmp_handshake.cpp\<close>). Calls that leave the session (the socket, the stream
  manager, the server) are recorded in \<open>sv_calls\<close> in the order the code makes them; none of
  them gives back anything the session looks at.

  What \<open>rtmp_handshake.hpp\<close> computes with OpenSSL (the checks and the digests of C1, S1 and S2)
  is the record \<open>handshake\<close> of two functions.
\<close>

datatype rtmp_call =
    Rtmp_send bytes | Add_player | Remove_player | Delete_writer | Remove_publisher bytes
  | Publish MEDIA_PACKET | On_close | Tcp_close | Try_read

record rtmp_server_session =
  sv_base :: rtmp_session_base
  sv_aliver :: session_aliver
  sv_c1 :: bytes
  sv_play_writer :: bool
  sv_closed_flag :: bool
  sv_calls :: "rtmp_call list"

definition call :: "rtmp_call \<Rightarrow> rtmp_server_session \<Rightarrow> rtmp_server_session" where
  "call c s = s\<lparr>sv_calls := sv_calls s @ [c]\<rparr>"

definition new_rtmp_server_session :: rtmp_server_session where
  "new_rtmp_server_session = \<lparr>sv_base = new_rtmp_session_base, sv_aliver = new_session_aliver, sv_c1 = [],
     sv_play_writer = False, sv_closed_flag = False, sv_calls = [Try_read]\<rparr>"

definition rtmp_send :: "bytes \<Rightarrow> rtmp_server_session \<Rightarrow> rtmp_server_session" where
  "rtmp_send data s = call (Rtmp_send data) (s\<lparr>sv_aliver := keep_alive (sv_aliver s)\<rparr>)"

definition rtmp_close :: "rtmp_server_session \<Rightarrow> rtmp_server_session" where
  "rtmp_close s0 =
     (if sv_closed_flag s0 then s0
      else
        let s = s0\<lparr>sv_closed_flag := True\<rparr>; req = ss_req (sv_base s);
            s1 = (if rq_is_ready req \<and> \<not> rq_publish_flag req then
                    if sv_play_writer s then call Delete_writer (call Remove_player s) else s
                  else if rq_key req \<noteq> [] then call (Remove_publisher (rq_key req)) s else s)
        in call Tcp_close (call On_close s1))"

text \<open>A call of the control handler on the session.\<close>

definition with_ctl :: "(rtmp_ctl \<Rightarrow> 'a \<times> rtmp_ctl) \<Rightarrow> rtmp_server_session \<Rightarrow> 'a \<times> rtmp_server_session" where
  "with_ctl f s = (let (r, c) = f \<lparr>ct_base = sv_base s, ct_sent = []\<rparr> in (r, fold rtmp_send (ct_sent c) (s\<lparr>sv_base := ct_base c\<rparr>)))"

definition with_ctl_cxx :: "(rtmp_ctl \<Rightarrow> (int \<times> rtmp_ctl) cxx) \<Rightarrow> rtmp_server_session \<Rightarrow> (int \<times> rtmp_server_session) cxx" where
  "with_ctl_cxx f s =
     cxx_bind (f \<lparr>ct_base = sv_base s, ct_sent = []\<rparr>) (\<lambda>(r, c). Inr (r, fold rtmp_send (ct_sent c) (s\<lparr>sv_base := ct_base c\<rparr>)))"

text \<open>\<open>cs_ptr->reset()\<close>, for the chunk stream \<open>c\<close> that the map has under \<open>k\<close>.\<close>

definition reset_at :: "u8 \<Rightarrow> chunk_stream \<Rightarrow> rtmp_server_session \<Rightarrow> rtmp_server_session" where
  "reset_at k c s = s\<lparr>sv_base := (sv_base s)\<lparr>cs_map := AList.update k (reset_chunk_stream c) (cs_map (sv_base s))\<rparr>\<rparr>"

text \<open>
  The body of the loop of \<open>receive_chunk_stream\<close> for a complete message: whether the loop may go
  on, the value of \<open>ret\<close>, and the session.
\<close>

definition RTMP_COMMAND_MESSAGES_AMF3 :: u8 where "RTMP_COMMAND_MESSAGES_AMF3 = 17"

definition handle_media :: "u8 \<Rightarrow> chunk_stream \<Rightarrow> rtmp_server_session \<Rightarrow> (bool \<times> int \<times> rtmp_server_session) cxx" where
  "handle_media k c s =
     cxx_bind (get_media_packet (ss_req (sv_base s)) c) (\<lambda>p. case p of
       None \<Rightarrow> Inl NullDeref
     | Some pkt \<Rightarrow>
         if pkt_buffer pkt = [] then Inr (False, -1, s)
         else Inr (True, RTMP_OK, reset_at k c (call (Publish pkt) (s\<lparr>sv_aliver := keep_alive (sv_aliver s)\<rparr>))))"

definition handle_command :: "(nat \<Rightarrow> nat) \<Rightarrow> u8 \<Rightarrow> chunk_stream \<Rightarrow> rtmp_server_session \<Rightarrow> (bool \<times> int \<times> rtmp_server_session) cxx" where
  "handle_command u k c s =
     cxx_bind (with_ctl_cxx (handle_client_command_message u c) s) (\<lambda>(ret, s1).
     if ret < RTMP_OK then Inr (False, ret, s1)
     else
       let s2 = reset_at k c s1; req = ss_req (sv_base s2) in
       Inr (True, ret, if rq_is_ready req \<and> \<not> rq_publish_flag req then call Add_player (s2\<lparr>sv_play_writer := True\<rparr>) else s2))"

definition handle_message :: "(nat \<Rightarrow> nat) \<Rightarrow> u8 \<Rightarrow> chunk_stream \<Rightarrow> rtmp_server_session \<Rightarrow> (bool \<times> int \<times> rtmp_server_session) cxx" where
  "handle_message u k c s0 =
     (let (_, s) = with_ctl (\<lambda>ct. ((), send_rtmp_ack (of_nat (length (cs_data c))) ct)) s0; ty = cs_type_id c in
      if RTMP_CONTROL_SET_CHUNK_SIZE \<le> ty \<and> ty \<le> RTMP_CONTROL_SET_PEER_BANDWIDTH then
        cxx_bind (with_ctl_cxx (handle_rtmp_control_message c) s) (\<lambda>(ret, s1).
        if ret < RTMP_OK then Inr (False, ret, s1) else Inr (True, ret, reset_at k c s1))
      else if ty = RTMP_COMMAND_MESSAGES_AMF0 then handle_command u k c s
      else if ty = RTMP_COMMAND_MESSAGES_AMF3 then Inr (False, -1, s)
      else if ty \<in> {RTMP_MEDIA_PACKET_VIDEO, RTMP_MEDIA_PACKET_AUDIO, RTMP_COMMAND_MESSAGES_META_DATA0, RTMP_COMMAND_MESSAGES_META_DATA3}
      then handle_media k c s
      else Inr (True, RTMP_OK, reset_at k c s))"

subsection \<open>The handlers leave the input alone\<close>

text \<open>What of a session decides about reading on.\<close>

definition input_of :: "rtmp_session_base \<Rightarrow> bytes \<times> bool \<times> u8 \<times> u16 \<times> (u8 \<times> chunk_stream) list" where
  "input_of b = (recv_buffer b, fmt_ready b, ss_fmt b, ss_csid b, cs_map b)"

definition keeps_input :: "(rtmp_ctl \<Rightarrow> (int \<times> rtmp_ctl) cxx) \<Rightarrow> bool" where
  "keeps_input f \<longleftrightarrow> (\<forall>s r s'. f s = Inr (r, s') \<longrightarrow> input_of (ct_base s') = input_of (ct_base s))"

lemma input_of_upd [simp]:
  "input_of (b\<lparr>ss_req := r\<rparr>) = input_of b" "input_of (b\<lparr>server_phase := ph\<rparr>) = input_of b"
  "input_of (b\<lparr>ack_received := n\<rparr>) = input_of b" "input_of (b\<lparr>remote_window_acksize := n\<rparr>) = input_of b"
  "input_of (set_chunk_size n b) = input_of b"
  by (simp_all add: input_of_def set_chunk_size_def)

lemma ctl_send_base [simp]: "ct_base (ctl_send d s) = ct_base s" "ct_base (fold ctl_send ds s) = ct_base s"
proof -
  show one: "ct_base (ctl_send d s) = ct_base s" for d s by (simp add: ctl_send_def)
  show "ct_base (fold ctl_send ds s) = ct_base s" by (induction ds arbitrary: s) (simp_all add: one)
qed

lemma send_amf_base [dest]: "send_amf i a s = Inr s' \<Longrightarrow> ct_base s' = ct_base s"
  by (auto simp: send_amf_def cxx_bind_Inr_iff)

lemma send_status_base: "send_status u code desc s = Inr s' \<Longrightarrow> ct_base s' = ct_base s"
  by (auto simp: send_status_def cxx_bind_Inr_iff)

lemma play_resp_base: "send_rtmp_play_resp u s = Inr (r, s') \<Longrightarrow> ct_base s' = ct_base s \<and> r = RTMP_OK"
  unfolding send_rtmp_play_resp_def Let_def cxx_bind_Inr_iff send_rtmp_play_reset_resp_def send_rtmp_play_start_resp_def
    send_rtmp_play_data_resp_def send_rtmp_play_notify_resp_def
  by (elim exE conjE) (simp add: send_status_base)

lemma control_keeps_input: "keeps_input (handle_rtmp_control_message c)"
  by (auto simp: keeps_input_def handle_rtmp_control_message_def cxx_bind_Inr_iff Let_def send_set_chunksize_def split: if_splits)

lemma connect_resp_input: "send_rtmp_connect_resp u i s = Inr (r, s') \<Longrightarrow> input_of (ct_base s') = input_of (ct_base s)"
  by (auto simp: send_rtmp_connect_resp_def cxx_bind_Inr_iff Let_def)

lemma create_resp_input: "send_rtmp_create_stream_resp u t s = Inr (r, s') \<Longrightarrow> input_of (ct_base s') = input_of (ct_base s)"
  by (auto simp: send_rtmp_create_stream_resp_def cxx_bind_Inr_iff)

lemma publish_resp_input: "send_rtmp_publish_resp u s = Inr (r, s') \<Longrightarrow> input_of (ct_base s') = input_of (ct_base s)"
  by (auto simp: send_rtmp_publish_resp_def cxx_bind_Inr_iff dest!: send_status_base)

lemma dispatch_input: "dispatch_command u i v s = Inr (r, s') \<Longrightarrow> input_of (ct_base s') = input_of (ct_base s)"
  by (auto simp: dispatch_command_def handle_rtmp_connect_command_def handle_rtmp_createstream_command_def
      handle_rtmp_publish_command_def handle_rtmp_play_command_def Let_def
    dest!: connect_resp_input create_resp_input publish_resp_input play_resp_base split: if_splits prod.splits)

lemma command_keeps_input: "keeps_input (handle_client_command_message u c)"
  by (auto simp: keeps_input_def handle_client_command_message_def cxx_bind_Inr_iff split: if_splits dest!: dispatch_input)

lemma rtmp_send_base [simp]: "sv_base (rtmp_send d s) = sv_base s" "sv_base (fold rtmp_send ds s) = sv_base s"
proof -
  show one: "sv_base (rtmp_send d s) = sv_base s" for d s by (simp add: rtmp_send_def call_def)
  show "sv_base (fold rtmp_send ds s) = sv_base s" by (induction ds arbitrary: s) (simp_all add: one)
qed

lemma call_base [simp]: "sv_base (call x s) = sv_base s"
  by (simp add: call_def)

lemma with_ctl_input:
  "keeps_input f \<Longrightarrow> with_ctl_cxx f s = Inr (r, s') \<Longrightarrow> input_of (sv_base s') = input_of (sv_base s)"
  by (fastforce simp: keeps_input_def with_ctl_cxx_def cxx_bind_Inr_iff)

lemma ack_input: "with_ctl (\<lambda>ct. ((), send_rtmp_ack n ct)) s = ((), s') \<Longrightarrow> input_of (sv_base s') = input_of (sv_base s)"
  by (auto simp: with_ctl_def send_rtmp_ack_def Let_def split: if_splits)

lemma measure_input:
  "input_of b' = input_of b \<Longrightarrow> ss_measure b' = ss_measure b \<and> ss_inv b' = ss_inv b \<and> recv_buffer b' = recv_buffer b \<and> cs_map b' = cs_map b"
  by (simp add: input_of_def ss_measure_def ss_inv_def)

text \<open>A handled message changes the chunk streams only where it resets one.\<close>

definition same_reader :: "rtmp_server_session \<Rightarrow> rtmp_server_session \<Rightarrow> bool" where
  "same_reader s s' \<longleftrightarrow> ss_measure (sv_base s') = ss_measure (sv_base s) \<and> ss_inv (sv_base s') = ss_inv (sv_base s) \<and>
     recv_buffer (sv_base s') = recv_buffer (sv_base s)"

lemma reset_at_reader [simp]: "ss_measure (sv_base (reset_at k c s)) = ss_measure (sv_base s)"
  "ss_inv (sv_base (reset_at k c s)) = ss_inv (sv_base s)" "recv_buffer (sv_base (reset_at k c s)) = recv_buffer (sv_base s)"
  by (simp_all add: reset_at_def ss_measure_def ss_inv_def)

lemma handle_message_reader:
  assumes "handle_message u k c s = Inr (go, r, s')" shows "same_reader s s'"
proof -
  obtain s1 where ack: "with_ctl (\<lambda>ct. ((), send_rtmp_ack (of_nat (length (cs_data c))) ct)) s = ((), s1)"
    by (cases "with_ctl (\<lambda>ct. ((), send_rtmp_ack (of_nat (length (cs_data c))) ct)) s") auto
  note a = measure_input [OF ack_input [OF ack]]
  have ctl: "same_reader s s2" if "with_ctl_cxx f s1 = Inr (q, s2)" "keeps_input f" for f q s2
    using measure_input [OF with_ctl_input [OF that(2,1)]] a by (simp add: same_reader_def)
  show ?thesis using assms ack a
    by (auto simp: handle_message_def handle_command_def handle_media_def cxx_bind_Inr_iff Let_def same_reader_def
      split: if_splits option.splits dest!: ctl [OF _ control_keeps_input] ctl [OF _ command_keeps_input])
qed

lemma read_loop_measure:
  "read_loop s = Inr (r, s', k) \<Longrightarrow> r = RTMP_OK \<Longrightarrow> ss_measure s' < ss_measure s \<and> (\<exists>j c. k = Some j \<and> map_of (cs_map s') j = Some c)"
proof (induction s arbitrary: r s' k rule: read_loop.induct)
  case (1 s)
  obtain q s1 j where h: "read_chunk_stream s = Inr (q, s1, j)" using 1(2) by (cases "read_chunk_stream s") (auto simp: read_loop.simps [of s])
  have q: "q = RTMP_OK" using 1(2,3) h by (auto simp: read_loop.simps [of s] split: if_splits)
  note m = read_chunk_stream_measure [OF h q]
  show ?case
  proof (cases "cs_is_ready s1 j")
    case True
    then have "s' = s1" "k = j" using 1(2) h q by (auto simp: read_loop.simps [of s])
    then show ?thesis using m True by (auto simp: cs_is_ready_def split: option.splits)
  next
    case False
    then have "recv_buffer s1 \<noteq> []" "read_loop s1 = Inr (r, s', k)"
      using 1(2,3) h q by (auto simp: read_loop.simps [of s] RTMP_OK_def RTMP_NEED_READ_MORE_def split: if_splits)
    then show ?thesis using 1(1) [OF h refl refl _ False] q m 1(3) by fastforce
  qed
qed

subsection \<open>Receiving\<close>

definition message_of :: "rtmp_session_base \<Rightarrow> u8 option \<Rightarrow> (u8 \<times> chunk_stream) option" where
  "message_of b k = (case k of None \<Rightarrow> None | Some j \<Rightarrow> map_option (Pair j) (map_of (cs_map b) j))"

function receive_chunk_stream :: "(nat \<Rightarrow> nat) \<Rightarrow> rtmp_server_session \<Rightarrow> (int \<times> rtmp_server_session) cxx" where
  "receive_chunk_stream u s =
     cxx_bind (read_loop (sv_base s)) (\<lambda>(ret, b, k).
     let s1 = s\<lparr>sv_base := b\<rparr> in
     if ret \<noteq> RTMP_OK then Inr (ret, s1)
     else case message_of b k of
       None \<Rightarrow> Inl NullDeref
     | Some (j, c) \<Rightarrow>
         cxx_bind (handle_message u j c s1) (\<lambda>(go, ret2, s2).
         if go \<and> recv_buffer (sv_base s2) \<noteq> [] then receive_chunk_stream u s2 else Inr (ret2, s2)))"
  by pat_completeness auto
termination
  by (relation "measure (\<lambda>(u, s). ss_measure (sv_base s))")
     (auto dest!: read_loop_measure handle_message_reader simp: same_reader_def)

declare receive_chunk_stream.simps [simp del]

subsection \<open>The session\<close>

record handshake =
  hs_parse_c1 :: "bytes \<Rightarrow> int"
  hs_s1s2 :: "bytes \<Rightarrow> (bytes \<times> bytes) option"

definition RTMP_HANDSHAKE_VERSION :: u8 where "RTMP_HANDSHAKE_VERSION = 3"

definition upd_recv :: "(bytes \<Rightarrow> bytes) \<Rightarrow> rtmp_server_session \<Rightarrow> rtmp_server_session" where
  "upd_recv f s = s\<lparr>sv_base := (sv_base s)\<lparr>recv_buffer := f (recv_buffer (sv_base s))\<rparr>\<rparr>"

definition set_phase :: "RTMP_SERVER_SESSION_PHASE \<Rightarrow> rtmp_server_session \<Rightarrow> rtmp_server_session" where
  "set_phase ph s = s\<lparr>sv_base := (sv_base s)\<lparr>server_phase := ph\<rparr>\<rparr>"

definition handle_c0c1 :: "handshake \<Rightarrow> rtmp_server_session \<Rightarrow> int \<times> rtmp_server_session" where
  "handle_c0c1 h s =
     (let buf = recv_buffer (sv_base s) in
      if length buf < 1 + 1536 then (RTMP_NEED_READ_MORE, s)
      else let c1 = take 1536 (drop 1 buf) in (hs_parse_c1 h c1, s\<lparr>sv_c1 := c1\<rparr>))"

definition handle_c2 :: "rtmp_server_session \<Rightarrow> int \<times> rtmp_server_session" where
  "handle_c2 s = (if length (recv_buffer (sv_base s)) < 1536 then (RTMP_NEED_READ_MORE, s) else (RTMP_OK, upd_recv (drop 1536) s))"

definition send_s0s1s2 :: "handshake \<Rightarrow> rtmp_server_session \<Rightarrow> int \<times> rtmp_server_session" where
  "send_s0s1s2 h s =
     (case hs_s1s2 h (sv_c1 s) of
        None \<Rightarrow> (-1, s)
      | Some (s1, s2) \<Rightarrow> (RTMP_NEED_READ_MORE, rtmp_send ([RTMP_HANDSHAKE_VERSION] @ s1 @ s2) s))"

definition handle_request :: "(nat \<Rightarrow> nat) \<Rightarrow> handshake \<Rightarrow> rtmp_server_session \<Rightarrow> (int \<times> rtmp_server_session) cxx" where
  "handle_request u h s =
     (case server_phase (sv_base s) of
        initial_phase \<Rightarrow>
          let (ret, s1) = handle_c0c1 h s in
          if ret < 0 \<or> ret = RTMP_NEED_READ_MORE then Inr (ret, s1)
          else let (ret2, s2) = send_s0s1s2 h (upd_recv (\<lambda>_. []) s1) in Inr (ret2, set_phase handshake_c2_phase s2)
      | handshake_c2_phase \<Rightarrow>
          let (ret, s1) = handle_c2 s in
          if ret < 0 \<or> ret = RTMP_NEED_READ_MORE then Inr (ret, s1)
          else
            let s2 = set_phase connect_phase s1 in
            if recv_buffer (sv_base s2) = [] then Inr (RTMP_NEED_READ_MORE, s2) else receive_chunk_stream u s2
      | _ \<Rightarrow>
          cxx_bind (receive_chunk_stream u s) (\<lambda>(ret, s1).
          Inr (if ret = RTMP_OK then RTMP_NEED_READ_MORE else ret, s1)))"

definition rtmp_on_read :: "(nat \<Rightarrow> nat) \<Rightarrow> handshake \<Rightarrow> int \<Rightarrow> bytes \<Rightarrow> rtmp_server_session \<Rightarrow> rtmp_server_session cxx" where
  "rtmp_on_read u h ret_code data s =
     (if ret_code \<noteq> 0 \<or> data = [] then Inr (rtmp_close s)
      else
        cxx_bind (handle_request u h (upd_recv (\<lambda>b. b @ data) s)) (\<lambda>(ret, s1).
        Inr (if ret < 0 then rtmp_close s1 else if ret = RTMP_NEED_READ_MORE then call Try_read s1 else s1)))"

definition rtmp_on_write :: "int \<Rightarrow> nat \<Rightarrow> rtmp_server_session \<Rightarrow> rtmp_server_session" where
  "rtmp_on_write ret_code sent_size s = (if ret_code \<noteq> 0 \<or> sent_size = 0 then rtmp_close s else s)"

subsection \<open>What a handled message calls\<close>

text \<open>A message leads to sends, at most one registration as a player and publications only.\<close>

definition is_work :: "rtmp_call \<Rightarrow> bool" where
  "is_work x \<longleftrightarrow> (case x of Rtmp_send _ \<Rightarrow> True | Add_player \<Rightarrow> True | Publish _ \<Rightarrow> True | _ \<Rightarrow> False)"

definition works :: "rtmp_server_session \<Rightarrow> rtmp_server_session \<Rightarrow> bool" where
  "works s s' \<longleftrightarrow> sv_closed_flag s' = sv_closed_flag s \<and> (\<exists>cs. sv_calls s' = sv_calls s @ cs \<and> list_all is_work cs)"

lemma works_refl [simp]: "works s s"
  by (simp add: works_def)

lemma works_trans: "works s s1 \<Longrightarrow> works s1 s2 \<Longrightarrow> works s s2"
  by (auto simp: works_def)

lemma works_simple:
  "works s (s\<lparr>sv_base := b\<rparr>)" "works s (s\<lparr>sv_aliver := a\<rparr>)" "works s (s\<lparr>sv_play_writer := pw\<rparr>)" "works s (reset_at k c s)"
  "is_work x \<Longrightarrow> works s (call x s)"
  by (simp_all add: works_def reset_at_def call_def)

lemma works_send: "works s (rtmp_send d s)"
  unfolding rtmp_send_def by (rule works_trans [OF works_simple(2) works_simple(5)]) (simp add: is_work_def)

lemma works_sends: "works s (fold rtmp_send ds s)"
  by (induction ds arbitrary: s) (auto intro: works_trans [OF works_send])

lemma works_ctl: "with_ctl_cxx f s = Inr (r, s') \<Longrightarrow> works s s'"
  by (auto simp: with_ctl_cxx_def cxx_bind_Inr_iff intro: works_trans [OF works_simple(1) works_sends])

lemma works_ack: "with_ctl f s = (r, s') \<Longrightarrow> works s s'"
  by (auto simp: with_ctl_def split: prod.splits intro: works_trans [OF works_simple(1) works_sends])

lemma works_command: "handle_command u k c s = Inr (go, r, s') \<Longrightarrow> works s s'"
proof -
  assume h: "handle_command u k c s = Inr (go, r, s')"
  then obtain q s1 where 1: "with_ctl_cxx (handle_client_command_message u c) s = Inr (q, s1)"
    by (auto simp: handle_command_def cxx_bind_Inr_iff)
  have 2: "works s1 (reset_at k c s1)" by (rule works_simple)
  have 3: "works s1 (call Add_player (reset_at k c s1\<lparr>sv_play_writer := True\<rparr>))"
    by (rule works_trans [OF 2 works_trans [OF works_simple(3) works_simple(5)]]) (simp add: is_work_def)
  have "works s1 s'" using h 1 2 3 by (auto simp: handle_command_def Let_def split: if_splits)
  then show ?thesis by (rule works_trans [OF works_ctl [OF 1]])
qed

lemma works_media: "handle_media k c s = Inr (go, r, s') \<Longrightarrow> works s s'"
  by (auto simp: handle_media_def cxx_bind_Inr_iff is_work_def split: option.splits if_splits
    intro!: works_trans [OF works_simple(2) works_trans [OF works_simple(5) works_simple(4)]])

lemma works_message:
  assumes "handle_message u k c s = Inr (go, r, s')" shows "works s s'"
proof -
  obtain s1 where ack: "with_ctl (\<lambda>ct. ((), send_rtmp_ack (of_nat (length (cs_data c))) ct)) s = ((), s1)"
    by (cases "with_ctl (\<lambda>ct. ((), send_rtmp_ack (of_nat (length (cs_data c))) ct)) s") auto
  have "works s1 s'" using assms ack
    by (auto simp: handle_message_def Let_def cxx_bind_Inr_iff intro: works_command works_media works_ctl works_simple
      works_trans [OF works_ctl works_simple(4)] split: if_splits)
  then show ?thesis by (rule works_trans [OF works_ack [OF ack]])
qed

text \<open>The rounds of the receive loop: it stops, handles its last message, or goes on.\<close>

lemma receive_induct [consumes 1, case_names stop last more]:
  assumes "receive_chunk_stream u s = Inr (r, s')"
    and stop: "\<And>s r b k. read_loop (sv_base s) = Inr (r, b, k) \<Longrightarrow> r \<noteq> RTMP_OK \<Longrightarrow> P s r (s\<lparr>sv_base := b\<rparr>)"
    and last: "\<And>s b k j c go r s2. read_loop (sv_base s) = Inr (RTMP_OK, b, k) \<Longrightarrow> message_of b k = Some (j, c) \<Longrightarrow>
      handle_message u j c (s\<lparr>sv_base := b\<rparr>) = Inr (go, r, s2) \<Longrightarrow> P s r s2"
    and more: "\<And>s b k j c r2 s2 r s'. read_loop (sv_base s) = Inr (RTMP_OK, b, k) \<Longrightarrow> message_of b k = Some (j, c) \<Longrightarrow>
      handle_message u j c (s\<lparr>sv_base := b\<rparr>) = Inr (True, r2, s2) \<Longrightarrow> receive_chunk_stream u s2 = Inr (r, s') \<Longrightarrow> P s2 r s' \<Longrightarrow> P s r s'"
  shows "P s r s'"
  using assms(1)
proof (induction "ss_measure (sv_base s)" arbitrary: s r s' rule: less_induct)
  case less
  obtain q b k where rd: "read_loop (sv_base s) = Inr (q, b, k)"
    using less.prems by (cases "read_loop (sv_base s)") (auto simp: receive_chunk_stream.simps [of u s])
  let ?s = "s\<lparr>sv_base := b\<rparr>"
  show ?case
  proof (cases "q = RTMP_OK")
    case True
    obtain j c where m: "message_of b k = Some (j, c)"
      using less.prems rd True by (cases "message_of b k") (auto simp: receive_chunk_stream.simps [of u s] Let_def)
    obtain go r2 s2 where h: "handle_message u j c ?s = Inr (go, r2, s2)"
      using less.prems rd True m by (cases "handle_message u j c ?s") (auto simp: receive_chunk_stream.simps [of u s] Let_def)
    show ?thesis
    proof (cases "go \<and> recv_buffer (sv_base s2) \<noteq> []")
      case go: True
      then have rec: "receive_chunk_stream u s2 = Inr (r, s')"
        using less.prems rd True m h by (simp add: receive_chunk_stream.simps [of u s] Let_def)
      have h': "handle_message u j c ?s = Inr (True, r2, s2)" using h go by simp
      have meas: "ss_measure (sv_base s2) < ss_measure (sv_base s)"
        using read_loop_measure [OF rd True] handle_message_reader [OF h] by (simp add: same_reader_def)
      show ?thesis by (rule more [OF rd [unfolded True] m h' rec less.hyps [OF meas rec]])
    next
      case False
      then have "s' = s2" "r = r2" using less.prems rd True m h by (auto simp: receive_chunk_stream.simps [of u s] Let_def)
      with rd True m h show ?thesis by (blast intro: last)
    qed
  next
    case False
    then have "s' = ?s" "r = q" using less.prems rd by (simp_all add: receive_chunk_stream.simps [of u s] Let_def)
    with rd False show ?thesis by (blast intro: stop)
  qed
qed

lemma works_receive: "receive_chunk_stream u s = Inr (r, s') \<Longrightarrow> works s s'"
proof (induction rule: receive_induct)
  case (stop s r b k)
  show ?case by (rule works_simple)
next
  case (last s b k j c go r s2)
  show ?case by (rule works_trans [OF works_simple(1) works_message [OF last(3)]])
next
  case (more s b k j c r2 s2 r s')
  show ?case by (rule works_trans [OF works_trans [OF works_simple(1) works_message [OF more(3)]] more(5)])
qed


subsection \<open>Closing happens once\<close>

lemma works_request: "handle_request u h s = Inr (r, s') \<Longrightarrow> works s s'"
proof -
  assume run: "handle_request u h s = Inr (r, s')"
  have phase: "works t (set_phase ph t)" and recv: "works t (upd_recv f t)" for t ph f
    by (simp_all add: works_def set_phase_def upd_recv_def)
  have c0: "handle_c0c1 h s = (q, t) \<Longrightarrow> works s t" for q t
    by (auto simp: handle_c0c1_def works_def Let_def split: if_splits)
  have s0: "send_s0s1s2 h t = (q, t') \<Longrightarrow> works t t'" for q t t'
    by (auto simp: send_s0s1s2_def works_send split: option.splits)
  have c2: "handle_c2 s = (q, t) \<Longrightarrow> works s t" for q t by (auto simp: handle_c2_def recv split: if_splits)
  show ?thesis
  proof (cases "server_phase (sv_base s)")
    case initial_phase
    obtain q t where 1: "handle_c0c1 h s = (q, t)" by (cases "handle_c0c1 h s")
    obtain q2 t2 where 2: "send_s0s1s2 h (upd_recv (\<lambda>_. []) t) = (q2, t2)" by (cases "send_s0s1s2 h (upd_recv (\<lambda>_. []) t)")
    have "s' = t \<or> s' = set_phase handshake_c2_phase t2"
      using run 1 2 initial_phase by (auto simp: handle_request_def split: if_splits)
    then show ?thesis using c0 [OF 1] s0 [OF 2] recv phase by (metis works_trans)
  next
    case handshake_c2_phase
    obtain q t where 1: "handle_c2 s = (q, t)" by (cases "handle_c2 s")
    have "s' = t \<or> s' = set_phase connect_phase t \<or> receive_chunk_stream u (set_phase connect_phase t) = Inr (r, s')"
      using run 1 handshake_c2_phase by (auto simp: handle_request_def Let_def split: if_splits)
    then show ?thesis using c2 [OF 1] phase works_receive by (metis works_trans)
  qed (use run in \<open>auto simp: handle_request_def cxx_bind_Inr_iff dest: works_receive\<close>)
qed

datatype rtmp_event = Ev_read int bytes | Ev_write int nat | Ev_timeout

text \<open>What the socket and the liveness check of the server do to a session.\<close>

fun on_event :: "(nat \<Rightarrow> nat) \<Rightarrow> handshake \<Rightarrow> rtmp_event \<Rightarrow> rtmp_server_session \<Rightarrow> rtmp_server_session cxx" where
  "on_event u h (Ev_read ret_code data) s = rtmp_on_read u h ret_code data s"
| "on_event u h (Ev_write ret_code n) s = Inr (rtmp_on_write ret_code n s)"
| "on_event u h Ev_timeout s = Inr (rtmp_close s)"

fun on_events :: "(nat \<Rightarrow> nat) \<Rightarrow> handshake \<Rightarrow> rtmp_event list \<Rightarrow> rtmp_server_session \<Rightarrow> rtmp_server_session cxx" where
  "on_events u h [] s = Inr s"
| "on_events u h (e # es) s = cxx_bind (on_event u h e s) (on_events u h es)"

definition close_inv :: "rtmp_server_session \<Rightarrow> bool" where
  "close_inv s \<longleftrightarrow> count_list (sv_calls s) On_close = (if sv_closed_flag s then 1 else 0) \<and>
     count_list (sv_calls s) Tcp_close = (if sv_closed_flag s then 1 else 0)"

lemma work_calls: "list_all is_work cs \<Longrightarrow> count_list cs On_close = 0 \<and> count_list cs Tcp_close = 0"
  by (induction cs) (auto simp: is_work_def)

lemma works_close_inv: "works s s' \<Longrightarrow> close_inv s \<Longrightarrow> close_inv s'"
  by (auto simp: works_def close_inv_def dest: work_calls)

lemma rtmp_close_inv: "close_inv s \<Longrightarrow> close_inv (rtmp_close s)"
  by (auto simp: close_inv_def rtmp_close_def call_def Let_def)

lemma on_event_inv: "on_event u h e s = Inr s' \<Longrightarrow> close_inv s \<Longrightarrow> close_inv s'"
proof (induction e)
  case (Ev_read ret_code data)
  have recv: "works s (upd_recv f s)" for f by (simp add: works_def upd_recv_def)
  have "close_inv s1" if "handle_request u h (upd_recv (\<lambda>b. b @ data) s) = Inr (r, s1)" for r s1
    by (rule works_close_inv [OF works_trans [OF recv works_request [OF that]] Ev_read(2)])
  then show ?case using Ev_read
    by (auto simp: rtmp_on_read_def cxx_bind_Inr_iff rtmp_close_inv split: if_splits)
       (auto simp: close_inv_def call_def)
qed (auto simp: rtmp_on_write_def rtmp_close_inv split: if_splits)

lemma on_events_inv: "on_events u h es s = Inr s' \<Longrightarrow> close_inv s \<Longrightarrow> close_inv s'"
  by (induction es arbitrary: s) (auto simp: cxx_bind_Inr_iff dest: on_event_inv)



subsection \<open>Reading goes on\<close>

definition rtmp_ret :: "int \<Rightarrow> bool" where
  "rtmp_ret r \<longleftrightarrow> r < 0 \<or> r = RTMP_OK \<or> r = RTMP_NEED_READ_MORE"

lemma rtmp_ret_simps [simp]: "rtmp_ret RTMP_OK" "rtmp_ret RTMP_NEED_READ_MORE" "rtmp_ret (-1)" "rtmp_ret 0"
  by (simp_all add: rtmp_ret_def RTMP_OK_def)

lemma read_format_ret:
  "read_msg_format0 f i buf c = Inr (r, x) \<Longrightarrow> rtmp_ret r" "read_msg_format1 f i buf c = Inr (r, x) \<Longrightarrow> rtmp_ret r"
  "read_msg_format2 f i buf c = Inr (r, x) \<Longrightarrow> rtmp_ret r" "read_msg_format3 f i buf c = Inr (r, x) \<Longrightarrow> rtmp_ret r"
  by (auto simp: read_msg_format0_def read_msg_format1_def read_msg_format2_def read_msg_format3_def cxx_bind_Inr_iff Let_def
    split: if_splits)

lemma read_body_ret: "read_body b = Inr (r, b', k) \<Longrightarrow> rtmp_ret r"
  by (erule read_body_cases)
     (auto simp: read_message_header_def read_message_payload_def cxx_bind_Inr_iff Let_def rtmp_ret_def RTMP_OK_def split: if_splits)

lemma read_chunk_ret: "read_chunk_stream b = Inr (r, b', k) \<Longrightarrow> rtmp_ret r"
proof (cases "fmt_ready b")
  case False
  assume h: "read_chunk_stream b = Inr (r, b', k)"
  obtain q b1 where q: "read_fmt_csid b = (q, b1)" by (cases "read_fmt_csid b")
  have "rtmp_ret q" using q by (auto simp: read_fmt_csid_def Let_def split: list.splits if_splits)
  then show ?thesis using h q False by (auto simp: read_chunk_stream_def dest: read_body_ret split: if_splits)
qed (simp add: read_chunk_stream_def read_body_ret)

lemma read_loop_ret: "read_loop b = Inr (r, b', k) \<Longrightarrow> rtmp_ret r"
proof (induction b arbitrary: r b' k rule: read_loop.induct)
  case (1 b)
  obtain q b1 j where h: "read_chunk_stream b = Inr (q, b1, j)" using 1(2) by (cases "read_chunk_stream b") (auto simp: read_loop.simps [of b])
  show ?case using 1(2) 1(1) [OF h refl refl] h read_chunk_ret [OF h] by (auto simp: read_loop.simps [of b] split: if_splits)
qed

lemma dispatch_ret: "dispatch_command u i v s = Inr (r, s') \<Longrightarrow> rtmp_ret r"
  by (auto simp: dispatch_command_def handle_rtmp_connect_command_def handle_rtmp_createstream_command_def
      handle_rtmp_publish_command_def handle_rtmp_play_command_def Let_def send_rtmp_connect_resp_def
      send_rtmp_create_stream_resp_def send_rtmp_publish_resp_def cxx_bind_Inr_iff
    dest!: play_resp_base split: if_splits prod.splits)

lemma control_ret: "handle_rtmp_control_message c s = Inr (r, s') \<Longrightarrow> rtmp_ret r"
  by (auto simp: handle_rtmp_control_message_def cxx_bind_Inr_iff Let_def split: if_splits)

lemma client_command_ret: "handle_client_command_message u c s = Inr (r, s') \<Longrightarrow> rtmp_ret r"
  by (auto simp: handle_client_command_message_def cxx_bind_Inr_iff dest: dispatch_ret split: if_splits)

lemma with_ctl_ret: "with_ctl_cxx f s = Inr (r, s') \<Longrightarrow> (\<And>x y. f x = Inr (r, y) \<Longrightarrow> rtmp_ret r) \<Longrightarrow> rtmp_ret r"
  by (auto simp: with_ctl_cxx_def cxx_bind_Inr_iff)

lemma handle_command_ret: "handle_command u k c s = Inr (go, r, s') \<Longrightarrow> rtmp_ret r"
proof -
  assume "handle_command u k c s = Inr (go, r, s')"
  then obtain s1 where "with_ctl_cxx (handle_client_command_message u c) s = Inr (r, s1)"
    by (auto simp: handle_command_def cxx_bind_Inr_iff Let_def split: if_splits)
  then show ?thesis by (rule with_ctl_ret) (rule client_command_ret)
qed

lemma handle_media_ret: "handle_media k c s = Inr (go, r, s') \<Longrightarrow> rtmp_ret r"
  by (auto simp: handle_media_def cxx_bind_Inr_iff split: option.splits if_splits)

lemma handle_message_ret:
  assumes "handle_message u k c s = Inr (go, r, s')" shows "rtmp_ret r"
proof -
  obtain s1 where ack: "with_ctl (\<lambda>ct. ((), send_rtmp_ack (of_nat (length (cs_data c))) ct)) s = ((), s1)"
    by (cases "with_ctl (\<lambda>ct. ((), send_rtmp_ack (of_nat (length (cs_data c))) ct)) s") auto
  have ctl: "with_ctl_cxx (handle_rtmp_control_message c) s1 = Inr (q, s2) \<Longrightarrow> rtmp_ret q" for q s2
    by (erule with_ctl_ret) (rule control_ret)
  show ?thesis using assms ack
    by (auto simp: handle_message_def Let_def cxx_bind_Inr_iff split: if_splits dest: handle_command_ret handle_media_ret ctl)
qed

lemma receive_ret: "receive_chunk_stream u s = Inr (r, s') \<Longrightarrow> rtmp_ret r"
  by (induction rule: receive_induct) (auto dest: read_loop_ret handle_message_ret)

text \<open>
  C23. After a read, a session is closed or has asked for the next read, whatever came in, unless it
  was waiting for C2.
\<close>

theorem rtmp_reads_on:
  assumes "server_phase (sv_base s) \<noteq> handshake_c2_phase" "rtmp_on_read u h ret_code data s = Inr s'"
  shows "sv_closed_flag s' \<or> last (sv_calls s') = Try_read"
proof (cases "ret_code \<noteq> 0 \<or> data = []")
  case False
  let ?s = "upd_recv (\<lambda>b. b @ data) s"
  obtain r s1 where run: "handle_request u h ?s = Inr (r, s1)"
    and s': "s' = (if r < 0 then rtmp_close s1 else if r = RTMP_NEED_READ_MORE then call Try_read s1 else s1)"
    using assms(2) False by (auto simp: rtmp_on_read_def cxx_bind_Inr_iff)
  have "r < 0 \<or> r = RTMP_NEED_READ_MORE"
  proof (cases "server_phase (sv_base ?s)")
    case initial_phase
    then show ?thesis using run
      by (auto simp: handle_request_def send_s0s1s2_def split: prod.splits if_splits option.splits)
  qed (use assms(1) run in \<open>auto simp: handle_request_def cxx_bind_Inr_iff rtmp_ret_def upd_recv_def dest!: receive_ret split: if_splits\<close>)
  then show ?thesis using s' by (auto simp: call_def rtmp_close_def Let_def)
qed (use assms(2) in \<open>auto simp: rtmp_on_read_def rtmp_close_def Let_def call_def\<close>)

theorem rtmp_reads_on_witness:
  "\<exists>s'. rtmp_on_read (\<lambda>n. n) \<lparr>hs_parse_c1 = \<lambda>_. 0, hs_s1s2 = \<lambda>_. None\<rparr> 0 [3] new_rtmp_server_session = Inr s' \<and>
     (sv_closed_flag s' \<or> last (sv_calls s') = Try_read)"
proof -
  let ?h = "\<lparr>hs_parse_c1 = \<lambda>_. 0, hs_s1s2 = \<lambda>_. None\<rparr>"
  obtain s' where "rtmp_on_read (\<lambda>n. n) ?h 0 [3] new_rtmp_server_session = Inr s'"
    by (simp add: rtmp_on_read_def handle_request_def upd_recv_def new_rtmp_server_session_def new_rtmp_session_base_def handle_c0c1_def)
  with rtmp_reads_on [OF _ this] show ?thesis by (simp add: new_rtmp_server_session_def new_rtmp_session_base_def)
qed

subsection \<open>Publishing over a session\<close>

text \<open>What reading chunks does not touch.\<close>

definition outside :: "rtmp_session_base \<Rightarrow> rtmp_session_base" where
  "outside b = b\<lparr>recv_buffer := [], fmt_ready := False, ss_fmt := 0, ss_csid := 0, cs_map := []\<rparr>"

lemma read_body_outside: "read_body b = Inr (r, b', k) \<Longrightarrow> outside b' = outside b"
  by (erule read_body_cases) (auto simp: outside_def put_chunk_stream_def)

lemma read_chunk_outside:
  assumes "read_chunk_stream b = Inr (r, b', k)" shows "outside b' = outside b"
proof (cases "fmt_ready b")
  case False
  obtain q b1 where q: "read_fmt_csid b = (q, b1)" by (cases "read_fmt_csid b")
  then have "outside b1 = outside b" by (auto simp: read_fmt_csid_def outside_def Let_def split: list.splits if_splits)
  moreover have "outside (b1\<lparr>fmt_ready := True\<rparr>) = outside b1" by (simp add: outside_def)
  ultimately show ?thesis using assms q False by (auto simp: read_chunk_stream_def split: if_splits dest: read_body_outside)
qed (use assms in \<open>simp add: read_chunk_stream_def read_body_outside\<close>)

lemma read_loop_outside: "read_loop b = Inr (r, b', k) \<Longrightarrow> outside b' = outside b"
proof (induction b arbitrary: r b' k rule: read_loop.induct)
  case (1 b)
  obtain q b1 j where h: "read_chunk_stream b = Inr (q, b1, j)" using 1(2) by (cases "read_chunk_stream b") (auto simp: read_loop.simps [of b])
  show ?case using 1(2) 1(1) [OF h refl refl] h read_chunk_outside [OF h] by (auto simp: read_loop.simps [of b] split: if_splits)
qed

lemma outsideD:
  assumes "outside b' = outside b"
  shows "ss_req b' = ss_req b" "ack_received b' = ack_received b" "remote_window_acksize b' = remote_window_acksize b"
    "server_phase b' = server_phase b" "ss_chunk_size b' = ss_chunk_size b"
proof -
  have "f (outside b') = f (outside b)" for f :: "rtmp_session_base \<Rightarrow> 'a" using assms by simp
  from this [of ss_req] show "ss_req b' = ss_req b" by (simp add: outside_def)
  have *: "f (outside b') = f (outside b)" for f :: "rtmp_session_base \<Rightarrow> u32" using assms by simp
  from * [of ack_received] show "ack_received b' = ack_received b" by (simp add: outside_def)
  from * [of remote_window_acksize] show "remote_window_acksize b' = remote_window_acksize b" by (simp add: outside_def)
  from * [of ss_chunk_size] show "ss_chunk_size b' = ss_chunk_size b" by (simp add: outside_def)
  have "server_phase (outside b') = server_phase (outside b)" using assms by simp
  then show "server_phase b' = server_phase b" by (simp add: outside_def)
qed

text \<open>A complete message, as the handlers see it.\<close>

definition message :: "u32 \<Rightarrow> u8 \<Rightarrow> u32 \<Rightarrow> bytes \<Rightarrow> chunk_stream" where
  "message ts ty sid data = (new_chunk_stream 0 0 0)\<lparr>cs_timestamp32 := ts, cs_type_id := ty, cs_msg_stream_id := sid, cs_data := data\<rparr>"

lemma message_sel [simp]:
  "cs_timestamp32 (message ts ty sid data) = ts" "cs_type_id (message ts ty sid data) = ty"
  "cs_msg_stream_id (message ts ty sid data) = sid" "cs_data (message ts ty sid data) = data"
  by (simp_all add: message_def new_chunk_stream_def)

lemma get_media_packet_message:
  "receiving csid sz ts ty sid data n c \<Longrightarrow> get_media_packet req c = get_media_packet req (message ts ty sid data)"
  unfolding receiving_def get_media_packet_def message_sel by (elim conjE) (simp only:)

lemma no_ack:
  assumes "ack_received (sv_base s) + n \<le> remote_window_acksize (sv_base s)"
  shows "with_ctl (\<lambda>ct. ((), send_rtmp_ack n ct)) s =
     ((), s\<lparr>sv_base := (sv_base s)\<lparr>ack_received := ack_received (sv_base s) + n\<rparr>\<rparr>)"
  using assms by (simp add: with_ctl_def send_rtmp_ack_def Let_def)

lemma receive_one:
  assumes rd: "read_loop (sv_base s) = Inr (RTMP_OK, b, Some k)" and c: "map_of (cs_map b) k = Some c"
    and h: "handle_message u k c (s\<lparr>sv_base := b\<rparr>) = Inr (go, r, s')" and e: "recv_buffer b = []"
  shows "receive_chunk_stream u s = Inr (r, s')"
proof -
  have "recv_buffer (sv_base s') = []" using handle_message_reader [OF h] e by (simp add: same_reader_def)
  then show ?thesis using rd c h by (subst receive_chunk_stream.simps) (simp add: message_of_def)
qed

definition connected :: "rtmp_server_session \<Rightarrow> bool" where
  "connected s \<longleftrightarrow> server_phase (sv_base s) \<noteq> initial_phase \<and> server_phase (sv_base s) \<noteq> handshake_c2_phase"

lemma request_connected:
  "connected s \<Longrightarrow> receive_chunk_stream u s = Inr (r, s') \<Longrightarrow>
    handle_request u h s = Inr (if r = RTMP_OK then RTMP_NEED_READ_MORE else r, s')"
  by (cases "server_phase (sv_base s)") (simp_all add: connected_def handle_request_def)

lemma media_message:
  assumes ty: "ty \<in> {RTMP_MEDIA_PACKET_VIDEO, RTMP_MEDIA_PACKET_AUDIO, RTMP_COMMAND_MESSAGES_META_DATA0, RTMP_COMMAND_MESSAGES_META_DATA3}"
    and c: "receiving csid sz ts ty sid data 0 c" and pkt: "get_media_packet (ss_req (sv_base s)) (message ts ty sid data) = Inr (Some pkt)"
    and ne: "pkt_buffer pkt \<noteq> []" and ack: "ack_received (sv_base s) + of_nat (length data) \<le> remote_window_acksize (sv_base s)"
  shows "handle_message u k c s = Inr (True, RTMP_OK, reset_at k c (call (Publish pkt)
     (s\<lparr>sv_base := (sv_base s)\<lparr>ack_received := ack_received (sv_base s) + of_nat (length data)\<rparr>, sv_aliver := keep_alive (sv_aliver s)\<rparr>)))"
proof -
  have d: "cs_data c = data" "cs_type_id c = ty" using c by (simp_all add: receiving_def)
  have nt: "\<not> ty \<le> RTMP_CONTROL_SET_PEER_BANDWIDTH" "ty \<noteq> RTMP_COMMAND_MESSAGES_AMF0" "ty \<noteq> RTMP_COMMAND_MESSAGES_AMF3"
    using ty by (auto simp: RTMP_MEDIA_PACKET_VIDEO_def RTMP_MEDIA_PACKET_AUDIO_def RTMP_COMMAND_MESSAGES_META_DATA0_def
      RTMP_COMMAND_MESSAGES_META_DATA3_def RTMP_CONTROL_SET_PEER_BANDWIDTH_def RTMP_COMMAND_MESSAGES_AMF0_def RTMP_COMMAND_MESSAGES_AMF3_def)
  show ?thesis unfolding handle_message_def d no_ack [OF ack] Let_def split_conv
    using nt ty pkt ne by (simp add: handle_media_def get_media_packet_message [OF c] del: insert_iff) 
qed


lemma received_idle: "received csid sz ts ty sid data 0 rest b0 b \<Longrightarrow> map_of (cs_map b) (ucast csid) = Some c \<Longrightarrow>
   idle_for csid sz (sv_base (reset_at (ucast csid) c s)) \<longleftrightarrow> \<not> fmt_ready (sv_base s)"
  by (auto simp: received_def receiving_def idle_for_def reset_at_def reset_chunk_stream_def idle_def um_simps)

text \<open>
  C11. A publisher's media message becomes one published packet: when the chunks of an audio, video or
  metadata message arrive on a connected session, the session hands the stream manager the packet
  that \<open>get_media_packet\<close> makes of it, under the key of the session, asks for the next read, and
  is ready for the next message on the same chunk stream.
\<close>

theorem rtmp_media_published:
  assumes cs: "2 \<le> uint csid" "uint csid < 64" "sz \<noteq> 0" and ts: "unat ts < 2 ^ 24 - 1" "length data < 2 ^ 24" "data \<noteq> []"
    and s: "connected s" "idle_for csid sz (sv_base s)" "recv_buffer (sv_base s) = []"
    and ty: "ty \<in> {RTMP_MEDIA_PACKET_VIDEO, RTMP_MEDIA_PACKET_AUDIO, RTMP_COMMAND_MESSAGES_META_DATA0, RTMP_COMMAND_MESSAGES_META_DATA3}"
    and pkt: "get_media_packet (ss_req (sv_base s)) (message ts ty sid data) = Inr (Some pkt)" "pkt_buffer pkt \<noteq> []"
    and ack: "ack_received (sv_base s) + of_nat (length data) \<le> remote_window_acksize (sv_base s)"
  shows "\<exists>bs s'. write_data_by_chunk_stream csid ts ty sid sz data = Inr bs \<and>
     rtmp_on_read u h 0 (concat bs) s = Inr s' \<and> sv_calls s' = sv_calls s @ [Publish pkt, Try_read] \<and>
     connected s' \<and> idle_for csid sz (sv_base s') \<and> recv_buffer (sv_base s') = [] \<and> ss_req (sv_base s') = ss_req (sv_base s)"
proof -
  obtain bs b where w: "write_data_by_chunk_stream csid ts ty sid sz data = Inr bs"
    and rd: "read_loop ((sv_base s)\<lparr>recv_buffer := concat bs @ []\<rparr>) = Inr (RTMP_OK, b, Some (ucast csid))"
    and rc: "received csid sz ts ty sid data 0 [] (sv_base s) b"
    using message_round_trip [OF cs ts s(2), of ty sid "[]"] by blast
  let ?s = "upd_recv (\<lambda>x. x @ concat bs) s" and ?k = "ucast csid :: u8"
  have base: "sv_base ?s = (sv_base s)\<lparr>recv_buffer := concat bs @ []\<rparr>" using s(3) by (simp add: upd_recv_def)
  have out: "outside b = outside (sv_base s)" using read_loop_outside [OF rd] by (simp add: outside_def)
  note o = outsideD [OF out]
  obtain c where c: "map_of (cs_map b) ?k = Some c" "receiving csid sz ts ty sid data 0 c" using rc by (auto simp: received_def)
  let ?s1 = "?s\<lparr>sv_base := b\<rparr>"
  let ?s2 = "call (Publish pkt) (?s1\<lparr>sv_base := b\<lparr>ack_received := ack_received b + of_nat (length data)\<rparr>, sv_aliver := keep_alive (sv_aliver s)\<rparr>)"
  have hm: "handle_message u ?k c ?s1 = Inr (True, RTMP_OK, reset_at ?k c ?s2)"
    using media_message [OF ty c(2), of ?s1 pkt u ?k] pkt ack o by (simp add: upd_recv_def)
  have e: "recv_buffer b = []" "\<not> fmt_ready b" using rc by (simp_all add: received_def)
  have "receive_chunk_stream u ?s = Inr (RTMP_OK, reset_at ?k c ?s2)"
    by (rule receive_one [OF _ c(1) hm e(1)]) (use rd base in simp)
  moreover have "connected ?s" using s(1) by (simp add: connected_def upd_recv_def)
  ultimately have run: "handle_request u h ?s = Inr (RTMP_NEED_READ_MORE, reset_at ?k c ?s2)"
    using request_connected by fastforce
  have "read_loop ((sv_base s)\<lparr>recv_buffer := []\<rparr>) \<noteq> Inr (RTMP_OK, b, Some (ucast csid))"
    using read_loop_measure [of "(sv_base s)\<lparr>recv_buffer := []\<rparr>" RTMP_OK b] s(2) by (auto simp: ss_measure_def idle_for_def)
  with rd have "concat bs \<noteq> []" by (metis append_Nil2)
  then have "rtmp_on_read u h 0 (concat bs) s = Inr (call Try_read (reset_at ?k c ?s2))"
    using run by (simp add: rtmp_on_read_def RTMP_NEED_READ_MORE_def del: concat_eq_Nil_conv)
  moreover have "idle_for csid sz (sv_base (reset_at ?k c ?s2))" using received_idle [OF rc c(1), of ?s2] e(2) by simp
  moreover have "connected (reset_at ?k c ?s2)" using s(1) o by (simp add: connected_def reset_at_def)
  ultimately show ?thesis using w e(1) o
    by (intro exI [of _ bs] exI [of _ "call Try_read (reset_at ?k c ?s2)"])
       (simp add: connected_def, simp add: call_def reset_at_def upd_recv_def)
qed


theorem rtmp_media_published_witness:
  "\<exists>bs s'. write_data_by_chunk_stream 4 40 RTMP_MEDIA_PACKET_AUDIO 1 128 [0xaf, 1, 7] = Inr bs \<and>
     rtmp_on_read (\<lambda>n. n) \<lparr>hs_parse_c1 = \<lambda>_. 0, hs_s1s2 = \<lambda>_. None\<rparr> 0 (concat bs)
       (set_phase media_handle_phase new_rtmp_server_session) = Inr s' \<and>
     sv_calls s' = [Try_read, Publish (new_MEDIA_PACKET\<lparr>av_type := MEDIA_AUDIO_TYPE, codec_type := MEDIA_CODEC_AAC, fmt_type := MEDIA_FORMAT_RAW,
       dts := 40, pts := 40, pkt_buffer := [0xaf, 1, 7], pkt_streamid := 1, pkt_typeid := 8\<rparr>), Try_read]"
proof -
  let ?s = "set_phase media_handle_phase new_rtmp_server_session" and ?h = "\<lparr>hs_parse_c1 = \<lambda>_. 0, hs_s1s2 = \<lambda>_. None\<rparr>"
  let ?pkt = "new_MEDIA_PACKET\<lparr>av_type := MEDIA_AUDIO_TYPE, codec_type := MEDIA_CODEC_AAC, fmt_type := MEDIA_FORMAT_RAW,
       dts := 40, pts := 40, pkt_buffer := [0xaf, 1, 7], pkt_streamid := 1, pkt_typeid := 8\<rparr>"
  have p: "get_media_packet (ss_req (sv_base ?s)) (message 40 RTMP_MEDIA_PACKET_AUDIO 1 [0xaf, 1, 7]) = Inr (Some ?pkt)"
    by (simp add: get_media_packet_def media_audio_def mem_at_def audio_codec_def set_phase_def new_rtmp_server_session_def
      new_rtmp_session_base_def new_rtmp_request_def new_MEDIA_PACKET_def RTMP_MEDIA_PACKET_AUDIO_def RTMP_MEDIA_PACKET_VIDEO_def
      FLV_AUDIO_AAC_CODEC_def)
  have "\<exists>bs s'. write_data_by_chunk_stream 4 40 RTMP_MEDIA_PACKET_AUDIO 1 128 [0xaf, 1, 7] = Inr bs \<and>
     rtmp_on_read (\<lambda>n. n) ?h 0 (concat bs) ?s = Inr s' \<and> sv_calls s' = sv_calls ?s @ [Publish ?pkt, Try_read] \<and>
     connected s' \<and> idle_for 4 128 (sv_base s') \<and> recv_buffer (sv_base s') = [] \<and> ss_req (sv_base s') = ss_req (sv_base ?s)"
    by (rule rtmp_media_published [OF _ _ _ _ _ _ _ _ _ _ p])
       (simp_all add: connected_def set_phase_def new_rtmp_server_session_def new_rtmp_session_base_def idle_for_def CHUNK_DEF_SIZE_def)
  then show ?thesis by (auto simp: set_phase_def new_rtmp_server_session_def)
qed

subsection \<open>Waiting for C2\<close>

text \<open>A control message of the server side itself, as it is on the wire.\<close>

lemma control_bytes_wire:
  "control_bytes cz ty 4 n = the (basic_header 0 3) @ first_header 0 ty 0 (write_4bytes n) @ write_4bytes n"
  by (simp add: control_bytes_def gen_control_message_def gen_data_def new_chunk_stream_def basic_header_def message_header_def
    first_header_def Let_def)

text \<open>
  When C2 and a complete Set Chunk Size message arrive in one read, the session neither closes nor
  asks for another read: the phase that handles C2 returns the zero of the message, which the
  read handler takes for nothing to do. The peer is never read again.
\<close>

theorem rtmp_c2_with_message_stalls:
  assumes "server_phase (sv_base s) = handshake_c2_phase" "recv_buffer (sv_base s) = []" "cs_map (sv_base s) = []"
    and "\<not> fmt_ready (sv_base s)" "4 \<le> unat (ss_chunk_size (sv_base s))" "\<not> sv_closed_flag s" "length c2 = 1536"
    and "ack_received (sv_base s) + 4 \<le> remote_window_acksize (sv_base s)"
  shows "\<exists>s'. rtmp_on_read u h 0 (c2 @ control_bytes cz RTMP_CONTROL_SET_CHUNK_SIZE 4 n) s = Inr s' \<and>
     \<not> sv_closed_flag s' \<and> sv_calls s' = sv_calls s @ [Rtmp_send (control_bytes n RTMP_CONTROL_SET_CHUNK_SIZE 4 n)]"
proof -
  let ?sz = "ss_chunk_size (sv_base s)" and ?d = "write_4bytes n" and ?m = "control_bytes cz RTMP_CONTROL_SET_CHUNK_SIZE 4 n"
  let ?s = "set_phase connect_phase (upd_recv (\<lambda>_. ?m) s)"
  have idle: "idle_for 3 ?sz (sv_base ?s)" using assms by (simp add: idle_for_def set_phase_def upd_recv_def)
  have pc: "pieces (unat ?sz) ?d = [?d]" using assms(5) by (subst pieces.simps) (auto simp: pieces.simps [of _ "[]"] write_4bytes_def Let_def)
  have buf: "recv_buffer (sv_base ?s) = wire 3 (first_header 0 RTMP_CONTROL_SET_CHUNK_SIZE 0 ?d) (pieces (unat ?sz) ?d) @ []"
    by (simp add: pc wire_def control_bytes_wire set_phase_def upd_recv_def)
  have nz: "?sz \<noteq> 0" "?d \<noteq> []" using assms(5) by (auto simp: write_4bytes_def Let_def)
  obtain b where rd: "read_loop (sv_base ?s) = Inr (RTMP_OK, b, Some 3)"
    and rc: "received 3 ?sz 0 RTMP_CONTROL_SET_CHUNK_SIZE 0 ?d 0 [] (sv_base ?s) b"
    using read_wire [OF _ _ nz(1) _ _ nz(2) idle buf] by auto
  obtain c where c: "map_of (cs_map b) 3 = Some c" "receiving 3 ?sz 0 RTMP_CONTROL_SET_CHUNK_SIZE 0 ?d 0 c" using rc by (auto simp: received_def)
  have d: "cs_data c = ?d" "cs_type_id c = RTMP_CONTROL_SET_CHUNK_SIZE" using c by (simp_all add: receiving_def)
  have e: "recv_buffer b = []" using rc by (simp add: received_def)
  have o: "ack_received b = ack_received (sv_base s)" "remote_window_acksize b = remote_window_acksize (sv_base s)"
    using outsideD [OF read_loop_outside [OF rd]] by (simp_all add: set_phase_def upd_recv_def)
  have ack: "ack_received (sv_base (?s\<lparr>sv_base := b\<rparr>)) + of_nat (length (cs_data c)) \<le> remote_window_acksize (sv_base (?s\<lparr>sv_base := b\<rparr>))"
    using assms(8) o d by simp
  have r4: "read_4bytes ?d = Inr n" using read_write_4 [of n "[]"] by simp
  have ctl: "handle_rtmp_control_message c ct = Inr (RTMP_OK, ctl_send (control_bytes n RTMP_CONTROL_SET_CHUNK_SIZE 4 n)
      (ct\<lparr>ct_base := set_chunk_size n (ct_base ct)\<rparr>))" for ct
    by (simp add: handle_rtmp_control_message_def d r4 send_set_chunksize_def get_chunk_size_def set_chunk_size_def Let_def)
  obtain s2 where hm: "handle_message u 3 c (?s\<lparr>sv_base := b\<rparr>) = Inr (True, RTMP_OK, s2)"
    "sv_calls s2 = sv_calls s @ [Rtmp_send (control_bytes n RTMP_CONTROL_SET_CHUNK_SIZE 4 n)]" "sv_closed_flag s2 = sv_closed_flag s"
  proof -
    have t: "RTMP_CONTROL_SET_CHUNK_SIZE \<le> RTMP_CONTROL_SET_PEER_BANDWIDTH"
      by (simp add: RTMP_CONTROL_SET_CHUNK_SIZE_def RTMP_CONTROL_SET_PEER_BANDWIDTH_def)
    let ?b = "b\<lparr>ack_received := ack_received b + of_nat (length ?d)\<rparr>"
    let ?s2 = "reset_at 3 c (rtmp_send (control_bytes n RTMP_CONTROL_SET_CHUNK_SIZE 4 n) (?s\<lparr>sv_base := set_chunk_size n ?b\<rparr>))"
    have "handle_message u 3 c (?s\<lparr>sv_base := b\<rparr>) = Inr (True, RTMP_OK, ?s2)"
      unfolding handle_message_def no_ack [OF ack] Let_def split_conv
      using t by (simp add: d with_ctl_cxx_def ctl) (simp add: ctl_send_def)
    then show thesis
      by (rule that) (simp_all add: rtmp_send_def call_def reset_at_def set_phase_def upd_recv_def)
  qed
  have run: "receive_chunk_stream u ?s = Inr (RTMP_OK, s2)" by (rule receive_one [OF rd c(1) hm(1) e])
  have "handle_c2 (upd_recv (\<lambda>b. b @ c2 @ ?m) s) = (RTMP_OK, upd_recv (\<lambda>_. ?m) s)"
    using assms(2,7) by (simp add: handle_c2_def upd_recv_def)
  moreover have "recv_buffer (sv_base ?s) \<noteq> []" by (simp add: set_phase_def upd_recv_def control_bytes_wire first_header_def)
  ultimately have "handle_request u h (upd_recv (\<lambda>b. b @ c2 @ ?m) s) = Inr (RTMP_OK, s2)"
    using assms(1) run by (simp add: handle_request_def upd_recv_def RTMP_OK_def RTMP_NEED_READ_MORE_def)
  moreover have "c2 \<noteq> []" using assms(7) by auto
  ultimately have "rtmp_on_read u h 0 (c2 @ ?m) s = Inr s2"
    by (simp add: rtmp_on_read_def RTMP_OK_def RTMP_NEED_READ_MORE_def)
  then show ?thesis using hm assms(6) by auto
qed

theorem rtmp_c2_with_message_stalls_witness:
  "\<exists>s'. rtmp_on_read (\<lambda>n. n) \<lparr>hs_parse_c1 = \<lambda>_. 0, hs_s1s2 = \<lambda>_. None\<rparr> 0
       (replicate 1536 0 @ control_bytes 128 RTMP_CONTROL_SET_CHUNK_SIZE 4 4096) (set_phase handshake_c2_phase new_rtmp_server_session) = Inr s' \<and>
     \<not> sv_closed_flag s' \<and> sv_calls s' = [Try_read, Rtmp_send (control_bytes 4096 RTMP_CONTROL_SET_CHUNK_SIZE 4 4096)]"
  using rtmp_c2_with_message_stalls [of "set_phase handshake_c2_phase new_rtmp_server_session" "replicate 1536 0" "\<lambda>n. n"
      "\<lparr>hs_parse_c1 = \<lambda>_. 0, hs_s1s2 = \<lambda>_. None\<rparr>" 128 4096]
  by (simp add: set_phase_def new_rtmp_server_session_def new_rtmp_session_base_def CHUNK_DEF_SIZE_def)

subsection \<open>The publish command\<close>

lemma ct_sent_fold: "ct_sent (fold ctl_send bs s) = ct_sent s @ bs"
  by (induction bs arbitrary: s) (simp_all add: ctl_send_def)

lemma fold_rtmp_send:
  "sv_calls (fold rtmp_send bs s) = sv_calls s @ map Rtmp_send bs" "sv_play_writer (fold rtmp_send bs s) = sv_play_writer s"
  "sv_closed_flag (fold rtmp_send bs s) = sv_closed_flag s"
  by (induction bs arbitrary: s) (simp_all add: rtmp_send_def call_def)

lemma reset_at_sel [simp]:
  "sv_calls (reset_at k c s) = sv_calls s" "sv_play_writer (reset_at k c s) = sv_play_writer s"
  "sv_closed_flag (reset_at k c s) = sv_closed_flag s" "ss_req (sv_base (reset_at k c s)) = ss_req (sv_base s)"
  "server_phase (sv_base (reset_at k c s)) = server_phase (sv_base s)"
  by (simp_all add: reset_at_def)

lemma lit_neq: "length a \<noteq> length b \<Longrightarrow> lit a \<noteq> lit b"
  by (metis length_lit)

lemma publish_command:
  assumes vec: "decode_command (cs_data c) = Inr vec" "3 \<le> length vec" "amf_type (hd vec) = AMF_DATA_TYPE_STRING"
      "desc_str (hd vec) = lit ''publish''"
    and u: "roomy u" "get_chunk_size (sv_base s) \<noteq> 0"
  shows "\<exists>bs s'. handle_command u k c s = Inr (True, RTMP_NEED_READ_MORE, s') \<and> sv_calls s' = sv_calls s @ map Rtmp_send bs \<and>
     server_phase (sv_base s') = media_handle_phase \<and> ss_req (sv_base s') = ready_request True (tl vec) (ss_req (sv_base s)) \<and>
     sv_play_writer s' = sv_play_writer s \<and> sv_closed_flag s' = sv_closed_flag s"
proof -
  let ?ct = "\<lparr>ct_base = (sv_base s)\<lparr>ss_req := ready_request True (tl vec) (ss_req (sv_base s))\<rparr>, ct_sent = []\<rparr>"
  have cz: "get_chunk_size (ct_base ?ct) \<noteq> 0" using u(2) by (simp add: get_chunk_size_def)
  have "fits (lit ''NetStream.Publish.Start'')" "fits (lit ''Start publising.'')" by (simp_all add: fits_def glibc_usable_def)
  then obtain bs where bs: "send_status u ''NetStream.Publish.Start'' ''Start publising.'' ?ct = Inr (fold ctl_send bs ?ct)"
    using send_status_returns [OF u(1) _ _ cz] by blast
  have ne: "lit ''publish'' \<noteq> lit ''createStream''" by (rule lit_neq) simp
  have nc: "lit ''publish'' \<noteq> lit ''connect''" by (simp add: lit_def)
  have v: "vec \<noteq> []" "\<not> length vec < 3" using vec(2) by auto
  have d: "dispatch_command u (cs_msg_stream_id c) vec \<lparr>ct_base = sv_base s, ct_sent = []\<rparr> =
     Inr (RTMP_OK, (fold ctl_send bs ?ct)\<lparr>ct_base := (ct_base ?ct)\<lparr>server_phase := media_handle_phase\<rparr>\<rparr>)"
    using vec(4) ne nc v(2) bs by (simp add: dispatch_command_def Let_def handle_rtmp_publish_command_def send_rtmp_publish_resp_def)
  have "rq_publish_flag (ready_request True (tl vec) r)" for r by (simp add: ready_request_def Let_def)
  then have h: "handle_client_command_message u c \<lparr>ct_base = sv_base s, ct_sent = []\<rparr> =
     Inr (RTMP_NEED_READ_MORE, (fold ctl_send bs ?ct)\<lparr>ct_base := (ct_base ?ct)\<lparr>server_phase := media_handle_phase\<rparr>\<rparr>)"
    using vec(1,3) v(1) d by (simp add: handle_client_command_message_def)
  let ?s1 = "fold rtmp_send bs (s\<lparr>sv_base := (ct_base ?ct)\<lparr>server_phase := media_handle_phase\<rparr>\<rparr>)"
  have w: "with_ctl_cxx (handle_client_command_message u c) s = Inr (RTMP_NEED_READ_MORE, ?s1)"
    by (simp add: with_ctl_cxx_def h ct_sent_fold)
  have pf: "rq_publish_flag (ss_req (sv_base ?s1))" by (simp add: ready_request_def Let_def)
  have "handle_command u k c s = Inr (True, RTMP_NEED_READ_MORE, reset_at k c ?s1)"
    unfolding handle_command_def w using pf by (simp add: RTMP_NEED_READ_MORE_def RTMP_OK_def)
  then show ?thesis by (intro exI [of _ bs] exI [of _ "reset_at k c ?s1"]) (simp add: fold_rtmp_send)
qed

text \<open>The stream name is the first string that is not empty.\<close>

lemma name_items: "fold name_item items n =
   (if n \<noteq> [] then n else hd (filter (\<lambda>d. d \<noteq> []) (map desc_str (filter (\<lambda>i. amf_type i = AMF_DATA_TYPE_STRING) items)) @ [[]]))"
  by (induction items arbitrary: n) (auto simp: name_item_def)

text \<open>
  A publish command is accepted: the session answers, enters the media phase and becomes the
  publisher of the key made of the application and the first non-empty string argument.
\<close>

theorem rtmp_publish_accepted:
  assumes "decode_command (cs_data c) = Inr vec" "3 \<le> length vec" "amf_type (hd vec) = AMF_DATA_TYPE_STRING"
    "desc_str (hd vec) = lit ''publish''" "roomy u" "get_chunk_size (sv_base s) \<noteq> 0"
  shows "\<exists>bs s'. handle_command u k c s = Inr (True, RTMP_NEED_READ_MORE, s') \<and> sv_calls s' = sv_calls s @ map Rtmp_send bs \<and>
     server_phase (sv_base s') = media_handle_phase \<and> rq_publish_flag (ss_req (sv_base s')) \<and> rq_is_ready (ss_req (sv_base s')) \<and>
     rq_key (ss_req (sv_base s')) = rq_app (ss_req (sv_base s)) @ lit ''/'' @
       hd (filter (\<lambda>d. d \<noteq> []) (map desc_str (filter (\<lambda>i. amf_type i = AMF_DATA_TYPE_STRING) (tl vec))) @ [[]])"
  using publish_command [OF assms, of k]
  by (auto simp: ready_request_def Let_def set_transaction_def stream_name_of_def name_items)

definition publish_items :: "bytes \<Rightarrow> AMF_ITERM list" where
  "publish_items name = [amf_string AMF_DATA_TYPE_STRING (lit ''publish''), amf_number AMF_DATA_TYPE_NUMBER 0,
     amf_null AMF_DATA_TYPE_NULL, amf_string AMF_DATA_TYPE_STRING name, amf_string AMF_DATA_TYPE_STRING (lit ''live'')]"

lemma publish_items_decoded:
  assumes "length name \<le> 100"
  shows "\<exists>bs. encode_values (\<lambda>n. n + 16) (publish_items name) = Inr bs \<and> decode_command bs = Inr (publish_items name)"
proof -
  have e: "encode_string (\<lambda>n. n + 16) False s = Inr (2 # write_2bytes (of_nat (length s)) @ s)" if "length s \<le> 100" for s
    using that unat_u16_length [of s] by (simp add: encode_string_def)
  have p: "list_all plain_item (publish_items name)" using assms by (simp add: publish_items_def plain_item.intros)
  have v: "encode_value (\<lambda>n. n + 16) (amf_string AMF_DATA_TYPE_STRING s) = Inr (Some (2 # write_2bytes (of_nat (length s)) @ s))"
    if "length s \<le> 100" for s using that by (simp add: encode_value_def amf_string_def e)
  have n: "list_all (\<lambda>i. encode_value (\<lambda>n. n + 16) i \<noteq> Inr None) (publish_items name)"
    using assms by (simp add: publish_items_def v) (simp add: encode_value_def amf_number_def amf_null_def)
  obtain bs where "encode_values (\<lambda>n. n + 16) (publish_items name) = Inr bs"
    using assms by (simp add: publish_items_def v) (simp add: encode_value_def amf_number_def amf_null_def encode_onlytype_def)
  then show ?thesis using decode_command_values [OF _ p n] by blast
qed

lemma roomy_32: "roomy (\<lambda>n. n + 32)"
  unfolding roomy_def glibc_usable_def by presburger

theorem rtmp_publish_accepted_witness:
  "\<exists>data bs s'. handle_command (\<lambda>n. n + 32) 3 (message 0 RTMP_COMMAND_MESSAGES_AMF0 0 data) new_rtmp_server_session = Inr (True, RTMP_NEED_READ_MORE, s') \<and>
     sv_calls s' = Try_read # map Rtmp_send bs \<and> rq_key (ss_req (sv_base s')) = lit ''/a''"
proof -
  obtain data where d: "decode_command data = Inr (publish_items (lit ''a''))" using publish_items_decoded [of "lit ''a''"] by auto
  show ?thesis
    using rtmp_publish_accepted [of "message 0 RTMP_COMMAND_MESSAGES_AMF0 0 data" "publish_items (lit ''a'')" "\<lambda>n. n + 32" new_rtmp_server_session 3] d
    by (auto simp: publish_items_def amf_string_def amf_number_def amf_null_def roomy_32 new_rtmp_server_session_def new_rtmp_session_base_def
      get_chunk_size_def CHUNK_DEF_SIZE_def new_rtmp_request_def lit_def)
qed

text \<open>
  C37. A session that plays and then publishes leaves its player behind: once the publish command is
  handled, closing the session unregisters the publisher only, although the writer that points to the
  session is still registered as a player.
\<close>

theorem rtmp_play_then_publish_leaves_player:
  assumes "decode_command (cs_data c) = Inr vec" "3 \<le> length vec" "amf_type (hd vec) = AMF_DATA_TYPE_STRING"
    "desc_str (hd vec) = lit ''publish''" "roomy u" "get_chunk_size (sv_base s) \<noteq> 0" "sv_play_writer s" "\<not> sv_closed_flag s"
  shows "\<exists>s'. handle_command u k c s = Inr (True, RTMP_NEED_READ_MORE, s') \<and> sv_play_writer s' \<and>
     sv_calls (rtmp_close s') = sv_calls s' @ [Remove_publisher (rq_key (ss_req (sv_base s'))), On_close, Tcp_close]"
proof -
  obtain s' where s': "handle_command u k c s = Inr (True, RTMP_NEED_READ_MORE, s')" "sv_play_writer s'" "\<not> sv_closed_flag s'"
    "ss_req (sv_base s') = ready_request True (tl vec) (ss_req (sv_base s))"
    using publish_command [OF assms(1-6), of k] assms(7,8) by auto
  then have "rq_publish_flag (ss_req (sv_base s'))" "rq_key (ss_req (sv_base s')) \<noteq> []"
    by (simp_all add: ready_request_def Let_def)
  then have "sv_calls (rtmp_close s') = sv_calls s' @ [Remove_publisher (rq_key (ss_req (sv_base s'))), On_close, Tcp_close]"
    using s'(3) by (simp add: rtmp_close_def call_def Let_def)
  with s' show ?thesis by blast
qed

theorem rtmp_play_then_publish_leaves_player_witness:
  "\<exists>data s'. handle_command (\<lambda>n. n + 32) 3 (message 0 RTMP_COMMAND_MESSAGES_AMF0 0 data) (new_rtmp_server_session\<lparr>sv_play_writer := True\<rparr>) =
       Inr (True, RTMP_NEED_READ_MORE, s') \<and>
     sv_calls (rtmp_close s') = sv_calls s' @ [Remove_publisher (rq_key (ss_req (sv_base s'))), On_close, Tcp_close]"
proof -
  obtain data where d: "decode_command data = Inr (publish_items (lit ''a''))" using publish_items_decoded [of "lit ''a''"] by auto
  show ?thesis
    using rtmp_play_then_publish_leaves_player [of "message 0 RTMP_COMMAND_MESSAGES_AMF0 0 data" "publish_items (lit ''a'')" "\<lambda>n. n + 32"
        "new_rtmp_server_session\<lparr>sv_play_writer := True\<rparr>" 3] d
    by (auto simp: publish_items_def amf_string_def roomy_32 new_rtmp_server_session_def new_rtmp_session_base_def get_chunk_size_def CHUNK_DEF_SIZE_def)
qed

end
