(* ===== verification/Rtmp_Client.thy ===== *)
theory Rtmp_Client
  imports Rtmp_Server
begin

text \<open>
  The RTMP client: its URL (\<open>get_rtmp_url_info\<close> of \<open>src/net/rtmp/rtmp_pub.hpp\<close>) and its session
  (\<open>src/net/rtmp/rtmp_client_session.cpp\<close>, with \<open>send_c0c1\<close> of \<open>rtmp_handshake.cpp\<close>). Calls of the
  connection and of the callback are recorded in \<open>cl_calls\<close>, in order.
\<close>

subsection \<open>The URL\<close>

text \<open>
  \<open>snprintf\<close> with the format \<open>%s\<close> into the rest of a 512-byte array: the sum of the return values
  so far, and the characters in the array. Once the sum is above 512 the remaining size, an
  unsigned number, has wrapped around and the pointer is outside the array.
\<close>

definition c_str :: "bytes \<Rightarrow> bytes" where
  "c_str s = takeWhile (\<lambda>b. b \<noteq> 0) s"

definition snprintf_512 :: "bytes \<Rightarrow> nat \<times> bytes \<Rightarrow> (nat \<times> bytes) cxx" where
  "snprintf_512 str st =
     (let (len, buf) = st in
      if 512 < len then Inl OutOfBounds else Inr (len + length (c_str str), buf @ take (511 - len) (c_str str)))"

text \<open>One round of the loop over the parts, at \<open>index\<close> of \<open>n\<close> parts; the application array is written from index 1 on.\<close>

definition url_part :: "nat \<Rightarrow> nat \<Rightarrow> bytes \<Rightarrow> (nat \<times> bytes) \<times> (nat \<times> bytes) option \<Rightarrow> ((nat \<times> bytes) \<times> (nat \<times> bytes) option) cxx" where
  "url_part index n part st =
     (let (tc, ap) = st in
      if index = 0 then cxx_bind (snprintf_512 part tc) (\<lambda>tc'. Inr (tc', ap))
      else
        cxx_bind (snprintf_512 (lit ''/'' @ part) tc) (\<lambda>tc'.
        cxx_bind (snprintf_512 part (case ap of None \<Rightarrow> (0, []) | Some a \<Rightarrow> a)) (\<lambda>ap1.
        cxx_bind (if index + 1 < n - 1 then snprintf_512 (lit ''/'') ap1 else Inr ap1) (\<lambda>ap2.
        Inr (tc', Some ap2)))))"

fun url_parts :: "nat \<Rightarrow> nat \<Rightarrow> bytes list \<Rightarrow> (nat \<times> bytes) \<times> (nat \<times> bytes) option \<Rightarrow> ((nat \<times> bytes) \<times> (nat \<times> bytes) option) cxx" where
  "url_parts index n [] st = Inr st"
| "url_parts index n (part # parts) st = cxx_bind (url_part index n part st) (url_parts (Suc index) n parts)"

record rtmp_url =
  url_host :: bytes
  url_port :: u16
  url_tcurl :: bytes
  url_app :: bytes
  url_stream :: bytes

text \<open>\<open>Inl\<close> of the inner sum is the error code.\<close>

definition get_rtmp_url_info :: "bytes \<Rightarrow> (int + rtmp_url) cxx" where
  "get_rtmp_url_info url =
     (if str_find (lit ''rtmp://'') url \<noteq> Some 0 then Inr (Inl (-1))
      else if length url < 8 then Inr (Inl (-2))
      else
        cxx_bind (string_split (drop 7 url) (lit ''/'')) (\<lambda>info_vec.
        if length info_vec < 2 then Inr (Inl (-3))
        else
          let host0 = hd info_vec;
              (host, iport) = (case str_find (lit '':'') host0 of
                 None \<Rightarrow> (host0, 1935) | Some pos \<Rightarrow> (take pos host0, atoi (drop (pos + 1) host0))) in
          if iport < 0 then Inr (Inl (-4))
          else
            cxx_bind (snprintf_512 (lit ''rtmp://'') (0, [])) (\<lambda>tc0.
            cxx_bind (url_parts 0 (length info_vec) (butlast info_vec) (tc0, None)) (\<lambda>(tc, ap).
            case ap of None \<Rightarrow> Inl UninitRead
            | Some (_, app) \<Rightarrow>
                Inr (Inr \<lparr>url_host = host, url_port = word_of_int iport, url_tcurl = snd tc, url_app = app, url_stream = last info_vec\<rparr>)))))"

subsection \<open>The session\<close>

datatype client_call = Conn_connect bytes u16 | Conn_send bytes | Conn_close | Conn_read | On_message MEDIA_PACKET

record rtmp_client_session =
  cl_base :: rtmp_session_base
  cl_cb :: bool
  cl_host :: bytes
  cl_port :: u16
  cl_calls :: "client_call list"

definition new_rtmp_client_session :: "bool \<Rightarrow> rtmp_client_session" where
  "new_rtmp_client_session cb = \<lparr>cl_base = new_rtmp_session_base, cl_cb = cb, cl_host = [], cl_port = 1935, cl_calls = []\<rparr>"

definition ccall :: "client_call \<Rightarrow> rtmp_client_session \<Rightarrow> rtmp_client_session" where
  "ccall x s = s\<lparr>cl_calls := cl_calls s @ [x]\<rparr>"

abbreviation upd_cl :: "(rtmp_session_base \<Rightarrow> rtmp_session_base) \<Rightarrow> rtmp_client_session \<Rightarrow> rtmp_client_session" where
  "upd_cl f s \<equiv> s\<lparr>cl_base := f (cl_base s)\<rparr>"

definition set_client_phase :: "RTMP_CLIENT_SESSION_PHASE \<Rightarrow> rtmp_client_session \<Rightarrow> rtmp_client_session" where
  "set_client_phase ph = upd_cl (\<lambda>b. b\<lparr>client_phase := ph\<rparr>)"

definition client_reset_recv :: "rtmp_client_session \<Rightarrow> rtmp_client_session" where
  "client_reset_recv = upd_cl (\<lambda>b. b\<lparr>recv_buffer := []\<rparr>)"

definition start :: "bytes \<Rightarrow> bool \<Rightarrow> rtmp_client_session \<Rightarrow> (int \<times> rtmp_client_session) cxx" where
  "start url publish s =
     cxx_bind (get_rtmp_url_info url) (\<lambda>r. case r of
       Inl ret \<Rightarrow> Inr (ret, s)
     | Inr i \<Rightarrow>
         let s1 = upd_cl (\<lambda>b. b\<lparr>ss_req := (ss_req b)\<lparr>rq_tcurl := url_tcurl i, rq_app := url_app i, rq_stream_name := url_stream i,
                    rq_key := url_app i @ lit ''/'' @ url_stream i, rq_publish_flag := publish\<rparr>\<rparr>)
                  (s\<lparr>cl_host := url_host i, cl_port := url_port i\<rparr>) in
         Inr (0, ccall (Conn_connect (url_host i) (url_port i)) s1))"

definition client_rtmp_send :: "bytes \<Rightarrow> rtmp_client_session \<Rightarrow> rtmp_client_session" where
  "client_rtmp_send data s = ccall (Conn_send data) s"

definition client_send_amf :: "bytes \<Rightarrow> rtmp_client_session \<Rightarrow> (int \<times> rtmp_client_session) cxx" where
  "client_send_amf amf s =
     cxx_bind (write_data_by_chunk_stream 3 0 RTMP_COMMAND_MESSAGES_AMF0 0 (get_chunk_size (cl_base s)) amf) (\<lambda>bs.
     Inr (RTMP_OK, fold client_rtmp_send bs s))"

definition str_item :: "bytes \<Rightarrow> AMF_ITERM" where
  "str_item = amf_string AMF_DATA_TYPE_STRING"

definition connect_object :: "rtmp_request \<Rightarrow> (bytes \<times> AMF_ITERM) list" where
  "connect_object req =
     um_insert (lit ''tcUrl'') (str_item (rq_tcurl req))
    (um_insert (lit ''flashVer'') (str_item (lit ''FMS.3.1''))
    (um_insert (lit ''type'') (str_item (lit ''nonprivate''))
    (um_insert (lit ''app'') (str_item (rq_app req)) [])))"

definition rtmp_connect :: "(nat \<Rightarrow> nat) \<Rightarrow> rtmp_client_session \<Rightarrow> (int \<times> rtmp_client_session) cxx" where
  "rtmp_connect u s =
     (let req = ss_req (cl_base s) in
      cxx_bind (encode_string u False (lit ''connect'')) (\<lambda>a.
      cxx_bind (encode_object u (connect_object req)) (\<lambda>(_, b).
      client_send_amf (a @ encode_number (double_of_int (rq_transaction_id req)) @ b) s)))"

definition rtmp_createstream :: "(nat \<Rightarrow> nat) \<Rightarrow> rtmp_client_session \<Rightarrow> (int \<times> rtmp_client_session) cxx" where
  "rtmp_createstream u s =
     cxx_bind (encode_string u False (lit ''createStream'')) (\<lambda>a.
     client_send_amf (a @ encode_number (double_of_int (rq_transaction_id (ss_req (cl_base s)))) @ encode_null) s)"

definition rtmp_play :: "(nat \<Rightarrow> nat) \<Rightarrow> rtmp_client_session \<Rightarrow> (int \<times> rtmp_client_session) cxx" where
  "rtmp_play u s =
     cxx_bind (encode_string u False (lit ''play'')) (\<lambda>a.
     cxx_bind (encode_string u False (rq_stream_name (ss_req (cl_base s)))) (\<lambda>b.
     client_send_amf (a @ encode_number 0 @ encode_null @ b) s))"

definition rtmp_publish :: "(nat \<Rightarrow> nat) \<Rightarrow> rtmp_client_session \<Rightarrow> (int \<times> rtmp_client_session) cxx" where
  "rtmp_publish u s =
     cxx_bind (encode_string u False (lit ''publish'')) (\<lambda>a.
     cxx_bind (encode_string u False (rq_stream_name (ss_req (cl_base s)))) (\<lambda>b.
     cxx_bind (encode_string u False (lit ''live'')) (\<lambda>c.
     client_send_amf (a @ encode_number 0 @ encode_null @ b @ c) s)))"

definition rtmp_write :: "bool \<Rightarrow> MEDIA_PACKET \<Rightarrow> rtmp_client_session \<Rightarrow> (int \<times> rtmp_client_session) cxx" where
  "rtmp_write is_connect pkt s =
     (if \<not> is_connect then Inr (-1, s)
      else
        let send = (\<lambda>csid ty. cxx_bind (write_data_by_chunk_stream csid (word_of_int (dts pkt)) ty (pkt_streamid pkt)
              (get_chunk_size (cl_base s)) (pkt_buffer pkt)) (\<lambda>bs. Inr (RTMP_OK, fold client_rtmp_send bs s))) in
        case av_type pkt of
          MEDIA_VIDEO_TYPE \<Rightarrow> send 6 RTMP_MEDIA_PACKET_VIDEO
        | MEDIA_AUDIO_TYPE \<Rightarrow> send 4 RTMP_MEDIA_PACKET_AUDIO
        | MEDIA_METADATA_TYPE \<Rightarrow> send 6 (pkt_typeid pkt)
        | MEDIA_UNKOWN_TYPE \<Rightarrow> Inr (-1, s))"

subsection \<open>Receiving\<close>

definition client_reset_at :: "u8 \<Rightarrow> chunk_stream \<Rightarrow> rtmp_client_session \<Rightarrow> rtmp_client_session" where
  "client_reset_at k c = upd_cl (\<lambda>b. b\<lparr>cs_map := AList.update k (reset_chunk_stream c) (cs_map b)\<rparr>)"

text \<open>
  The body of the loop of \<open>receive_resp_message\<close> for a complete message. \<open>Round_return\<close> is a return,
  \<open>Round_maybe\<close> goes on while there is input and breaks otherwise, \<open>Round_again\<close> always goes on.
\<close>

datatype round = Round_return | Round_maybe | Round_again

definition client_control :: "u8 \<Rightarrow> chunk_stream \<Rightarrow> rtmp_client_session \<Rightarrow> (round \<times> int \<times> rtmp_client_session) cxx" where
  "client_control k c s =
     cxx_bind (handle_rtmp_control_message c \<lparr>ct_base = cl_base s, ct_sent = []\<rparr>) (\<lambda>(ret, ct).
     let s1 = fold client_rtmp_send (ct_sent ct) (s\<lparr>cl_base := ct_base ct\<rparr>) in
     if ret < RTMP_OK then Inr (Round_return, ret, s1) else Inr (Round_maybe, ret, client_reset_at k c s1))"

definition client_command :: "u8 \<Rightarrow> chunk_stream \<Rightarrow> rtmp_client_session \<Rightarrow> (round \<times> int \<times> rtmp_client_session) cxx" where
  "client_command k c s =
     cxx_bind (handle_server_command_message c (cl_base s)) (\<lambda>(ret, b).
     let s1 = s\<lparr>cl_base := b\<rparr> in
     if ret < RTMP_OK then Inr (Round_return, ret, s1) else Inr (Round_maybe, ret, client_reset_at k c s1))"

definition client_media :: "u8 \<Rightarrow> chunk_stream \<Rightarrow> rtmp_client_session \<Rightarrow> (round \<times> int \<times> rtmp_client_session) cxx" where
  "client_media k c s =
     cxx_bind (get_media_packet (ss_req (cl_base s)) c) (\<lambda>p. case p of
       None \<Rightarrow> Inl NullDeref
     | Some pkt \<Rightarrow>
         if pkt_buffer pkt = [] then Inr (Round_return, -1, s)
         else Inr (Round_again, RTMP_NEED_READ_MORE, client_reset_at k c (if cl_cb s then ccall (On_message pkt) s else s)))"

definition client_message :: "u8 \<Rightarrow> chunk_stream \<Rightarrow> rtmp_client_session \<Rightarrow> (round \<times> int \<times> rtmp_client_session) cxx" where
  "client_message k c s =
     (let ty = cs_type_id c in
      if RTMP_CONTROL_SET_CHUNK_SIZE \<le> ty \<and> ty \<le> RTMP_CONTROL_SET_PEER_BANDWIDTH then client_control k c s
      else if ty = RTMP_COMMAND_MESSAGES_AMF0 then client_command k c s
      else if ty \<in> {RTMP_MEDIA_PACKET_VIDEO, RTMP_MEDIA_PACKET_AUDIO, RTMP_COMMAND_MESSAGES_META_DATA0, RTMP_COMMAND_MESSAGES_META_DATA3}
      then client_media k c s
      else Inr (Round_again, RTMP_OK, s))"

lemma client_send_base [simp]: "cl_base (fold client_rtmp_send ds s) = cl_base s"
  by (induction ds arbitrary: s) (simp_all add: client_rtmp_send_def ccall_def)

lemma client_reset_measure [simp]: "ss_measure (cl_base (client_reset_at k c s)) = ss_measure (cl_base s)"
  by (simp add: client_reset_at_def ss_measure_def)

lemma client_control_measure:
  assumes "client_control k c s = Inr (go, r, s')" shows "ss_measure (cl_base s') = ss_measure (cl_base s)"
proof -
  obtain q ct where h: "handle_rtmp_control_message c \<lparr>ct_base = cl_base s, ct_sent = []\<rparr> = Inr (q, ct)"
    using assms by (auto simp: client_control_def cxx_bind_Inr_iff)
  have "input_of (ct_base ct) = input_of (cl_base s)" using control_keeps_input h by (fastforce simp: keeps_input_def)
  from measure_input [OF this] show ?thesis using assms h by (auto simp: client_control_def Let_def split: if_splits)
qed

lemma server_command_measure:
  assumes "handle_server_command_message c b = Inr (q, b')" shows "ss_measure b' = ss_measure b"
proof -
  obtain vec where v: "decode_command (cs_data c) = Inr vec"
    using assms by (cases "decode_command (cs_data c)") (simp_all add: handle_server_command_message_def)
  have "ss_measure (b\<lparr>client_phase := ph\<rparr>) = ss_measure b" for ph by (simp add: ss_measure_def)
  moreover have "b' = b \<or> (\<exists>ph. b' = b\<lparr>client_phase := ph\<rparr>)"
    using assms v by (cases "server_items b vec (client_phase b)") (simp_all add: handle_server_command_message_def split: if_splits, metis)
  ultimately show ?thesis by metis
qed

lemma client_command_measure:
  assumes "client_command k c s = Inr (go, r, s')" shows "ss_measure (cl_base s') = ss_measure (cl_base s)"
proof -
  obtain q b where h: "handle_server_command_message c (cl_base s) = Inr (q, b)" using assms by (auto simp: client_command_def cxx_bind_Inr_iff)
  have "ss_measure b = ss_measure (cl_base s)" by (rule server_command_measure [OF h])
  then show ?thesis using assms h by (auto simp: client_command_def Let_def split: if_splits)
qed

lemma client_media_measure: "client_media k c s = Inr (go, r, s') \<Longrightarrow> ss_measure (cl_base s') = ss_measure (cl_base s)"
  by (auto simp: client_media_def cxx_bind_Inr_iff ccall_def split: option.splits if_splits)

lemma client_message_measure: "client_message k c s = Inr (go, r, s') \<Longrightarrow> ss_measure (cl_base s') = ss_measure (cl_base s)"
  by (simp add: client_message_def Let_def client_control_measure client_command_measure client_media_measure split: if_splits)

function receive_resp_message :: "rtmp_client_session \<Rightarrow> (int \<times> rtmp_client_session) cxx" where
  "receive_resp_message s =
     cxx_bind (read_loop (cl_base s)) (\<lambda>(ret, b, k).
     let s1 = s\<lparr>cl_base := b\<rparr> in
     if ret \<noteq> RTMP_OK then Inr (ret, s1)
     else case message_of b k of
       None \<Rightarrow> Inl NullDeref
     | Some (j, c) \<Rightarrow>
         cxx_bind (client_message j c s1) (\<lambda>(go, ret2, s2).
         if go = Round_again \<or> (go = Round_maybe \<and> recv_buffer (cl_base s2) \<noteq> []) then receive_resp_message s2 else Inr (ret2, s2)))"
  by pat_completeness auto
termination
  by (relation "measure (\<lambda>s. ss_measure (cl_base s))") (auto dest!: read_loop_measure client_message_measure)

declare receive_resp_message.simps [simp del]

subsection \<open>The phases\<close>

definition send_c0c1 :: "bytes \<Rightarrow> rtmp_client_session \<Rightarrow> int \<times> rtmp_client_session" where
  "send_c0c1 random s = (0, client_rtmp_send (list_update (take 1537 random) 0 3) s)"

definition client_on_connect :: "bytes \<Rightarrow> int \<Rightarrow> rtmp_client_session \<Rightarrow> rtmp_client_session" where
  "client_on_connect random ret_code s =
     (if ret_code \<noteq> 0 then ccall Conn_close s
      else ccall Conn_read (snd (send_c0c1 random (client_reset_recv (set_client_phase client_c0c1_phase s)))))"

text \<open>
  \<open>handle_message\<close> is a sequence of blocks, each guarded by the phase the one before may have set. A
  block gives \<open>Inl\<close> of the value it returns, or \<open>Inr\<close> of the session it hands on.
\<close>

type_synonym block = "((int \<times> rtmp_client_session) + rtmp_client_session) cxx"

definition block_c0c1 :: "(nat \<Rightarrow> nat) \<Rightarrow> rtmp_client_session \<Rightarrow> block" where
  "block_c0c1 u s =
     (if client_phase (cl_base s) \<noteq> client_c0c1_phase then Inr (Inr s)
      else if length (recv_buffer (cl_base s)) < 1536 * 2 + 1 then Inr (Inl (RTMP_NEED_READ_MORE, ccall Conn_read s))
      else
        let c2 = take 1536 (drop 1 (recv_buffer (cl_base s)));
            s1 = ccall (Conn_send c2) (set_client_phase client_connect_phase s) in
        cxx_bind (rtmp_connect u s1) (\<lambda>(ret, s2).
        if ret < 0 then Inr (Inl (-1, ccall Conn_close s2))
        else Inr (Inl (RTMP_NEED_READ_MORE, ccall Conn_read (client_reset_recv (set_client_phase client_connect_resp_phase s2))))))"

definition block_connect_resp :: "rtmp_client_session \<Rightarrow> block" where
  "block_connect_resp s =
     (if client_phase (cl_base s) \<noteq> client_connect_resp_phase then Inr (Inr s)
      else
        cxx_bind (receive_resp_message s) (\<lambda>(ret, s1).
        if ret < 0 then Inr (Inl (-1, ccall Conn_close s1))
        else if ret = RTMP_NEED_READ_MORE then Inr (Inl (RTMP_NEED_READ_MORE, s1))
        else if ret = 0 then Inr (Inr (if client_phase (cl_base s1) = client_connect_resp_phase then ccall Conn_read s1 else s1))
        else Inr (Inl (-1, ccall Conn_close s1))))"

definition block_create_stream :: "(nat \<Rightarrow> nat) \<Rightarrow> rtmp_client_session \<Rightarrow> block" where
  "block_create_stream u s =
     (if client_phase (cl_base s) \<noteq> client_create_stream_phase then Inr (Inr s)
      else
        cxx_bind (rtmp_createstream u s) (\<lambda>(ret, s1).
        if ret < 0 then Inr (Inl (ret, ccall Conn_close s1))
        else Inr (Inl (RTMP_NEED_READ_MORE, ccall Conn_read (set_client_phase client_create_stream_resp_phase (client_reset_recv s1))))))"

definition block_create_stream_resp :: "rtmp_client_session \<Rightarrow> block" where
  "block_create_stream_resp s =
     (if client_phase (cl_base s) \<noteq> client_create_stream_resp_phase then Inr (Inr s)
      else
        cxx_bind (receive_resp_message s) (\<lambda>(ret, s1).
        if ret < 0 then Inr (Inl (ret, ccall Conn_close s1))
        else if ret = RTMP_NEED_READ_MORE then Inr (Inl (RTMP_NEED_READ_MORE, ccall Conn_read s1))
        else if ret = 0 then
          Inr (Inr (client_reset_recv (set_client_phase
            (if rq_publish_flag (ss_req (cl_base s1)) then client_create_publish_phase else client_create_play_phase) s1)))
        else Inr (Inl (-1, ccall Conn_close s1))))"

definition block_play_publish :: "(nat \<Rightarrow> nat) \<Rightarrow> rtmp_client_session \<Rightarrow> block" where
  "block_play_publish u s =
     (if client_phase (cl_base s) \<in> {client_create_play_phase, client_create_publish_phase} then
        cxx_bind (if client_phase (cl_base s) = client_create_play_phase then rtmp_play u s else rtmp_publish u s) (\<lambda>(ret, s1).
        if ret < 0 then Inr (Inl (ret, ccall Conn_close s1))
        else Inr (Inl (0, set_client_phase client_media_handle_phase (ccall Conn_read (client_reset_recv s1)))))
      else Inr (Inr s))"

definition block_media :: "rtmp_client_session \<Rightarrow> (int \<times> rtmp_client_session) cxx" where
  "block_media s =
     (if client_phase (cl_base s) \<noteq> client_media_handle_phase then Inr (0, s)
      else
        cxx_bind (receive_resp_message s) (\<lambda>(ret, s1).
        if ret < 0 then Inr (ret, ccall Conn_close s1) else Inr (ret, ccall Conn_read s1)))"

definition then_block :: "block \<Rightarrow> (rtmp_client_session \<Rightarrow> block) \<Rightarrow> block" where
  "then_block m f = cxx_bind m (\<lambda>r. case r of Inl out \<Rightarrow> Inr (Inl out) | Inr s \<Rightarrow> f s)"

definition client_handle_message :: "(nat \<Rightarrow> nat) \<Rightarrow> rtmp_client_session \<Rightarrow> (int \<times> rtmp_client_session) cxx" where
  "client_handle_message u s =
     cxx_bind (then_block (then_block (then_block (then_block (block_c0c1 u s) block_connect_resp) (block_create_stream u))
        block_create_stream_resp) (block_play_publish u)) (\<lambda>r.
     case r of Inl out \<Rightarrow> Inr out | Inr s' \<Rightarrow> block_media s')"

definition client_on_read :: "(nat \<Rightarrow> nat) \<Rightarrow> int \<Rightarrow> bytes \<Rightarrow> rtmp_client_session \<Rightarrow> rtmp_client_session cxx" where
  "client_on_read u ret_code data s =
     (if ret_code \<noteq> 0 then Inr (ccall Conn_close s)
      else cxx_bind (client_handle_message u (upd_cl (\<lambda>b. b\<lparr>recv_buffer := recv_buffer b @ data\<rparr>) s)) (\<lambda>(ret, s1). Inr s1))"

definition client_on_write :: "int \<Rightarrow> rtmp_client_session \<Rightarrow> rtmp_client_session" where
  "client_on_write ret_code s = (if ret_code \<noteq> 0 then ccall Conn_close s else s)"

definition client_is_ready :: "rtmp_client_session \<Rightarrow> bool" where
  "client_is_ready s \<longleftrightarrow> client_phase (cl_base s) = client_media_handle_phase"

subsection \<open>A client publishes to a server\<close>

lemma publish_items_encode:
  assumes "roomy u" "fits name"
  shows "\<exists>amf. encode_values u (publish_items name) = Inr amf \<and> amf \<noteq> [] \<and> length amf < 2000 \<and> decode_command amf = Inr (publish_items name) \<and>
     rtmp_publish u (c\<lparr>cl_base := (cl_base c)\<lparr>ss_req := (ss_req (cl_base c))\<lparr>rq_stream_name := name\<rparr>\<rparr>\<rparr>) =
       client_send_amf amf (c\<lparr>cl_base := (cl_base c)\<lparr>ss_req := (ss_req (cl_base c))\<lparr>rq_stream_name := name\<rparr>\<rparr>\<rparr>)"
proof -
  have f: "fits (lit ''publish'')" "fits (lit ''live'')" by (simp_all add: fits_def glibc_usable_def)
  have e: "encode_string u False s = Inr (2 # write_2bytes (of_nat (length s)) @ s)" if "fits s" for s
    using encode_string_roomy(2) [OF assms(1), of s] that by (simp add: fits_def)
  have v: "encode_value u (amf_string AMF_DATA_TYPE_STRING s) = Inr (Some (2 # write_2bytes (of_nat (length s)) @ s))" if "fits s" for s
    using e [OF that] by (simp add: encode_value_def amf_string_def)
  have n: "encode_value u (amf_number AMF_DATA_TYPE_NUMBER x) = Inr (Some (encode_number x))"
    "encode_value u (amf_null AMF_DATA_TYPE_NULL) = Inr (Some encode_null)" for x
    by (simp_all add: encode_value_def amf_number_def amf_null_def encode_onlytype_def encode_null_def)
  have pl: "list_all plain_item (publish_items name)" using assms(2) by (simp add: publish_items_def plain_item.intros fits_def)
  have nn: "list_all (\<lambda>i. encode_value u i \<noteq> Inr None) (publish_items name)"
    using f assms(2) by (simp add: publish_items_def v n)
  let ?amf = "2 # write_2bytes (of_nat (length (lit ''publish''))) @ lit ''publish'' @ encode_number 0 @ encode_null @
     2 # write_2bytes (of_nat (length name)) @ name @ 2 # write_2bytes (of_nat (length (lit ''live''))) @ lit ''live''"
  have enc: "encode_values u (publish_items name) = Inr ?amf" using f assms(2) by (simp add: publish_items_def v n)
  have "length ?amf < 2000" using assms(2) by (simp add: fits_def encode_number_def encode_null_def)
  then show ?thesis using enc decode_command_values [OF enc pl nn] e [OF f(1)] e [OF f(2)] e [OF assms(2)]
    by (intro exI [of _ ?amf]) (simp add: rtmp_publish_def)
qed

lemma client_sends: "cl_calls (fold client_rtmp_send bs c) = cl_calls c @ map Conn_send bs"
  by (induction bs arbitrary: c) (simp_all add: client_rtmp_send_def ccall_def)

lemma small_ack:
  assumes "uint a + 2000 \<le> uint (w :: u32)" "n < 2000" shows "a + of_nat n \<le> w"
proof -
  have n: "uint (of_nat n :: u32) = int n" using assms(2) by (simp add: uint_nat unat_of_nat)
  have "uint a + int n < 2 ^ 32" using assms uint_lt2p [of w] by simp
  then have "uint (a + of_nat n) = uint a + int n" by (simp add: uint_word_ariths n)
  then show ?thesis using assms by (simp add: word_le_def)
qed

lemma command_message:
  assumes "cs_type_id c = RTMP_COMMAND_MESSAGES_AMF0"
    and "ack_received (sv_base s) + of_nat (length (cs_data c)) \<le> remote_window_acksize (sv_base s)"
  shows "handle_message u k c s = handle_command u k c
     (s\<lparr>sv_base := (sv_base s)\<lparr>ack_received := ack_received (sv_base s) + of_nat (length (cs_data c))\<rparr>\<rparr>)"
proof -
  have t: "\<not> RTMP_COMMAND_MESSAGES_AMF0 \<le> RTMP_CONTROL_SET_PEER_BANDWIDTH"
    by (simp add: RTMP_COMMAND_MESSAGES_AMF0_def RTMP_CONTROL_SET_PEER_BANDWIDTH_def)
  show ?thesis unfolding handle_message_def no_ack [OF assms(2)] Let_def split_conv using t assms(1) by simp
qed

text \<open>
  C10. A client's publish command reaches the server: the bytes the client sends, read by a connected server
  session, are answered and make the session the publisher of the key made of the session's
  application and the client's stream name; the session asks for the next read.
\<close>

theorem rtmp_client_publishes:
  assumes u: "roomy u" and name: "rq_stream_name (ss_req (cl_base c)) = name" "fits name" "name \<noteq> []"
    and sz: "get_chunk_size (cl_base c) = sz" "sz \<noteq> 0"
    and s: "connected s" "idle_for 3 sz (sv_base s)" "recv_buffer (sv_base s) = []" "get_chunk_size (sv_base s) \<noteq> 0"
    and ack: "uint (ack_received (sv_base s)) + 2000 \<le> uint (remote_window_acksize (sv_base s))"
  shows "\<exists>bs c' s'. rtmp_publish u c = Inr (RTMP_OK, c') \<and> cl_calls c' = cl_calls c @ map Conn_send bs \<and>
     rtmp_on_read u h 0 (concat bs) s = Inr s' \<and> server_phase (sv_base s') = media_handle_phase \<and>
     rq_publish_flag (ss_req (sv_base s')) \<and> rq_is_ready (ss_req (sv_base s')) \<and>
     rq_key (ss_req (sv_base s')) = rq_app (ss_req (sv_base s)) @ lit ''/'' @ name \<and> last (sv_calls s') = Try_read"
proof -
  have cl: "c\<lparr>cl_base := (cl_base c)\<lparr>ss_req := (ss_req (cl_base c))\<lparr>rq_stream_name := name\<rparr>\<rparr>\<rparr> = c" using name(1) by simp
  obtain amf where amf: "encode_values u (publish_items name) = Inr amf" "amf \<noteq> []" "length amf < 2000"
    "decode_command amf = Inr (publish_items name)" "rtmp_publish u c = client_send_amf amf c"
    using publish_items_encode [OF u name(2), of c] unfolding cl by blast
  obtain bs b where w: "write_data_by_chunk_stream 3 0 RTMP_COMMAND_MESSAGES_AMF0 0 sz amf = Inr bs"
    and rd: "read_loop ((sv_base s)\<lparr>recv_buffer := concat bs @ []\<rparr>) = Inr (RTMP_OK, b, Some (ucast (3 :: u16)))"
    and rc: "received 3 sz 0 RTMP_COMMAND_MESSAGES_AMF0 0 amf 0 [] (sv_base s) b"
    using message_round_trip [of 3 sz 0 amf "sv_base s" RTMP_COMMAND_MESSAGES_AMF0 0 "[]"] sz(2) amf(2,3) s(2) by auto
  let ?s = "upd_recv (\<lambda>x. x @ concat bs) s" and ?n = "of_nat (length amf) :: u32"
  have base: "sv_base ?s = (sv_base s)\<lparr>recv_buffer := concat bs @ []\<rparr>" using s(3) by (simp add: upd_recv_def)
  note o = outsideD [OF read_loop_outside [OF rd], simplified]
  obtain cs where cs: "map_of (cs_map b) 3 = Some cs" "receiving 3 sz 0 RTMP_COMMAND_MESSAGES_AMF0 0 amf 0 cs" using rc by (auto simp: received_def)
  have d: "cs_data cs = amf" "cs_type_id cs = RTMP_COMMAND_MESSAGES_AMF0" using cs(2) by (simp_all add: receiving_def)
  let ?s1 = "?s\<lparr>sv_base := b\<rparr>"
  let ?s2 = "?s1\<lparr>sv_base := (sv_base ?s1)\<lparr>ack_received := ack_received (sv_base ?s1) + of_nat (length (cs_data cs))\<rparr>\<rparr>"
  have ak: "ack_received (sv_base ?s1) + of_nat (length (cs_data cs)) \<le> remote_window_acksize (sv_base ?s1)"
    using small_ack [OF ack amf(3)] o d by simp
  have vec: "decode_command (cs_data cs) = Inr (publish_items name)" "3 \<le> length (publish_items name)"
    "amf_type (hd (publish_items name)) = AMF_DATA_TYPE_STRING" "desc_str (hd (publish_items name)) = lit ''publish''"
    using amf(4) d by (simp_all add: publish_items_def amf_string_def)
  have cz: "get_chunk_size (sv_base ?s2) \<noteq> 0" using s(4) o by (simp add: get_chunk_size_def)
  obtain s3 where s3: "handle_command u 3 cs ?s2 = Inr (True, RTMP_NEED_READ_MORE, s3)" "server_phase (sv_base s3) = media_handle_phase"
    "ss_req (sv_base s3) = ready_request True (tl (publish_items name)) (ss_req (sv_base s))"
    using publish_command [OF vec u cz, of 3] o by auto
  have hm: "handle_message u 3 cs ?s1 = Inr (True, RTMP_NEED_READ_MORE, s3)" using command_message [OF d(2) ak] s3(1) by simp
  have e: "recv_buffer b = []" using rc by (simp add: received_def)
  have run: "receive_chunk_stream u ?s = Inr (RTMP_NEED_READ_MORE, s3)"
    by (rule receive_one [OF _ cs(1) hm e]) (use rd base in simp)
  have "connected ?s" using s(1) by (simp add: connected_def upd_recv_def)
  from request_connected [OF this run] have req: "handle_request u h ?s = Inr (RTMP_NEED_READ_MORE, s3)" by simp
  have "read_loop ((sv_base s)\<lparr>recv_buffer := []\<rparr>) \<noteq> Inr (RTMP_OK, b, Some (ucast (3 :: u16)))"
    using read_loop_measure [of "(sv_base s)\<lparr>recv_buffer := []\<rparr>" RTMP_OK b] s(2) by (auto simp: ss_measure_def idle_for_def)
  with rd have "concat bs \<noteq> []" by (metis append_Nil2)
  then have on: "rtmp_on_read u h 0 (concat bs) s = Inr (call Try_read s3)"
    using req by (simp add: rtmp_on_read_def RTMP_NEED_READ_MORE_def del: concat_eq_Nil_conv)
  have key: "rq_key (ss_req (sv_base s3)) = rq_app (ss_req (sv_base s)) @ lit ''/'' @ name"
    "rq_publish_flag (ss_req (sv_base s3))" "rq_is_ready (ss_req (sv_base s3))"
    using name(3) s3(3) by (simp_all add: ready_request_def Let_def set_transaction_def stream_name_of_def publish_items_def name_item_def
      amf_string_def amf_number_def amf_null_def)
  have "rtmp_publish u c = Inr (RTMP_OK, fold client_rtmp_send bs c)"
    using amf(5) w sz(1) by (simp add: client_send_amf_def)
  then show ?thesis using on key s3(2)
    by (intro exI [of _ bs] exI [of _ "fold client_rtmp_send bs c"] exI [of _ "call Try_read s3"]) (simp add: client_sends, simp add: call_def)
qed

theorem rtmp_client_publishes_witness:
  "\<exists>bs c' s'. rtmp_publish (\<lambda>n. n + 32) (upd_cl (\<lambda>b. b\<lparr>ss_req := new_rtmp_request\<lparr>rq_stream_name := lit ''a''\<rparr>\<rparr>) (new_rtmp_client_session True)) =
       Inr (RTMP_OK, c') \<and> cl_calls c' = map Conn_send bs \<and>
     rtmp_on_read (\<lambda>n. n + 32) \<lparr>hs_parse_c1 = \<lambda>_. 0, hs_s1s2 = \<lambda>_. None\<rparr> 0 (concat bs)
       (set_phase create_publish_play_phase new_rtmp_server_session) = Inr s' \<and> rq_key (ss_req (sv_base s')) = lit ''/a''"
proof -
  let ?c = "upd_cl (\<lambda>b. b\<lparr>ss_req := new_rtmp_request\<lparr>rq_stream_name := lit ''a''\<rparr>\<rparr>) (new_rtmp_client_session True)"
  let ?s = "set_phase create_publish_play_phase new_rtmp_server_session"
  have "fits (lit ''a'')" by (simp add: fits_def glibc_usable_def)
  then show ?thesis
    using rtmp_client_publishes [of "\<lambda>n. n + 32" ?c "lit ''a''" 128 ?s "\<lparr>hs_parse_c1 = \<lambda>_. 0, hs_s1s2 = \<lambda>_. None\<rparr>"]
    by (auto simp: roomy_32 set_phase_def new_rtmp_server_session_def new_rtmp_session_base_def new_rtmp_client_session_def
      get_chunk_size_def CHUNK_DEF_SIZE_def new_rtmp_request_def idle_for_def connected_def lit_def)
qed

subsection \<open>A connect response in two pieces\<close>

text \<open>
  C40. While the client waits for the response to connect, a read that does not complete a message makes it
  wait for ever: the incomplete response is kept, and nothing is asked of the connection.
\<close>

theorem rtmp_client_connect_stalls:
  assumes "client_phase (cl_base s) = client_connect_resp_phase"
    and "read_loop ((cl_base s)\<lparr>recv_buffer := recv_buffer (cl_base s) @ data\<rparr>) = Inr (RTMP_NEED_READ_MORE, b, k)"
  shows "client_on_read u 0 data s = Inr (s\<lparr>cl_base := b\<rparr>)"
proof -
  let ?s = "upd_cl (\<lambda>b. b\<lparr>recv_buffer := recv_buffer b @ data\<rparr>) s"
  have "receive_resp_message ?s = Inr (RTMP_NEED_READ_MORE, s\<lparr>cl_base := b\<rparr>)"
    using assms(2) by (subst receive_resp_message.simps) (simp add: RTMP_OK_def RTMP_NEED_READ_MORE_def)
  then have "block_connect_resp ?s = Inr (Inl (RTMP_NEED_READ_MORE, s\<lparr>cl_base := b\<rparr>))"
    using assms(1) by (simp add: block_connect_resp_def RTMP_NEED_READ_MORE_def)
  moreover have "block_c0c1 u ?s = Inr (Inr ?s)" using assms(1) by (simp add: block_c0c1_def)
  ultimately show ?thesis by (simp add: client_on_read_def client_handle_message_def then_block_def)
qed

theorem rtmp_client_connect_stalls_witness:
  "\<exists>b. client_on_read (\<lambda>n. n) 0 [3] (set_client_phase client_connect_resp_phase (new_rtmp_client_session True)) =
     Inr ((set_client_phase client_connect_resp_phase (new_rtmp_client_session True))\<lparr>cl_base := b\<rparr>)"
proof -
  let ?s = "set_client_phase client_connect_resp_phase (new_rtmp_client_session True)"
  have "\<exists>b k. read_loop ((cl_base ?s)\<lparr>recv_buffer := recv_buffer (cl_base ?s) @ [3]\<rparr>) = Inr (RTMP_NEED_READ_MORE, b, k)"
    by (subst read_loop.simps)
       (simp add: read_chunk_stream_def read_fmt_csid_def set_client_phase_def new_rtmp_client_session_def new_rtmp_session_base_def RTMP_OK_def
        RTMP_NEED_READ_MORE_def read_body_def find_chunk_stream_def new_chunk_stream_def read_message_header_def read_msg_format0_def)
  then obtain b k where "read_loop ((cl_base ?s)\<lparr>recv_buffer := recv_buffer (cl_base ?s) @ [3]\<rparr>) = Inr (RTMP_NEED_READ_MORE, b, k)" by blast
  from rtmp_client_connect_stalls [OF _ this] show ?thesis by (auto simp: set_client_phase_def)
qed

subsection \<open>Parsing a URL\<close>

definition no_nul :: "bytes \<Rightarrow> bool" where
  "no_nul s \<longleftrightarrow> 0 \<notin> set s"

lemma c_str_id: "no_nul s \<Longrightarrow> c_str s = s"
  by (auto simp: no_nul_def c_str_def takeWhile_eq_all_conv)

lemma lit_slash: "lit ''/'' = [47]" "no_nul (lit ''/'')"
  by (simp_all add: lit_def no_nul_def)

lemma snprintf_fits: "no_nul s \<Longrightarrow> length buf + length s \<le> 511 \<Longrightarrow>
   snprintf_512 s (length buf, buf) = Inr (length (buf @ s), buf @ s)"
  by (simp add: snprintf_512_def c_str_id)

abbreviation slashed :: "bytes list \<Rightarrow> bytes" where
  "slashed ps \<equiv> concat (map (\<lambda>p. 47 # p) ps)"

lemma length_join_slashed: "length (join [47] ps) \<le> length (slashed ps)"
  by (induction "[47] :: bytes" ps rule: join.induct) auto

lemma url_parts_rest:
  assumes "ps \<noteq> []" "1 \<le> i" "i + length ps = n - 1" "list_all no_nul ps"
    and "length tb + length (slashed ps) \<le> 511" "length ab + length (slashed ps) \<le> 511" "ap = Some (length ab, ab) \<or> (ap = None \<and> ab = [])"
  shows "url_parts i n ps ((length tb, tb), ap) =
     Inr ((length (tb @ slashed ps), tb @ slashed ps), Some (length (ab @ join [47] ps), ab @ join [47] ps))"
  using assms
proof (induction ps arbitrary: i tb ab ap)
  case (Cons p ps)
  have nn: "no_nul p" "no_nul (47 # p)" using Cons.prems(4) by (auto simp: no_nul_def)
  have ap: "(case ap of None \<Rightarrow> (0, []) | Some a \<Rightarrow> a) = (length ab, ab)" using Cons.prems(7) by auto
  have t: "snprintf_512 (lit ''/'' @ p) (length tb, tb) = Inr (length (tb @ 47 # p), tb @ 47 # p)"
    using snprintf_fits [OF nn(2), of tb] Cons.prems(5) by (simp add: lit_slash)
  have a: "snprintf_512 p (length ab, ab) = Inr (length (ab @ p), ab @ p)"
    using snprintf_fits [OF nn(1), of ab] Cons.prems(6) by simp
  show ?case
  proof (cases ps)
    case Nil
    then show ?thesis using Cons.prems(2,3) t a ap by (simp add: url_part_def)
  next
    case (Cons q qs)
    have l: "snprintf_512 (lit ''/'') (length (ab @ p), ab @ p) = Inr (length (ab @ p @ [47]), ab @ p @ [47])"
      using snprintf_fits [OF lit_slash(2), of "ab @ p"] Cons.prems(6) Cons by (simp add: lit_slash)
    have "i + 1 < n - 1" using Cons.prems(3) Cons by simp
    then have step: "url_part i n p ((length tb, tb), ap) =
       Inr ((length (tb @ 47 # p), tb @ 47 # p), Some (length (ab @ p @ [47]), ab @ p @ [47]))"
      using Cons.prems(2) t a ap l by (simp add: url_part_def)
    have "url_parts (Suc i) n ps ((length (tb @ 47 # p), tb @ 47 # p), Some (length (ab @ p @ [47]), ab @ p @ [47])) =
      Inr ((length ((tb @ 47 # p) @ slashed ps), (tb @ 47 # p) @ slashed ps),
        Some (length ((ab @ p @ [47]) @ join [47] ps), (ab @ p @ [47]) @ join [47] ps))"
      by (rule Cons.IH) (use Cons.prems Cons in auto)
    then show ?thesis using step Cons by (simp add: join_Cons)
  qed
qed simp

text \<open>
  C31. A URL of a host, an application of one or more parts and a stream name is parsed to exactly these, with the
  default port and the URL up to the application, as long as it fits the 512-byte arrays.
\<close>

theorem rtmp_url_parsed:
  assumes parts: "\<forall>p \<in> set (host # apps @ [stream]). 47 \<notin> set p \<and> 0 \<notin> set p" and "58 \<notin> set host" "apps \<noteq> []" "stream \<noteq> []"
    and len: "length (join [47] (host # apps)) \<le> 500" "length (slashed apps) \<le> 500"
  shows "get_rtmp_url_info (lit ''rtmp://'' @ join [47] (host # apps @ [stream])) =
     Inr (Inr \<lparr>url_host = host, url_port = 1935, url_tcurl = lit ''rtmp://'' @ join [47] (host # apps), url_app = join [47] apps, url_stream = stream\<rparr>)"
proof -
  let ?ps = "host # apps @ [stream]" and ?r = "lit ''rtmp://''"
  let ?url = "?r @ join [47] ?ps"
  have sp: "string_split (join [47] ?ps) [47] = Inr ?ps" by (rule string_split_join) (use parts assms(4) in auto)
  have f: "str_find ?r ?url = Some 0" by (rule str_find_here)
  have colon: "str_find (lit '':'') host = None" using str_find_none [OF assms(2), of "[]"] by (simp add: lit_def)
  have len8: "\<not> length ?url < 8" using assms(4) join_not_Nil [of ?ps "[47]"] by (cases "join [47] ?ps") auto
  have r0: "snprintf_512 ?r (0, []) = Inr (length ?r, ?r)" using snprintf_fits [of ?r "[]"] by (simp add: no_nul_def lit_def)
  have js: "join [47] (host # apps) = host @ slashed apps" for host :: bytes and apps
    by (induction apps arbitrary: host) (auto simp: join_Cons)
  have hl: "length host + length (slashed apps) \<le> 500" using len(1) unfolding js by simp
  have nn: "no_nul host" "list_all no_nul apps" using parts by (auto simp: no_nul_def list_all_iff)
  have h: "snprintf_512 host (length ?r, ?r) = Inr (length (?r @ host), ?r @ host)" using snprintf_fits [OF nn(1), of ?r] hl by simp
  have "url_parts 1 (length ?ps) apps ((length (?r @ host), ?r @ host), None) =
     Inr ((length ((?r @ host) @ slashed apps), (?r @ host) @ slashed apps), Some (length ([] @ join [47] apps), [] @ join [47] apps))"
    by (rule url_parts_rest) (use assms(3) nn(2) hl len(2) in auto)
  then have "url_parts 0 (length ?ps) (host # apps) ((length ?r, ?r), None) =
     Inr ((length (?r @ host @ slashed apps), ?r @ host @ slashed apps), Some (length (join [47] apps), join [47] apps))"
    using h by (simp add: url_part_def)
  moreover have "butlast ?ps = host # apps" by (simp add: butlast_append)
  moreover have "drop 7 ?url = join [47] ?ps" by simp
  ultimately show ?thesis using f len8 sp colon r0
    by (simp add: get_rtmp_url_info_def js lit_slash(1))
qed

theorem rtmp_url_parsed_witness:
  "get_rtmp_url_info (lit ''rtmp://'' @ [104] @ [47] @ [97] @ [47] @ [115]) =
     Inr (Inr \<lparr>url_host = [104], url_port = 1935, url_tcurl = lit ''rtmp://'' @ [104, 47, 97], url_app = [97], url_stream = [115]\<rparr>)"
  using rtmp_url_parsed [of "[104]" "[[97]]" "[115]"] by simp

lemma rtmp_url_without_app:
  assumes "47 \<notin> set host" "0 \<notin> set host" "58 \<notin> set host" "47 \<notin> set stream" "stream \<noteq> []" "length host \<le> 500"
  shows "get_rtmp_url_info (lit ''rtmp://'' @ host @ [47] @ stream) = Inl UninitRead"
proof -
  let ?r = "lit ''rtmp://''"
  have sp: "string_split (join [47] [host, stream]) [47] = Inr [host, stream]" by (rule string_split_join) (use assms in auto)
  have f: "str_find ?r (?r @ host @ [47] @ stream) = Some 0" by (rule str_find_here)
  have colon: "str_find (lit '':'') host = None" using str_find_none [OF assms(3), of "[]"] by (simp add: lit_def)
  have r0: "snprintf_512 ?r (0, []) = Inr (length ?r, ?r)" using snprintf_fits [of ?r "[]"] by (simp add: no_nul_def lit_def)
  have h: "snprintf_512 host (length ?r, ?r) = Inr (length (?r @ host), ?r @ host)"
    using snprintf_fits [of host ?r] assms(2,6) by (simp add: no_nul_def)
  show ?thesis using f sp colon r0 h by (simp add: get_rtmp_url_info_def url_part_def lit_slash(1))
qed

end
