(* ===== verification/Rtp.thy ===== *)
theory Rtp
  imports Byte_Stream
begin

text \<open>
  RTP packets: \<open>src/net/rtprtcp/rtprtcp_pub.hpp\<close> and \<open>src/net/rtprtcp/rtp_packet.cpp\<close>. A packet
  object points into the buffer it was parsed from; here it holds that buffer (\<open>rp_data\<close>), and
  its pointers are offsets into it. The bit fields of the headers are laid out as GCC does on a
  little-endian machine, first field in the low bits.

  Shown: the parser never leaves its input and establishes \<open>rtp_ok\<close>; unwrapping a retransmission
  (\<open>rtx_demux\<close>) gives back the packet that was wrapped; the comparison of sequence numbers is
  serial-number comparison.
\<close>

subsection \<open>Kinds of packets, sequence numbers\<close>

definition RTP_PACKET_MAX_SIZE :: nat where "RTP_PACKET_MAX_SIZE = 1500"

definition SEQUENCE_MAX :: int where "SEQUENCE_MAX = 65535"

definition is_rtcp :: "bytes \<Rightarrow> bool" where
  "is_rtcp data \<longleftrightarrow> 4 \<le> length data \<and> (127 < data ! 0 \<and> data ! 0 < 192) \<and> drop_bit 6 (data ! 0) = 2 \<and>
     (192 \<le> data ! 1 \<and> data ! 1 \<le> 223)"

definition is_rtp :: "bytes \<Rightarrow> bool" where
  "is_rtp data \<longleftrightarrow> 12 \<le> length data \<and> (127 < data ! 0 \<and> data ! 0 < 192) \<and> drop_bit 6 (data ! 0) = 2"

definition get_rtcp_length :: "bytes \<Rightarrow> u16 cxx" where
  "get_rtcp_length header = cxx_bind (read_2bytes (drop 2 header)) (\<lambda>l. Inr (l * 4))"

definition seq_lower_than :: "u16 \<Rightarrow> u16 \<Rightarrow> bool" where
  "seq_lower_than seq1 seq2 =
     (if seq1 > seq2 \<and> uint seq1 - uint seq2 > SEQUENCE_MAX div 2 then True
      else if seq1 < seq2 \<and> uint seq2 - uint seq1 \<le> SEQUENCE_MAX div 2 then True
      else False)"

definition seq_higher_than :: "u16 \<Rightarrow> u16 \<Rightarrow> bool" where
  "seq_higher_than seq1 seq2 = (if seq1 = seq2 then False else \<not> seq_lower_than seq1 seq2)"

subsection \<open>The packet\<close>

record rtp_packet =
  rp_data :: bytes
  rp_ext :: "nat option"
  rp_payload :: nat
  rp_payload_len :: nat
  rp_pad_len :: u8
  rp_data_len :: nat
  rp_local_ms :: int
  rp_is_clone :: bool
  rp_onebyte_ext_map :: "u8 \<rightharpoonup> nat"
  rp_twobytes_ext_map :: "u8 \<rightharpoonup> nat"

text \<open>Storing bytes inside the buffer, and reading a field of the header (the buffer of a packet is longer).\<close>

definition put :: "nat \<Rightarrow> bytes \<Rightarrow> bytes \<Rightarrow> bytes" where
  "put i xs d = take i d @ xs @ drop (i + length xs) d"

definition be16 :: "nat \<Rightarrow> bytes \<Rightarrow> u16" where
  "be16 i d = from_mem [d ! (i + 1), d ! i]"

definition be32 :: "nat \<Rightarrow> bytes \<Rightarrow> u32" where
  "be32 i d = from_mem [d ! (i + 3), d ! (i + 2), d ! (i + 1), d ! i]"

definition has_padding :: "rtp_packet \<Rightarrow> bool" where
  "has_padding pkt = bit (rp_data pkt ! 0) 5"

definition has_extension :: "rtp_packet \<Rightarrow> bool" where
  "has_extension pkt = bit (rp_data pkt ! 0) 4"

definition csrc_count :: "u8 \<Rightarrow> nat" where
  "csrc_count b0 = unat (b0 AND 0x0F)"

definition get_payload_type :: "rtp_packet \<Rightarrow> u8" where
  "get_payload_type pkt = rp_data pkt ! 1 AND 0x7F"

definition get_marker :: "rtp_packet \<Rightarrow> u8" where
  "get_marker pkt = drop_bit 7 (rp_data pkt ! 1)"

definition get_seq :: "rtp_packet \<Rightarrow> u16" where
  "get_seq pkt = be16 2 (rp_data pkt)"

definition get_timestamp :: "rtp_packet \<Rightarrow> u32" where
  "get_timestamp pkt = be32 4 (rp_data pkt)"

definition get_ssrc :: "rtp_packet \<Rightarrow> u32" where
  "get_ssrc pkt = be32 8 (rp_data pkt)"

definition get_data :: "rtp_packet \<Rightarrow> bytes" where
  "get_data pkt = take (rp_data_len pkt) (rp_data pkt)"

definition get_payload :: "rtp_packet \<Rightarrow> bytes" where
  "get_payload pkt = take (rp_payload_len pkt) (drop (rp_payload pkt) (rp_data pkt))"

text \<open>The setters write into the buffer; a bit field keeps the other bits of its byte.\<close>

definition set_padding_off :: "bytes \<Rightarrow> bytes" where
  "set_padding_off d = put 0 [d ! 0 AND 0xDF] d"

definition set_payload_type :: "u8 \<Rightarrow> bytes \<Rightarrow> bytes" where
  "set_payload_type ty d = put 1 [(d ! 1 AND 0x80) OR (ty AND 0x7F)] d"

definition set_seq :: "u16 \<Rightarrow> bytes \<Rightarrow> bytes" where
  "set_seq seq d = put 2 (write_2bytes seq) d"

definition set_ssrc :: "u32 \<Rightarrow> bytes \<Rightarrow> bytes" where
  "set_ssrc ssrc d = put 8 (write_4bytes ssrc) d"

subsection \<open>Header extensions\<close>

function skip_zeros :: "bytes \<Rightarrow> nat \<Rightarrow> nat \<Rightarrow> nat cxx" where
  "skip_zeros d ext_end p =
     (if p < ext_end then cxx_bind (mem_at d p) (\<lambda>b. if b = 0 then skip_zeros d ext_end (p + 1) else Inr p) else Inr p)"
  by pat_completeness auto
termination
  by (relation "measure (\<lambda>(d, ext_end, p). ext_end - p)") auto

declare skip_zeros.simps [simp del]

lemma skip_zeros_ge: "skip_zeros d ext_end p = Inr q \<Longrightarrow> p \<le> q"
  by (induction d ext_end p rule: skip_zeros.induct)
    (subst (asm) (2) skip_zeros.simps, auto simp: cxx_bind_Inr_iff split: if_splits dest: Suc_leD)

definition onebyte_item :: "nat \<Rightarrow> nat \<Rightarrow> u8 \<Rightarrow> (u8 \<rightharpoonup> nat) \<Rightarrow> ((u8 \<rightharpoonup> nat) \<times> nat) cxx" where
  "onebyte_item ext_end p b m =
     (let id = drop_bit 4 (b AND 0xF0); len = unat (b AND 0x0F) + 1 in
      if id \<noteq> 0 then
        if ext_end < p + 1 + len then Inl (Throw ''rtp extension length is not enough in one byte extension mode.'')
        else Inr (m(id \<mapsto> p), p + (1 + len))
      else Inr (m, p + 1))"

lemma onebyte_item_gt: "onebyte_item ext_end p b m = Inr (m', q) \<Longrightarrow> p < q"
  by (auto simp: onebyte_item_def Let_def split: if_splits)

function parse_onebyte_ext :: "bytes \<Rightarrow> nat \<Rightarrow> nat \<Rightarrow> (u8 \<rightharpoonup> nat) \<Rightarrow> (u8 \<rightharpoonup> nat) cxx" where
  "parse_onebyte_ext d ext_end p m =
     (if p < ext_end then
        cxx_bind (mem_at d p) (\<lambda>b.
        if drop_bit 4 (b AND 0xF0) = 0x0f then Inr m
        else cxx_bind (onebyte_item ext_end p b m) (\<lambda>(m', p').
             cxx_bind (skip_zeros d ext_end p') (\<lambda>p''. parse_onebyte_ext d ext_end p'' m')))
      else Inr m)"
  by pat_completeness auto
termination
  by (relation "measure (\<lambda>(d, ext_end, p, m). ext_end - p)") (auto dest!: onebyte_item_gt skip_zeros_ge)

definition twobytes_item :: "nat \<Rightarrow> nat \<Rightarrow> u8 \<Rightarrow> u8 \<Rightarrow> (u8 \<rightharpoonup> nat) \<Rightarrow> ((u8 \<rightharpoonup> nat) \<times> nat) cxx" where
  "twobytes_item ext_end p key len m =
     (if key \<noteq> 0 then
        if ext_end < p + 2 + unat len then Inl (Throw ''rtp extension length is not enough in two bytes extension mode.'')
        else Inr (m(key \<mapsto> p), p + (2 + unat len))
      else Inr (m, p + 1))"

lemma twobytes_item_gt: "twobytes_item ext_end p key len m = Inr (m', q) \<Longrightarrow> p < q"
  by (auto simp: twobytes_item_def split: if_splits)

function parse_twobytes_ext :: "bytes \<Rightarrow> nat \<Rightarrow> nat \<Rightarrow> (u8 \<rightharpoonup> nat) \<Rightarrow> (u8 \<rightharpoonup> nat) cxx" where
  "parse_twobytes_ext d ext_end p m =
     (if p + 1 < ext_end then
        cxx_bind (mem_at d p) (\<lambda>id. cxx_bind (mem_at d (p + 1)) (\<lambda>len.
        cxx_bind (twobytes_item ext_end p id len m) (\<lambda>(m', p').
        cxx_bind (skip_zeros d ext_end p') (\<lambda>p''. parse_twobytes_ext d ext_end p'' m'))))
      else Inr m)"
  by pat_completeness auto
termination
  by (relation "measure (\<lambda>(d, ext_end, p, m). ext_end - p)") (auto dest!: twobytes_item_gt skip_zeros_ge)

declare parse_onebyte_ext.simps [simp del] parse_twobytes_ext.simps [simp del]

definition get_ext_length :: "bytes \<Rightarrow> nat \<Rightarrow> u16 cxx" where
  "get_ext_length d ext = cxx_bind (read_2bytes (drop (ext + 2) d)) (\<lambda>l. Inr (l * 4))"

definition parse_ext :: "rtp_packet \<Rightarrow> rtp_packet cxx" where
  "parse_ext pkt =
     (case rp_ext pkt of
        None \<Rightarrow> Inr pkt
      | Some ext \<Rightarrow>
          if \<not> has_extension pkt then Inr pkt
          else
            let d = rp_data pkt; ext_start = ext + 4 in
            cxx_bind (read_2bytes (drop ext d)) (\<lambda>ext_id.
            if ext_id = 0xBEDE then
              cxx_bind (get_ext_length d ext) (\<lambda>l.
              cxx_bind (parse_onebyte_ext d (ext_start + unat l) ext_start Map.empty) (\<lambda>m. Inr (pkt\<lparr>rp_onebyte_ext_map := m\<rparr>)))
            else if ext_id AND 0xfff0 = 0x1000 then
              cxx_bind (get_ext_length d ext) (\<lambda>l.
              cxx_bind (parse_twobytes_ext d (ext_start + unat l) ext_start Map.empty) (\<lambda>m. Inr (pkt\<lparr>rp_twobytes_ext_map := m\<rparr>)))
            else Inl (Throw ''the rtp extension id error'')))"

subsection \<open>Parsing, cloning and unwrapping a retransmission\<close>

text \<open>The constructor: \<open>now\<close> is \<open>now_millisec()\<close>.\<close>

definition new_rtp_packet :: "int \<Rightarrow> bytes \<Rightarrow> nat option \<Rightarrow> nat \<Rightarrow> nat \<Rightarrow> u8 \<Rightarrow> rtp_packet cxx" where
  "new_rtp_packet now data ext payload payload_len pad_len =
     (if length data > RTP_PACKET_MAX_SIZE then Inl (Throw ''rtp len is to large'')
      else parse_ext \<lparr>rp_data = data, rp_ext = ext, rp_payload = payload, rp_payload_len = payload_len,
        rp_pad_len = pad_len, rp_data_len = length data, rp_local_ms = now, rp_is_clone = False,
        rp_onebyte_ext_map = Map.empty, rp_twobytes_ext_map = Map.empty\<rparr>)"

text \<open>The two steps of \<open>parse\<close> that move the cursor over the extension and that read the padding.\<close>

definition parse_header_ext :: "bytes \<Rightarrow> nat \<Rightarrow> bool \<Rightarrow> (nat option \<times> nat) cxx" where
  "parse_header_ext data p extension =
     (if extension then
        if length data < p + 4 then Inl (Throw ''rtp len is to small'')
        else
          cxx_bind (read_2bytes (drop (p + 2) data)) (\<lambda>l.
          let extension_byte = unat l * 4 in
          if length data < p + 4 + extension_byte then Inl (Throw ''rtp len is to small'')
          else Inr (Some p, p + (4 + extension_byte)))
      else Inr (None, p))"

definition parse_padding :: "bytes \<Rightarrow> nat \<Rightarrow> bool \<Rightarrow> (u8 \<times> nat) cxx" where
  "parse_padding data payload_len padding =
     (if padding then
        cxx_bind (mem_at data (length data - 1)) (\<lambda>pad_len.
        if pad_len > 0 then
          if payload_len \<le> unat pad_len then Inl (Throw ''rtp payload length, pad length error'')
          else Inr (pad_len, payload_len - unat pad_len)
        else Inr (pad_len, payload_len))
      else Inr (0, payload_len))"

definition rtp_parse :: "int \<Rightarrow> bytes \<Rightarrow> rtp_packet cxx" where
  "rtp_parse now data =
     (if length data > RTP_PACKET_MAX_SIZE then Inl (Throw ''rtp len is to large'')
      else
        cxx_bind (mem_at data 0) (\<lambda>b0.
        cxx_bind (parse_header_ext data (12 + 4 * csrc_count b0) (bit b0 4)) (\<lambda>(ext, p).
        if length data \<le> p then Inl (Throw ''rtp len is to small, has no payload'')
        else
          cxx_bind (parse_padding data (length data - p) (bit b0 5)) (\<lambda>(pad_len, payload_len).
          new_rtp_packet now data ext p payload_len pad_len))))"

definition clone :: "int \<Rightarrow> rtp_packet \<Rightarrow> rtp_packet cxx" where
  "clone now pkt = cxx_bind (rtp_parse now (get_data pkt)) (\<lambda>new_pkt. Inr (new_pkt\<lparr>rp_is_clone := True\<rparr>))"

definition rtx_demux :: "u32 \<Rightarrow> u8 \<Rightarrow> rtp_packet \<Rightarrow> rtp_packet cxx" where
  "rtx_demux ssrc payloadtype pkt =
     (if rp_payload_len pkt < 2 then Inl (Throw ''rtx payload len is less than 2'')
      else
        let payload = rp_payload pkt; n = rp_payload_len pkt - 2;
            replace_seq = be16 payload (rp_data pkt);
            d = set_ssrc ssrc (set_seq replace_seq (set_payload_type payloadtype (rp_data pkt)));
            d' = put payload (take n (drop (payload + 2) d)) d;
            pkt' = pkt\<lparr>rp_data := d', rp_payload_len := n, rp_data_len := rp_data_len pkt - 2\<rparr>
        in Inr (if has_padding pkt'
                then pkt'\<lparr>rp_data := set_padding_off d', rp_data_len := rp_data_len pkt' - unat (rp_pad_len pkt'), rp_pad_len := 0\<rparr>
                else pkt'))"

subsection \<open>The parser stays inside its input\<close>

lemma skip_zeros_ok: "ext_end \<le> length d \<Longrightarrow> \<exists>q. skip_zeros d ext_end p = Inr q"
  by (induction d ext_end p rule: skip_zeros.induct) (subst skip_zeros.simps, simp add: mem_at_def)

text \<open>An extension element at \<open>p\<close> lies between \<open>lo\<close> and \<open>hi\<close>.\<close>

definition onebyte_in :: "bytes \<Rightarrow> nat \<Rightarrow> nat \<Rightarrow> (u8 \<rightharpoonup> nat) \<Rightarrow> bool" where
  "onebyte_in d lo hi m \<longleftrightarrow> (\<forall>i p. m i = Some p \<longrightarrow> lo \<le> p \<and> p + 2 + unat (d ! p AND 0x0F) \<le> hi)"

definition twobytes_in :: "bytes \<Rightarrow> nat \<Rightarrow> nat \<Rightarrow> (u8 \<rightharpoonup> nat) \<Rightarrow> bool" where
  "twobytes_in d lo hi m \<longleftrightarrow> (\<forall>i p. m i = Some p \<longrightarrow> lo \<le> p \<and> p + 2 + unat (d ! (p + 1)) \<le> hi)"

lemma onebyte_item_stop: "onebyte_item hi p b m = Inl e \<Longrightarrow> \<exists>s. e = Throw s"
  by (auto simp: onebyte_item_def Let_def split: if_splits)

lemma twobytes_item_stop: "twobytes_item hi p k l m = Inl e \<Longrightarrow> \<exists>s. e = Throw s"
  by (auto simp: twobytes_item_def split: if_splits)

lemma onebyte_item_in:
  assumes "onebyte_item hi p (d ! p) m = Inr (m', q)" "lo \<le> p" "onebyte_in d lo hi m"
  shows "onebyte_in d lo hi m'"
proof (cases "m' = m")
  case False
  with assms(1) have "m' = m(drop_bit 4 (d ! p AND 0xF0) \<mapsto> p)" "p + 2 + unat (d ! p AND 0x0F) \<le> hi"
    by (simp_all add: onebyte_item_def Let_def split: if_splits)
  with assms(2,3) show ?thesis by (auto simp: onebyte_in_def)
qed (use assms in simp)

lemma twobytes_item_in:
  assumes "twobytes_item hi p k (d ! (p + 1)) m = Inr (m', q)" "lo \<le> p" "twobytes_in d lo hi m"
  shows "twobytes_in d lo hi m'"
proof (cases "m' = m")
  case False
  with assms(1) have "m' = m(k \<mapsto> p)" "p + 2 + unat (d ! (p + 1)) \<le> hi"
    by (simp_all add: twobytes_item_def split: if_splits)
  with assms(2,3) show ?thesis by (auto simp: twobytes_in_def)
qed (use assms in simp)

lemma parse_onebyte_ext_safe:
  "hi \<le> length d \<Longrightarrow> lo \<le> p \<Longrightarrow> onebyte_in d lo hi m \<Longrightarrow>
     (\<exists>e. parse_onebyte_ext d hi p m = Inl (Throw e)) \<or> (\<exists>m'. parse_onebyte_ext d hi p m = Inr m' \<and> onebyte_in d lo hi m')"
proof (induction d hi p m rule: parse_onebyte_ext.induct)
  case (1 d hi p m)
  show ?case
  proof (cases "p < hi \<and> drop_bit 4 (d ! p AND 0xF0) \<noteq> 0x0f")
    case False
    then show ?thesis using "1.prems" by (subst (1 2) parse_onebyte_ext.simps) (auto simp: mem_at_def)
  next
    case True
    then have at: "mem_at d p = Inr (d ! p)" using "1.prems" by (simp add: mem_at_def)
    show ?thesis
    proof (cases "onebyte_item hi p (d ! p) m")
      case (Inl e)
      with True at onebyte_item_stop [OF Inl] show ?thesis by (subst (1 2) parse_onebyte_ext.simps) auto
    next
      case (Inr r)
      then obtain m' q where it: "onebyte_item hi p (d ! p) m = Inr (m', q)" by (cases r) auto
      obtain q' where q': "skip_zeros d hi q = Inr q'" using skip_zeros_ok "1.prems" by blast
      have "lo \<le> q'" using skip_zeros_ge [OF q'] onebyte_item_gt [OF it] "1.prems"(2) by simp
      from "1.IH" [OF _ at _ it refl q' "1.prems"(1) this onebyte_item_in [OF it "1.prems"(2,3)]] True it q' at
      show ?thesis by (subst (1 2) parse_onebyte_ext.simps) simp
    qed
  qed
qed

lemma parse_twobytes_ext_safe:
  "hi \<le> length d \<Longrightarrow> lo \<le> p \<Longrightarrow> twobytes_in d lo hi m \<Longrightarrow>
     (\<exists>e. parse_twobytes_ext d hi p m = Inl (Throw e)) \<or> (\<exists>m'. parse_twobytes_ext d hi p m = Inr m' \<and> twobytes_in d lo hi m')"
proof (induction d hi p m rule: parse_twobytes_ext.induct)
  case (1 d hi p m)
  show ?case
  proof (cases "p + 1 < hi")
    case False
    then show ?thesis using "1.prems" by (subst (1 2) parse_twobytes_ext.simps) auto
  next
    case True
    then have at: "mem_at d p = Inr (d ! p)" "mem_at d (p + 1) = Inr (d ! (p + 1))" using "1.prems" by (simp_all add: mem_at_def)
    show ?thesis
    proof (cases "twobytes_item hi p (d ! p) (d ! (p + 1)) m")
      case (Inl e)
      with True at twobytes_item_stop [OF Inl] show ?thesis by (subst (1 2) parse_twobytes_ext.simps) auto
    next
      case (Inr r)
      then obtain m' q where it: "twobytes_item hi p (d ! p) (d ! (p + 1)) m = Inr (m', q)" by (cases r) auto
      obtain q' where q': "skip_zeros d hi q = Inr q'" using skip_zeros_ok "1.prems" by blast
      have "lo \<le> q'" using skip_zeros_ge [OF q'] twobytes_item_gt [OF it] "1.prems"(2) by simp
      from "1.IH" [OF True at it refl q' "1.prems"(1) this twobytes_item_in [OF it "1.prems"(2,3)]] True it q' at
      show ?thesis by (subst (1 2) parse_twobytes_ext.simps) simp
    qed
  qed
qed

lemma drop_two: "i + 2 \<le> length d \<Longrightarrow> drop i d = d ! i # d ! (i + 1) # drop (i + 2) d"
  by (simp add: Cons_nth_drop_Suc)

lemma drop_four: "i + 4 \<le> length d \<Longrightarrow> drop i d = d ! i # d ! (i + 1) # d ! (i + 2) # d ! (i + 3) # drop (i + 4) d"
  by (simp add: Cons_nth_drop_Suc numeral_eq_Suc)

lemma read_be16: "i + 2 \<le> length d \<Longrightarrow> read_2bytes (drop i d) = Inr (be16 i d)"
  using drop_two [of i d] by (simp add: be16_def)

lemma read_be32: "i + 4 \<le> length d \<Longrightarrow> read_4bytes (drop i d) = Inr (be32 i d)"
  using drop_four [of i d] by (simp add: be32_def)

text \<open>
  What holds of a packet: its header, payload and padding tile the first \<open>rp_data_len\<close> bytes of
  the buffer, and every element of the extension maps lies inside the extension.
\<close>

definition rtp_ok :: "rtp_packet \<Rightarrow> bool" where
  "rtp_ok pkt \<longleftrightarrow>
     (let d = rp_data pkt; p0 = 12 + 4 * csrc_count (d ! 0) in
      length d \<le> RTP_PACKET_MAX_SIZE \<and> rp_data_len pkt \<le> length d \<and>
      rp_payload pkt + rp_payload_len pkt + unat (rp_pad_len pkt) = rp_data_len pkt \<and>
      (\<not> has_padding pkt \<longrightarrow> rp_pad_len pkt = 0) \<and>
      has_extension pkt = (rp_ext pkt \<noteq> None) \<and>
      rp_payload pkt = (case rp_ext pkt of None \<Rightarrow> p0 | Some e \<Rightarrow> e + (4 + unat (be16 (e + 2) d) * 4)) \<and>
      (\<forall>e. rp_ext pkt = Some e \<longrightarrow> e = p0) \<and>
      onebyte_in d (p0 + 4) (rp_payload pkt) (rp_onebyte_ext_map pkt) \<and>
      twobytes_in d (p0 + 4) (rp_payload pkt) (rp_twobytes_ext_map pkt))"

lemma in_empty [simp]: "onebyte_in d lo hi Map.empty" "twobytes_in d lo hi Map.empty"
  by (simp_all add: onebyte_in_def twobytes_in_def)

text \<open>The length of an extension that fits into a packet does not wrap.\<close>

lemma ext_length_fits:
  assumes "ext + (4 + unat (be16 (ext + 2) d) * 4) \<le> length d" "length d \<le> RTP_PACKET_MAX_SIZE"
  shows "get_ext_length d ext = Inr (be16 (ext + 2) d * 4)" "unat (be16 (ext + 2) d * 4) = unat (be16 (ext + 2) d) * 4"
proof -
  from assms show "get_ext_length d ext = Inr (be16 (ext + 2) d * 4)"
    by (simp add: get_ext_length_def read_be16)
  from assms have "unat (be16 (ext + 2) d) * 4 < 65536" by (simp add: RTP_PACKET_MAX_SIZE_def)
  then show "unat (be16 (ext + 2) d * 4) = unat (be16 (ext + 2) d) * 4" by (simp add: unat_word_ariths)
qed

lemma parse_ext_safe:
  assumes d: "d = rp_data pkt" "length d \<le> RTP_PACKET_MAX_SIZE"
    and ext: "\<And>e. rp_ext pkt = Some e \<Longrightarrow> has_extension pkt \<and> hi = e + (4 + unat (be16 (e + 2) d) * 4) \<and> e + 4 = lo \<and> hi \<le> length d"
    and maps: "rp_onebyte_ext_map pkt = Map.empty" "rp_twobytes_ext_map pkt = Map.empty"
  shows "(\<exists>s. parse_ext pkt = Inl (Throw s)) \<or>
    (\<exists>m1 m2. parse_ext pkt = Inr (pkt\<lparr>rp_onebyte_ext_map := m1, rp_twobytes_ext_map := m2\<rparr>) \<and>
       onebyte_in d lo hi m1 \<and> twobytes_in d lo hi m2)"
proof (cases "rp_ext pkt")
  case None
  with maps show ?thesis by (intro disjI2 exI [of _ Map.empty]) (cases pkt, simp add: parse_ext_def)
next
  case (Some e)
  with ext have e: "has_extension pkt" "hi = e + (4 + unat (be16 (e + 2) d) * 4)" "e + 4 = lo" "hi \<le> length d" by auto
  note len = ext_length_fits [of e d]
  have id: "read_2bytes (drop e d) = Inr (be16 e d)" using e by (simp add: read_be16)
  have end_: "get_ext_length d e = Inr (be16 (e + 2) d * 4)" "e + 4 + unat (be16 (e + 2) d * 4) = hi"
    using len e(2,4) d(2) by simp_all
  consider (one) "be16 e d = 0xBEDE" | (two) "be16 e d \<noteq> 0xBEDE" "be16 e d AND 0xfff0 = 0x1000"
    | (other) "be16 e d \<noteq> 0xBEDE" "be16 e d AND 0xfff0 \<noteq> 0x1000" by blast
  then show ?thesis
  proof cases
    case one
    then have eq: "parse_ext pkt = cxx_bind (parse_onebyte_ext d hi lo Map.empty) (\<lambda>m. Inr (pkt\<lparr>rp_onebyte_ext_map := m\<rparr>))"
      using Some e(1,3) id end_ d(1) by (simp add: parse_ext_def Let_def)
    from parse_onebyte_ext_safe [OF e(4) order.refl in_empty(1)] show ?thesis
    proof
      assume "\<exists>m'. parse_onebyte_ext d hi lo Map.empty = Inr m' \<and> onebyte_in d lo hi m'"
      then obtain m' where "parse_onebyte_ext d hi lo Map.empty = Inr m'" "onebyte_in d lo hi m'" by blast
      with eq maps show ?thesis by (intro disjI2 exI [of _ m'] exI [of _ Map.empty]) (cases pkt, simp)
    qed (use eq in auto)
  next
    case two
    then have eq: "parse_ext pkt = cxx_bind (parse_twobytes_ext d hi lo Map.empty) (\<lambda>m. Inr (pkt\<lparr>rp_twobytes_ext_map := m\<rparr>))"
      using Some e(1,3) id end_ d(1) by (simp add: parse_ext_def Let_def)
    from parse_twobytes_ext_safe [OF e(4) order.refl in_empty(2)] show ?thesis
    proof
      assume "\<exists>m'. parse_twobytes_ext d hi lo Map.empty = Inr m' \<and> twobytes_in d lo hi m'"
      then obtain m' where "parse_twobytes_ext d hi lo Map.empty = Inr m'" "twobytes_in d lo hi m'" by blast
      with eq maps show ?thesis by (intro disjI2 exI [of _ Map.empty] exI [of _ m']) (cases pkt, simp)
    qed (use eq in auto)
  next
    case other
    then have "parse_ext pkt = Inl (Throw ''the rtp extension id error'')"
      using Some e(1,3) id end_ d(1) by (simp add: parse_ext_def Let_def)
    then show ?thesis by blast
  qed
qed

lemma parse_header_ext_cases:
  obtains s where "parse_header_ext data p x = Inl (Throw s)"
  | ext q where "parse_header_ext data p x = Inr (ext, q)" "x = (ext \<noteq> None)"
      "\<And>e. ext = Some e \<Longrightarrow> e = p \<and> q \<le> length data"
      "q = (case ext of None \<Rightarrow> p | Some e \<Rightarrow> e + (4 + unat (be16 (e + 2) data) * 4))"
proof (cases "x \<and> p + 4 \<le> length data")
  case True
  then have r: "read_2bytes (drop (p + 2) data) = Inr (be16 (p + 2) data)" by (simp add: read_be16)
  show ?thesis
  proof (cases "length data < p + 4 + unat (be16 (p + 2) data) * 4")
    case True
    then show ?thesis using that(1) r \<open>x \<and> _\<close> by (simp add: parse_header_ext_def Let_def)
  next
    case False
    then show ?thesis using that(2) [of "Some p"] r True by (simp add: parse_header_ext_def Let_def)
  qed
next
  case False
  show ?thesis
  proof (cases x)
    case True
    then show ?thesis using that(1) False by (simp add: parse_header_ext_def)
  next
    case False
    then show ?thesis using that(2) [of None p] by (simp add: parse_header_ext_def)
  qed
qed

lemma parse_padding_cases:
  assumes "data \<noteq> []"
  obtains s where "parse_padding data n x = Inl (Throw s)"
  | pad m where "parse_padding data n x = Inr (pad, m)" "m + unat pad = n" "\<not> x \<Longrightarrow> pad = 0" "0 < n \<Longrightarrow> 0 < m"
proof (cases x)
  case False
  then show ?thesis using that(2) [of 0 n] by (simp add: parse_padding_def)
next
  case True
  let ?b = "data ! (length data - 1)"
  have at: "mem_at data (length data - 1) = Inr ?b" using assms by (simp add: mem_at_def)
  show ?thesis
  proof (cases "?b > 0 \<and> n \<le> unat ?b")
    case True
    then show ?thesis using that(1) at \<open>x\<close> by (simp add: parse_padding_def)
  next
    case False
    then show ?thesis using that(2) [of ?b "n - unat ?b"] at True by (auto simp: parse_padding_def word_gt_0)
  qed
qed

text \<open>A packet before its extension was parsed.\<close>

definition no_exts :: "rtp_packet \<Rightarrow> rtp_packet" where
  "no_exts pkt = pkt\<lparr>rp_onebyte_ext_map := Map.empty, rp_twobytes_ext_map := Map.empty\<rparr>"

lemma new_rtp_packet_cases:
  assumes "length data \<le> RTP_PACKET_MAX_SIZE" "q + m + unat pad = length data" "\<not> bit (data ! 0) 5 \<Longrightarrow> pad = 0"
    and "bit (data ! 0) 4 = (ext \<noteq> None)" "\<And>e. ext = Some e \<Longrightarrow> e = 12 + 4 * csrc_count (data ! 0)"
    and "q = (case ext of None \<Rightarrow> 12 + 4 * csrc_count (data ! 0) | Some e \<Rightarrow> e + (4 + unat (be16 (e + 2) data) * 4))"
  obtains s where "new_rtp_packet now data ext q m pad = Inl (Throw s)"
  | pkt where "new_rtp_packet now data ext q m pad = Inr pkt" "rtp_ok pkt" "rp_data pkt = data" "rp_data_len pkt = length data"
      "rp_payload_len pkt = m" "parse_ext (no_exts pkt) = Inr pkt"
proof -
  let ?p0 = "12 + 4 * csrc_count (data ! 0)"
  let ?pkt = "\<lparr>rp_data = data, rp_ext = ext, rp_payload = q, rp_payload_len = m, rp_pad_len = pad, rp_data_len = length data,
    rp_local_ms = now, rp_is_clone = False, rp_onebyte_ext_map = Map.empty, rp_twobytes_ext_map = Map.empty\<rparr>"
  have eq: "new_rtp_packet now data ext q m pad = parse_ext ?pkt" using assms(1) by (simp add: new_rtp_packet_def)
  have "(\<exists>s. parse_ext ?pkt = Inl (Throw s)) \<or>
    (\<exists>m1 m2. parse_ext ?pkt = Inr (?pkt\<lparr>rp_onebyte_ext_map := m1, rp_twobytes_ext_map := m2\<rparr>) \<and>
       onebyte_in data (?p0 + 4) q m1 \<and> twobytes_in data (?p0 + 4) q m2)"
    by (rule parse_ext_safe) (use assms in \<open>auto simp: has_extension_def\<close>)
  then show ?thesis
  proof
    assume "\<exists>m1 m2. parse_ext ?pkt = Inr (?pkt\<lparr>rp_onebyte_ext_map := m1, rp_twobytes_ext_map := m2\<rparr>) \<and>
       onebyte_in data (?p0 + 4) q m1 \<and> twobytes_in data (?p0 + 4) q m2"
    then obtain m1 m2 where r: "parse_ext ?pkt = Inr (?pkt\<lparr>rp_onebyte_ext_map := m1, rp_twobytes_ext_map := m2\<rparr>)"
      "onebyte_in data (?p0 + 4) q m1" "twobytes_in data (?p0 + 4) q m2" by blast
    have "rtp_ok (?pkt\<lparr>rp_onebyte_ext_map := m1, rp_twobytes_ext_map := m2\<rparr>)"
      using assms r(2,3) by (auto simp: rtp_ok_def has_padding_def has_extension_def Let_def)
    with r(1) eq show ?thesis
      by (intro that(2) [of "?pkt\<lparr>rp_onebyte_ext_map := m1, rp_twobytes_ext_map := m2\<rparr>"]) (simp_all add: no_exts_def)
  qed (use that(1) eq in auto)
qed

lemma rtp_parse_cases:
  assumes "data \<noteq> []"
  obtains s where "rtp_parse now data = Inl (Throw s)"
  | pkt where "rtp_parse now data = Inr pkt" "rtp_ok pkt" "rp_data pkt = data" "rp_data_len pkt = length data" "0 < rp_payload_len pkt"
      "parse_ext (no_exts pkt) = Inr pkt"
proof (cases "length data > RTP_PACKET_MAX_SIZE")
  case True
  then show ?thesis using that(1) by (simp add: rtp_parse_def)
next
  case False
  let ?b = "data ! 0"
  have b: "mem_at data 0 = Inr ?b" using assms by (simp add: mem_at_def)
  show ?thesis
  proof (cases rule: parse_header_ext_cases [of data "12 + 4 * csrc_count ?b" "bit ?b 4"])
    case (1 s)
    then show ?thesis using that(1) False b by (simp add: rtp_parse_def)
  next
    case (2 ext q)
    show ?thesis
    proof (cases "length data \<le> q")
      case True
      then show ?thesis using that(1) False b 2(1) by (simp add: rtp_parse_def)
    next
      case short: False
      show ?thesis
      proof (cases rule: parse_padding_cases [OF assms, of "length data - q" "bit ?b 5"])
        case (1 s)
        then show ?thesis using that(1) False b 2(1) short by (simp add: rtp_parse_def)
      next
        case pad: (2 pad m)
        have eq: "rtp_parse now data = new_rtp_packet now data ext q m pad"
          using False b 2(1) short pad(1) by (simp add: rtp_parse_def)
        show ?thesis
          by (rule new_rtp_packet_cases [of data q m pad ext now])
            (use False short 2(2-) pad(2-) that eq in auto)
      qed
    qed
  qed
qed

subsection \<open>Parsing depends on the header only\<close>

text \<open>Two buffers agree between \<open>lo\<close> and \<open>hi\<close>.\<close>

definition agree :: "nat \<Rightarrow> nat \<Rightarrow> bytes \<Rightarrow> bytes \<Rightarrow> bool" where
  "agree lo hi d d' \<longleftrightarrow> hi \<le> length d \<and> hi \<le> length d' \<and> (\<forall>i. lo \<le> i \<and> i < hi \<longrightarrow> d' ! i = d ! i)"

lemma agree_mono: "agree lo hi d d' \<Longrightarrow> lo \<le> lo' \<Longrightarrow> agree lo' hi d d'"
  by (auto simp: agree_def)

lemma agree_mem_at: "agree lo hi d d' \<Longrightarrow> lo \<le> i \<Longrightarrow> i < hi \<Longrightarrow> mem_at d' i = mem_at d i"
  by (auto simp: agree_def mem_at_def)

lemma agree_be16: "agree lo hi d d' \<Longrightarrow> lo \<le> i \<Longrightarrow> i + 2 \<le> hi \<Longrightarrow> be16 i d' = be16 i d"
  by (simp add: agree_def be16_def)

lemma skip_zeros_agree: "agree lo hi d d' \<Longrightarrow> lo \<le> p \<Longrightarrow> skip_zeros d' hi p = skip_zeros d hi p"
proof (induction d hi p rule: skip_zeros.induct)
  case (1 d hi p)
  then show ?case
    using agree_mem_at [OF 1(2), of p] by (subst (1 2) skip_zeros.simps) (auto intro!: cxx_bind_cong)
qed

lemma parse_onebyte_ext_agree:
  "agree lo hi d d' \<Longrightarrow> lo \<le> p \<Longrightarrow> parse_onebyte_ext d' hi p m = parse_onebyte_ext d hi p m"
proof (induction d hi p m rule: parse_onebyte_ext.induct)
  case (1 d hi p m)
  show ?case
  proof (cases "p < hi")
    case True
    have "cxx_bind (onebyte_item hi p b m) (\<lambda>(m', p'). cxx_bind (skip_zeros d' hi p') (\<lambda>p''. parse_onebyte_ext d' hi p'' m')) =
        cxx_bind (onebyte_item hi p b m) (\<lambda>(m', p'). cxx_bind (skip_zeros d hi p') (\<lambda>p''. parse_onebyte_ext d hi p'' m'))"
      if b: "mem_at d p = Inr b" "drop_bit 4 (b AND 0xF0) \<noteq> 0xf" for b
    proof (cases "onebyte_item hi p b m")
      case (Inr r)
      obtain m' q where r: "r = (m', q)" by (cases r)
      have q: "lo \<le> q" using onebyte_item_gt Inr r "1.prems"(2) by fastforce
      show ?thesis
        using Inr r skip_zeros_agree [OF "1.prems"(1) q] "1.IH" [OF True b Inr r [symmetric]] skip_zeros_ge [of d hi q] q "1.prems"(1)
        by (cases "skip_zeros d hi q") auto
    qed simp
    then show ?thesis
      using agree_mem_at [OF "1.prems"(1), of p] True "1.prems"(2)
      by (subst (1 2) parse_onebyte_ext.simps) (auto intro!: cxx_bind_cong)
  qed (subst (1 2) parse_onebyte_ext.simps, simp)
qed

lemma parse_twobytes_ext_agree:
  "agree lo hi d d' \<Longrightarrow> lo \<le> p \<Longrightarrow> parse_twobytes_ext d' hi p m = parse_twobytes_ext d hi p m"
proof (induction d hi p m rule: parse_twobytes_ext.induct)
  case (1 d hi p m)
  show ?case
  proof (cases "p + 1 < hi")
    case True
    have "cxx_bind (twobytes_item hi p k l m) (\<lambda>(m', p'). cxx_bind (skip_zeros d' hi p') (\<lambda>p''. parse_twobytes_ext d' hi p'' m')) =
        cxx_bind (twobytes_item hi p k l m) (\<lambda>(m', p'). cxx_bind (skip_zeros d hi p') (\<lambda>p''. parse_twobytes_ext d hi p'' m'))"
      if b: "mem_at d p = Inr k" "mem_at d (p + 1) = Inr l" for k l
    proof (cases "twobytes_item hi p k l m")
      case (Inr r)
      obtain m' q where r: "r = (m', q)" by (cases r)
      have q: "lo \<le> q" using twobytes_item_gt Inr r "1.prems"(2) by fastforce
      show ?thesis
        using Inr r skip_zeros_agree [OF "1.prems"(1) q] "1.IH" [OF True b Inr r [symmetric]] skip_zeros_ge [of d hi q] q "1.prems"(1)
        by (cases "skip_zeros d hi q") auto
    qed simp
    then show ?thesis
      using agree_mem_at [OF "1.prems"(1), of p] agree_mem_at [OF "1.prems"(1), of "p + 1"] True "1.prems"(2)
      by (subst (1 2) parse_twobytes_ext.simps) (cases "mem_at d p"; cases "mem_at d (p + 1)"; simp)
  qed (subst (1 2) parse_twobytes_ext.simps, simp)
qed

lemma parse_header_ext_ok:
  assumes "x = (ext \<noteq> None)" "\<And>e. ext = Some e \<Longrightarrow> e = p"
    "q = (case ext of None \<Rightarrow> p | Some e \<Rightarrow> e + (4 + unat (be16 (e + 2) data) * 4))" "q \<le> length data"
  shows "parse_header_ext data p x = Inr (ext, q)"
proof (cases ext)
  case (Some e)
  with assms have "p + 2 + 2 \<le> length data" by simp
  with Some assms show ?thesis by (auto simp: parse_header_ext_def read_be16 Let_def)
qed (use assms in \<open>simp add: parse_header_ext_def\<close>)

lemma parse_padding_ok:
  assumes "if x then data ! (length data - 1) = pad else pad = 0" "n = m + unat pad" "0 < m" "data \<noteq> []"
  shows "parse_padding data n x = Inr (pad, m)"
proof (cases x)
  case True
  then have at: "mem_at data (length data - 1) = Inr pad" using assms by (simp add: mem_at_def)
  with True assms show ?thesis by (cases "pad = 0") (simp_all add: parse_padding_def word_gt_0)
qed (use assms in \<open>simp add: parse_padding_def\<close>)

text \<open>A buffer that is laid out like a packet parses, up to its extension.\<close>

lemma rtp_parse_layout:
  assumes "data \<noteq> []" "length data \<le> RTP_PACKET_MAX_SIZE" "p0 = 12 + 4 * csrc_count (data ! 0)"
    and "bit (data ! 0) 4 = (ext \<noteq> None)" "\<And>e. ext = Some e \<Longrightarrow> e = p0"
    and "q = (case ext of None \<Rightarrow> p0 | Some e \<Rightarrow> e + (4 + unat (be16 (e + 2) data) * 4))"
    and "if bit (data ! 0) 5 then data ! (length data - 1) = pad else pad = 0"
    and "length data = q + m + unat pad" "0 < m"
  shows "rtp_parse now data = new_rtp_packet now data ext q m pad"
proof -
  have "parse_header_ext data p0 (bit (data ! 0) 4) = Inr (ext, q)" by (rule parse_header_ext_ok) (use assms in auto)
  moreover have "parse_padding data (length data - q) (bit (data ! 0) 5) = Inr (pad, m)" by (rule parse_padding_ok) (use assms in auto)
  moreover have "mem_at data 0 = Inr (data ! 0)" using assms(1) by (simp add: mem_at_def)
  ultimately show ?thesis using assms by (simp add: rtp_parse_def)
qed

lemma parse_ext_agree:
  assumes ok: "rtp_ok pkt" "parse_ext (no_exts pkt) = Inr pkt"
    and ag: "agree 12 (rp_payload pkt) (rp_data pkt) (rp_data pkt')"
    and same: "rp_ext pkt' = rp_ext pkt" "has_extension pkt' = has_extension pkt" "length (rp_data pkt') \<le> RTP_PACKET_MAX_SIZE"
      "no_exts pkt' = pkt'"
  shows "parse_ext pkt' = Inr (pkt'\<lparr>rp_onebyte_ext_map := rp_onebyte_ext_map pkt, rp_twobytes_ext_map := rp_twobytes_ext_map pkt\<rparr>)"
proof (cases "rp_ext pkt")
  case None
  with ok(2) same show ?thesis by (cases pkt; cases pkt') (simp add: parse_ext_def no_exts_def)
next
  case (Some e)
  let ?d = "rp_data pkt" and ?d' = "rp_data pkt'" and ?hi = "rp_payload pkt"
  have e: "has_extension pkt" "?hi = e + (4 + unat (be16 (e + 2) ?d) * 4)" "12 \<le> e"
    using ok(1) Some by (auto simp: rtp_ok_def Let_def)
  have len: "?hi \<le> length ?d" "?hi \<le> length ?d'" "length ?d \<le> RTP_PACKET_MAX_SIZE" using ag ok(1) by (auto simp: agree_def rtp_ok_def Let_def)
  have be: "be16 e ?d' = be16 e ?d" "be16 (e + 2) ?d' = be16 (e + 2) ?d" using agree_be16 [OF ag] e by auto
  have id: "read_2bytes (drop e ?d) = Inr (be16 e ?d)" "read_2bytes (drop e ?d') = Inr (be16 e ?d)"
    using e len be by (simp_all add: read_be16)
  have l: "get_ext_length ?d e = Inr (be16 (e + 2) ?d * 4)" "get_ext_length ?d' e = Inr (be16 (e + 2) ?d * 4)"
    "e + 4 + unat (be16 (e + 2) ?d * 4) = ?hi"
    using ext_length_fits [of e ?d] ext_length_fits [of e ?d'] e len be same(3) by simp_all
  have loops: "parse_onebyte_ext ?d' ?hi (e + 4) Map.empty = parse_onebyte_ext ?d ?hi (e + 4) Map.empty"
    "parse_twobytes_ext ?d' ?hi (e + 4) Map.empty = parse_twobytes_ext ?d ?hi (e + 4) Map.empty"
    using parse_onebyte_ext_agree [OF ag] parse_twobytes_ext_agree [OF ag] e(3) by simp_all
  have ne: "rp_data (no_exts pkt) = ?d" "rp_ext (no_exts pkt) = Some e" "has_extension (no_exts pkt)"
    using Some e(1) by (simp_all add: no_exts_def has_extension_def)
  have e': "has_extension pkt'" using e(1) same(2) by simp
  consider (one) "be16 e ?d = 0xBEDE" | (two) "be16 e ?d \<noteq> 0xBEDE" "be16 e ?d AND 0xfff0 = 0x1000"
    | (other) "be16 e ?d \<noteq> 0xBEDE" "be16 e ?d AND 0xfff0 \<noteq> 0x1000" by blast
  then show ?thesis
  proof cases
    case one
    then obtain m where "parse_onebyte_ext ?d ?hi (e + 4) Map.empty = Inr m" "pkt = (no_exts pkt)\<lparr>rp_onebyte_ext_map := m\<rparr>"
      using ok(2) ne id l by (auto simp: parse_ext_def cxx_bind_Inr_iff Let_def)
    with one loops id l e' Some same(1,4) show ?thesis
      by (cases pkt; cases pkt') (simp add: parse_ext_def no_exts_def Let_def)
  next
    case two
    then obtain m where "parse_twobytes_ext ?d ?hi (e + 4) Map.empty = Inr m" "pkt = (no_exts pkt)\<lparr>rp_twobytes_ext_map := m\<rparr>"
      using ok(2) ne id l by (auto simp: parse_ext_def cxx_bind_Inr_iff Let_def)
    with two loops id l e' Some same(1,4) show ?thesis
      by (cases pkt; cases pkt') (simp add: parse_ext_def no_exts_def Let_def)
  next
    case other
    then show ?thesis using ok(2) ne id by (simp add: parse_ext_def Let_def)
  qed
qed

subsection \<open>Retransmissions\<close>

text \<open>
  A retransmission as RFC 4588 defines it: the header of the packet with another SSRC, payload type
  and sequence number, the original sequence number in front of the payload, and \<open>pad\<close> bytes of
  padding.
\<close>

definition rtx_header :: "u16 \<Rightarrow> u32 \<Rightarrow> u8 \<Rightarrow> nat \<Rightarrow> bytes \<Rightarrow> bytes" where
  "rtx_header seq ssrc ty pad h =
     (let h' = set_ssrc ssrc (set_seq seq (set_payload_type ty h)) in if 0 < pad then put 0 [h' ! 0 OR 0x20] h' else h')"

definition rtp_padding :: "nat \<Rightarrow> bytes" where
  "rtp_padding pad = (if 0 < pad then replicate (pad - 1) 0 @ [of_nat pad] else [])"

definition rtx_wrap :: "u16 \<Rightarrow> u32 \<Rightarrow> u8 \<Rightarrow> nat \<Rightarrow> rtp_packet \<Rightarrow> bytes" where
  "rtx_wrap seq ssrc ty pad pkt =
     (let p = rp_payload pkt; d = get_data pkt in
      rtx_header seq ssrc ty pad (take p d) @ write_2bytes (get_seq pkt) @ drop p d @ rtp_padding pad)"

lemma length_put [simp]: "i + length xs \<le> length d \<Longrightarrow> length (put i xs d) = length d"
  by (simp add: put_def)

lemma put_append: "i + length xs \<le> length h \<Longrightarrow> put i xs (h @ r) = put i xs h @ r"
  by (simp add: put_def)

lemma nth_put_other: "i + length xs \<le> length d \<Longrightarrow> j < i \<or> i + length xs \<le> j \<Longrightarrow> put i xs d ! j = d ! j"
  by (cases xs) (auto simp: put_def nth_append min_def)

lemma length_set [simp]:
  "12 \<le> length d \<Longrightarrow> length (set_ssrc s d) = length d" "12 \<le> length d \<Longrightarrow> length (set_seq q d) = length d"
  "12 \<le> length d \<Longrightarrow> length (set_payload_type t d) = length d" "12 \<le> length d \<Longrightarrow> length (set_padding_off d) = length d"
  by (simp_all add: set_ssrc_def set_seq_def set_payload_type_def set_padding_off_def)

lemma set_append:
  assumes "12 \<le> length h"
  shows "set_ssrc s (h @ r) = set_ssrc s h @ r" "set_seq q (h @ r) = set_seq q h @ r"
    "set_payload_type t (h @ r) = set_payload_type t h @ r" "set_padding_off (h @ r) = set_padding_off h @ r"
proof -
  from assms have "0 < length h" "1 < length h" by linarith+
  then have "h ! 0 = (h @ r) ! 0" "h ! 1 = (h @ r) ! 1" by (simp_all add: nth_append)
  with assms show "set_ssrc s (h @ r) = set_ssrc s h @ r" "set_seq q (h @ r) = set_seq q h @ r"
    "set_payload_type t (h @ r) = set_payload_type t h @ r" "set_padding_off (h @ r) = set_padding_off h @ r"
    by (simp_all add: set_ssrc_def set_seq_def set_payload_type_def set_padding_off_def put_append)
qed

lemma write_from_mem: "write_2bytes (from_mem [b, a]) = [a, b]" "write_4bytes (from_mem [d, c, b, a]) = [a, b, c, d]"
  by (simp_all add: write_2bytes_def write_4bytes_def Let_def to_mem_from_mem)

lemma header_split:
  assumes "12 \<le> length h"
  obtains b0 b1 b2 b3 b4 b5 b6 b7 b8 b9 b10 b11 r where "h = [b0, b1, b2, b3, b4, b5, b6, b7, b8, b9, b10, b11] @ r"
  using assms by (auto simp: length_numeral_split Suc_le_length_conv)

lemma u8_eqI:
  assumes "bit a 0 = bit b 0" "bit a 1 = bit b 1" "bit a 2 = bit b 2" "bit a 3 = bit b 3"
    "bit a 4 = bit b 4" "bit a 5 = bit b 5" "bit a 6 = bit b 6" "bit a 7 = bit (b :: u8) 7"
  shows "a = b"
proof (rule bit_word_eqI)
  fix i :: nat assume "i < LENGTH(8)"
  then have "i = 0 \<or> i = 1 \<or> i = 2 \<or> i = 3 \<or> i = 4 \<or> i = 5 \<or> i = 6 \<or> i = 7" by auto
  with assms show "bit a i = bit b i" by auto
qed

lemma payload_type_restore: "((((b :: u8) AND 0x80) OR (t AND 0x7F)) AND 0x80) OR (b AND 0x7F) = b"
  by (rule u8_eqI) (simp_all add: bit_simps)

lemma padding_bit:
  "bit ((b :: u8) OR 0x20) 5" "bit (b OR 0x20) 4 = bit b 4" "csrc_count (b OR 0x20) = csrc_count b"
  "\<not> bit b 5 \<Longrightarrow> (b OR 0x20) AND 0xDF = b"
proof -
  have "(b OR 0x20) AND 0x0F = b AND 0x0F" by (rule u8_eqI) (simp_all add: bit_simps)
  then show "csrc_count (b OR 0x20) = csrc_count b" by (simp add: csrc_count_def)
  show "(b OR 0x20) AND 0xDF = b" if "\<not> bit b 5" using that by (intro u8_eqI) (simp_all add: bit_simps)
qed (simp_all add: bit_simps)

lemma rtx_header_restore:
  assumes "12 \<le> length h" "\<not> bit (h ! 0) 5" "pkt_ty = h ! 1 AND 0x7F"
  shows "set_ssrc (be32 8 h) (set_seq (be16 2 h) (set_payload_type pkt_ty (rtx_header seq ssrc ty pad h))) =
    (if 0 < pad then put 0 [h ! 0 OR 0x20] h else h)"
  using assms
  by (rule_tac header_split [OF assms(1)])
    (simp add: rtx_header_def set_ssrc_def set_seq_def set_payload_type_def put_def be16_def be32_def write_from_mem
      payload_type_restore Let_def)

lemma rtx_header_facts:
  assumes "12 \<le> length h"
  shows "length (rtx_header seq ssrc ty pad h) = length h"
    "rtx_header seq ssrc ty pad h ! 0 = (if 0 < pad then h ! 0 OR 0x20 else h ! 0)"
  using assms
  by (rule_tac [!] header_split [OF assms])
    (simp_all add: rtx_header_def set_ssrc_def set_seq_def set_payload_type_def put_def Let_def)

lemma rtx_header_nth: "12 \<le> length h \<Longrightarrow> 12 \<le> i \<Longrightarrow> rtx_header seq ssrc ty pad h ! i = h ! i"
  by (simp add: rtx_header_def set_ssrc_def set_seq_def set_payload_type_def nth_put_other Let_def)

lemma rtp_padding_length [simp]: "length (rtp_padding pad) = pad"
  by (simp add: rtp_padding_def)

text \<open>The parts of a packet without padding, and of its retransmission.\<close>

lemma rtp_layout:
  assumes "rtp_ok pkt" "\<not> has_padding pkt" "rp_data_len pkt = length (rp_data pkt)"
  shows "12 \<le> rp_payload pkt" "rp_payload pkt + rp_payload_len pkt = length (rp_data pkt)" "get_data pkt = rp_data pkt"
    "length (rp_data pkt) \<le> RTP_PACKET_MAX_SIZE"
  using assms by (auto simp: rtp_ok_def get_data_def Let_def split: option.splits)

lemma rtx_wrap_parses:
  assumes ok: "rtp_ok pkt" "\<not> has_padding pkt" "rp_data_len pkt = length (rp_data pkt)" "parse_ext (no_exts pkt) = Inr pkt"
    and size: "length (rp_data pkt) + 2 + pad \<le> RTP_PACKET_MAX_SIZE" "pad < 256"
  shows "\<exists>r. rtp_parse now (rtx_wrap seq ssrc ty pad pkt) = Inr r \<and> rp_data r = rtx_wrap seq ssrc ty pad pkt \<and>
    rp_payload r = rp_payload pkt \<and> rp_payload_len r = rp_payload_len pkt + 2 \<and> unat (rp_pad_len r) = pad \<and>
    rp_data_len r = length (rtx_wrap seq ssrc ty pad pkt) \<and> rp_ext r = rp_ext pkt \<and>
    rp_onebyte_ext_map r = rp_onebyte_ext_map pkt \<and> rp_twobytes_ext_map r = rp_twobytes_ext_map pkt"
proof -
  let ?P = "rp_payload pkt" and ?d = "rp_data pkt" and ?w = "rtx_wrap seq ssrc ty pad pkt"
  let ?h = "rtx_header seq ssrc ty pad (take ?P ?d)"
  note lay = rtp_layout [OF ok(1-3)]
  have w: "?w = ?h @ write_2bytes (get_seq pkt) @ drop ?P ?d @ rtp_padding pad" by (simp add: rtx_wrap_def lay(3) Let_def)
  have h: "length ?h = ?P" "?h ! 0 = (if 0 < pad then ?d ! 0 OR 0x20 else ?d ! 0)" "\<And>i. 12 \<le> i \<Longrightarrow> i < ?P \<Longrightarrow> ?h ! i = ?d ! i"
    using rtx_header_facts [of "take ?P ?d" seq ssrc ty pad] rtx_header_nth [of "take ?P ?d"] lay(1,2) by simp_all
  have ne: "?P \<noteq> 0" using lay(1) by simp
  have len: "length ?w = ?P + (rp_payload_len pkt + 2) + pad" using w h(1) lay(2) by simp
  have w0: "?w ! 0 = (if 0 < pad then ?d ! 0 OR 0x20 else ?d ! 0)" using w h(1,2) ne by (simp add: nth_append)
  have ag: "agree 12 ?P ?d ?w" using w h(1,3) len lay(2) by (auto simp: agree_def nth_append)
  have bits: "csrc_count (?w ! 0) = csrc_count (?d ! 0)" "bit (?w ! 0) 4 = bit (?d ! 0) 4" "bit (?w ! 0) 5 = (0 < pad)"
    using w0 ok(2) by (auto simp: padding_bit has_padding_def)
  have last: "?w ! (length ?w - 1) = of_nat pad" if "0 < pad"
  proof -
    have "?w \<noteq> []" using len by auto
    moreover have "last ?w = of_nat pad" using that w by (simp add: rtp_padding_def)
    ultimately show ?thesis by (simp add: last_conv_nth)
  qed
  have pad: "unat (of_nat pad :: u8) = pad" using size(2) by (simp add: unat_of_nat)
  let ?r = "\<lparr>rp_data = ?w, rp_ext = rp_ext pkt, rp_payload = ?P, rp_payload_len = rp_payload_len pkt + 2, rp_pad_len = of_nat pad,
    rp_data_len = length ?w, rp_local_ms = now, rp_is_clone = False, rp_onebyte_ext_map = Map.empty, rp_twobytes_ext_map = Map.empty\<rparr>"
  have "rtp_parse now ?w = new_rtp_packet now ?w (rp_ext pkt) ?P (rp_payload_len pkt + 2) (of_nat pad)"
  proof (rule rtp_parse_layout)
    show "?P = (case rp_ext pkt of None \<Rightarrow> 12 + 4 * csrc_count (?w ! 0) | Some e \<Rightarrow> e + (4 + unat (be16 (e + 2) ?w) * 4))"
      using ok(1) agree_be16 [OF ag] bits(1) by (auto simp: rtp_ok_def Let_def split: option.splits)
  qed (use ok(1) size len bits last pad lay in \<open>auto simp: rtp_ok_def has_extension_def Let_def\<close>)
  also have "\<dots> = parse_ext ?r" using size len lay(2) by (simp add: new_rtp_packet_def)
  also have "\<dots> = Inr (?r\<lparr>rp_onebyte_ext_map := rp_onebyte_ext_map pkt, rp_twobytes_ext_map := rp_twobytes_ext_map pkt\<rparr>)"
    by (rule parse_ext_agree [OF ok(1,4)]) (use ag bits size len lay(2) in \<open>simp_all add: has_extension_def no_exts_def\<close>)
  finally show ?thesis using pad by simp
qed

lemma be16_after: "be16 (length h) (h @ write_2bytes s @ r) = s"
proof -
  have "read_2bytes (drop (length h) (h @ write_2bytes s @ r)) = Inr (be16 (length h) (h @ write_2bytes s @ r))"
    by (rule read_be16) simp
  then show ?thesis by (simp add: codec_simps)
qed

lemma put_payload:
  "length h = p \<Longrightarrow> length w = 2 \<Longrightarrow> put p (take (length b) (drop (p + 2) (h @ w @ b @ r))) (h @ w @ b @ r) = h @ b @ drop (length b) (w @ b @ r)"
  by (simp add: put_def)

lemma header_put: "12 \<le> length h \<Longrightarrow> put 0 [x] h ! 0 = x" "12 \<le> length h \<Longrightarrow> put 0 [h ! 0] (put 0 [x] h) = h"
  by (cases h; simp add: put_def)+

lemma rtx_demux_eq:
  assumes "rp_payload_len r = n + 2" "set_ssrc s (set_seq (be16 (rp_payload r) (rp_data r)) (set_payload_type t (rp_data r))) = d"
    "put (rp_payload r) (take n (drop (rp_payload r + 2) d)) d = d'"
  shows "rtx_demux s t r = Inr (
    if bit (d' ! 0) 5
    then r\<lparr>rp_data := set_padding_off d', rp_payload_len := n, rp_data_len := rp_data_len r - 2 - unat (rp_pad_len r), rp_pad_len := 0\<rparr>
    else r\<lparr>rp_data := d', rp_payload_len := n, rp_data_len := rp_data_len r - 2\<rparr>)"
  using assms by (simp add: rtx_demux_def has_padding_def Let_def)

lemma rtx_demux_wrapped:
  assumes lay: "length h = p" "12 \<le> p" "\<not> bit (h ! 0) 5" "length body = n" and pad: "unat (rp_pad_len r) = pad"
    and r: "rp_data r = rtx_header seq ssrc ty pad h @ write_2bytes (be16 2 h) @ body @ rtp_padding pad"
      "rp_payload r = p" "rp_payload_len r = n + 2" "rp_data_len r = p + 2 + n + pad"
  shows "\<exists>d'. take (p + n) d' = h @ body \<and> rtx_demux (be32 8 h) (h ! 1 AND 0x7F) r =
    Inr (r\<lparr>rp_data := d', rp_payload_len := n, rp_data_len := p + n, rp_pad_len := 0\<rparr>)"
proof -
  let ?w = "write_2bytes (be16 2 h)" and ?h = "if 0 < pad then put 0 [h ! 0 OR 0x20] h else h"
  let ?d = "?h @ body @ drop n (?w @ body @ rtp_padding pad)"
  have hl: "12 \<le> length h" "length ?h = p" using lay by simp_all
  have rh: "length (rtx_header seq ssrc ty pad h) = p" using rtx_header_facts(1) [OF hl(1)] lay(1) by simp
  have seq: "be16 (rp_payload r) (rp_data r) = be16 2 h"
    using be16_after [of "rtx_header seq ssrc ty pad h"] rh r(1,2) by simp
  have set: "set_ssrc (be32 8 h) (set_seq (be16 2 h) (set_payload_type (h ! 1 AND 0x7F) (rp_data r))) = ?h @ ?w @ body @ rtp_padding pad"
    using rtx_header_restore [OF hl(1) lay(3) refl, of seq ssrc ty pad] rh lay(2) by (simp add: r(1) set_append)
  have mv: "put p (take n (drop (p + 2) (?h @ ?w @ body @ rtp_padding pad))) (?h @ ?w @ body @ rtp_padding pad) = ?d"
    using put_payload [OF hl(2), of ?w body "rtp_padding pad"] lay(4) by simp
  have h0: "bit (?d ! 0) 5 = (0 < pad)" using lay(2,3) hl header_put(1) [OF hl(1)] by (auto simp: nth_append padding_bit)
  have eq: "rtx_demux (be32 8 h) (h ! 1 AND 0x7F) r = Inr (
    if bit (?d ! 0) 5
    then r\<lparr>rp_data := set_padding_off ?d, rp_payload_len := n, rp_data_len := rp_data_len r - 2 - unat (rp_pad_len r), rp_pad_len := 0\<rparr>
    else r\<lparr>rp_data := ?d, rp_payload_len := n, rp_data_len := rp_data_len r - 2\<rparr>)"
    by (rule rtx_demux_eq [OF r(3) set [folded seq] mv [folded r(2) seq], unfolded seq])
  show ?thesis
  proof (cases "0 < pad")
    case True
    have off: "set_padding_off ?d = h @ body @ drop n (?w @ body @ rtp_padding pad)"
      using True hl lay(3) header_put [OF hl(1)] by (simp add: set_append) (simp add: set_padding_off_def padding_bit)
    have "rtx_demux (be32 8 h) (h ! 1 AND 0x7F) r =
       Inr (r\<lparr>rp_data := set_padding_off ?d, rp_payload_len := n, rp_data_len := p + n, rp_pad_len := 0\<rparr>)"
      unfolding eq using h0 True pad r(4) by (simp del: append_assoc drop_append)
    then show ?thesis using off lay(1,4) by (intro exI [of _ "set_padding_off ?d"]) simp
  next
    case False
    then have "rp_pad_len r = 0" using pad by (simp add: unat_eq_zero)
    then have "rtx_demux (be32 8 h) (h ! 1 AND 0x7F) r =
       Inr (r\<lparr>rp_data := ?d, rp_payload_len := n, rp_data_len := p + n, rp_pad_len := 0\<rparr>)"
      unfolding eq using h0 False r(4) pad by (cases r) simp
    then show ?thesis using False lay(1,4) by (intro exI [of _ ?d]) simp
  qed
qed


subsection \<open>Properties\<close>

text \<open>
  C12. Parsing an RTP packet is memory-safe: for any received bytes the parser throws or returns a
  packet whose header, payload and padding tile the input and whose extension elements lie inside
  the header extension.
\<close>

theorem rtp_parse_safe:
  assumes "is_rtp data"
  shows "(\<exists>s. rtp_parse now data = Inl (Throw s)) \<or>
    (\<exists>pkt. rtp_parse now data = Inr pkt \<and> rtp_ok pkt \<and> get_data pkt = data \<and> get_payload pkt \<noteq> [])"
proof -
  from assms have "data \<noteq> []" by (auto simp: is_rtp_def)
  then show ?thesis
  proof (cases rule: rtp_parse_cases [of data now])
    case (2 pkt)
    then have "get_payload pkt \<noteq> []" by (auto simp: get_payload_def rtp_ok_def Let_def)
    with 2 show ?thesis by (auto simp: get_data_def)
  qed blast
qed

theorem rtp_parse_safe_witness:
  "\<exists>pkt. rtp_parse 0 [0x80, 0x60, 0, 1, 0, 0, 0, 0, 0, 0, 0, 9, 7] = Inr pkt \<and> rtp_ok pkt"
proof -
  have "is_rtp [0x80, 0x60, 0, 1, 0, 0, 0, 0, 0, 0, 0, 9, 7]" by (simp add: is_rtp_def drop_bit_eq_div)
  moreover have "rtp_parse 0 [0x80, 0x60, 0, 1, 0, 0, 0, 0, 0, 0, 0, 9, 7] \<noteq> Inl (Throw s)" for s
    by (simp add: rtp_parse_def RTP_PACKET_MAX_SIZE_def mem_at_def csrc_count_def parse_header_ext_def parse_padding_def
      new_rtp_packet_def parse_ext_def)
  ultimately show ?thesis using rtp_parse_safe by blast
qed

text \<open>
  C14. Retransmissions are undone: when a packet is wrapped as a retransmission (another SSRC,
  payload type and sequence number, its own sequence number before its payload, any padding),
  parsing what arrives and \<open>rtx_demux\<close> with the SSRC and payload type of the stream give back the
  very bytes of the packet, with its payload and extensions where they were.
\<close>

theorem rtx_restores_packet:
  assumes "data \<noteq> []" "rtp_parse now data = Inr pkt" "\<not> has_padding pkt"
    and "length data + 2 + pad \<le> RTP_PACKET_MAX_SIZE" "pad < 256"
  shows "\<exists>r r'. rtp_parse now' (rtx_wrap seq ssrc ty pad pkt) = Inr r \<and>
    rtx_demux (get_ssrc pkt) (get_payload_type pkt) r = Inr r' \<and> get_data r' = data \<and>
    rp_payload r' = rp_payload pkt \<and> rp_payload_len r' = rp_payload_len pkt \<and>
    rp_onebyte_ext_map r' = rp_onebyte_ext_map pkt \<and> rp_twobytes_ext_map r' = rp_twobytes_ext_map pkt"
proof (cases rule: rtp_parse_cases [OF assms(1), of now])
  case (2 pkt')
  let ?P = "rp_payload pkt" and ?w = "rtx_wrap seq ssrc ty pad pkt"
  have pkt: "rtp_ok pkt" "rp_data pkt = data" "rp_data_len pkt = length data" "parse_ext (no_exts pkt) = Inr pkt"
    using 2 assms(2) by auto
  have lay: "12 \<le> ?P" "?P + rp_payload_len pkt = length data" "get_data pkt = data"
    using rtp_layout [OF pkt(1) assms(3)] pkt(2,3) by auto
  obtain r where r: "rtp_parse now' ?w = Inr r" "rp_data r = ?w" "rp_payload r = ?P" "rp_payload_len r = rp_payload_len pkt + 2"
    "unat (rp_pad_len r) = pad" "rp_data_len r = length ?w" "rp_ext r = rp_ext pkt"
    "rp_onebyte_ext_map r = rp_onebyte_ext_map pkt" "rp_twobytes_ext_map r = rp_twobytes_ext_map pkt"
    using rtx_wrap_parses [OF pkt(1) assms(3) _ pkt(4), of pad now' seq ssrc ty] pkt(2,3) assms(4,5) by auto
  have hd: "be32 8 (take ?P data) = get_ssrc pkt" "take ?P data ! 1 AND 0x7F = get_payload_type pkt" "be16 2 (take ?P data) = get_seq pkt"
    "\<not> bit (take ?P data ! 0) 5"
    using lay(1) pkt(2) assms(3) by (simp_all add: get_ssrc_def get_payload_type_def get_seq_def be32_def be16_def has_padding_def)
  have w: "?w = rtx_header seq ssrc ty pad (take ?P data) @ write_2bytes (be16 2 (take ?P data)) @ drop ?P data @ rtp_padding pad"
    by (simp add: rtx_wrap_def lay(3) hd(3) Let_def)
  have len: "rp_data_len r = ?P + 2 + rp_payload_len pkt + pad"
    using w lay(1,2) r(6) rtx_header_facts(1) [of "take ?P data"] by simp
  have parts: "length (take ?P data) = ?P" "length (drop ?P data) = rp_payload_len pkt" using lay(2) by simp_all
  obtain d' where "take (?P + rp_payload_len pkt) d' = data"
    "rtx_demux (get_ssrc pkt) (get_payload_type pkt) r =
       Inr (r\<lparr>rp_data := d', rp_payload_len := rp_payload_len pkt, rp_data_len := ?P + rp_payload_len pkt, rp_pad_len := 0\<rparr>)"
    using rtx_demux_wrapped [OF parts(1) lay(1) hd(4) parts(2) r(5) trans [OF r(2) w] r(3,4) len] unfolding hd(1,2) append_take_drop_id
    by blast
  with r(1,3,8,9) show ?thesis by (auto simp: get_data_def)
qed (use assms(2) in simp)

theorem rtx_restores_packet_witness:
  "\<exists>pkt r r'. rtp_parse 0 [0x80, 0x60, 0, 1, 0, 0, 0, 0, 0, 0, 0, 9, 7] = Inr pkt \<and>
     rtp_parse 0 (rtx_wrap 500 77 97 3 pkt) = Inr r \<and> rtx_demux (get_ssrc pkt) (get_payload_type pkt) r = Inr r' \<and>
     get_data r' = [0x80, 0x60, 0, 1, 0, 0, 0, 0, 0, 0, 0, 9, 7]"
proof -
  let ?d = "[0x80, 0x60, 0, 1, 0, 0, 0, 0, 0, 0, 0, 9, 7] :: bytes"
  have "\<exists>pkt. rtp_parse 0 ?d = Inr pkt \<and> rp_data pkt = ?d"
    by (simp add: rtp_parse_def RTP_PACKET_MAX_SIZE_def mem_at_def csrc_count_def parse_header_ext_def parse_padding_def
      new_rtp_packet_def parse_ext_def)
  then obtain pkt where pkt: "rtp_parse 0 ?d = Inr pkt" "rp_data pkt = ?d" by blast
  have "\<not> has_padding pkt" using pkt(2) by (simp add: has_padding_def)
  from rtx_restores_packet [OF _ pkt(1) this, of 3 0 500 77 97] pkt(1) show ?thesis
    by (auto simp: RTP_PACKET_MAX_SIZE_def)
qed

text \<open>
  C36. Sequence numbers are compared as serial numbers: \<open>a\<close> is lower than \<open>b\<close> exactly when going
  forward from \<open>a\<close> reaches \<open>b\<close> within half of the 65536 numbers (at exactly half, the
  numerically larger one counts as lower), so of two different numbers exactly one is lower.
\<close>

theorem seq_lower_than_serial:
  "seq_lower_than a b = (let n = unat (b - a) in 0 < n \<and> (n < 32768 \<or> n = 32768 \<and> b < a)) \<and>
   seq_higher_than a b = seq_lower_than b a"
proof
  have n: "unat (b - a) = (if a \<le> b then unat b - unat a else unat b + 65536 - unat a)"
    by (simp add: unat_sub_if_size word_size word_le_nat_alt)
  have lt: "unat a < 65536" "unat b < 65536" using unsigned_less [of a] unsigned_less [of b] by simp_all
  show "seq_lower_than a b = (let n = unat (b - a) in 0 < n \<and> (n < 32768 \<or> n = 32768 \<and> b < a))"
    using lt by (auto simp: seq_lower_than_def SEQUENCE_MAX_def n Let_def uint_int word_less_nat_alt word_le_nat_alt simp del: of_nat_unat)
  show "seq_higher_than a b = seq_lower_than b a"
    using lt by (auto simp: seq_higher_than_def seq_lower_than_def SEQUENCE_MAX_def uint_int word_less_nat_alt word_unat_eq_iff
      simp del: of_nat_unat)
qed

subsection \<open>An example packet\<close>

text \<open>A packet with a given sequence number, for the examples.\<close>

definition sample_packet :: "u16 \<Rightarrow> rtp_packet" where
  "sample_packet s = \<lparr>rp_data = [0x80, 0x60] @ write_2bytes s @ replicate 9 0, rp_ext = None, rp_payload = 12, rp_payload_len = 1,
     rp_pad_len = 0, rp_data_len = 13, rp_local_ms = 0, rp_is_clone = False, rp_onebyte_ext_map = Map.empty, rp_twobytes_ext_map = Map.empty\<rparr>"

lemma get_seq_sample [simp]: "get_seq (sample_packet s) = s"
  using be16_after [of "[0x80, 0x60]" s "replicate 9 0"] by (simp add: get_seq_def sample_packet_def numeral_2_eq_2)

lemma clone_sample: "\<exists>q. clone now (sample_packet s) = Inr q"
  by (simp add: clone_def sample_packet_def get_data_def rtp_parse_def RTP_PACKET_MAX_SIZE_def mem_at_def csrc_count_def parse_header_ext_def
      parse_padding_def new_rtp_packet_def parse_ext_def)

end
