(* ===== verification/Sorted_Map.thy ===== *)
theory Sorted_Map
  imports MS_Prelude
begin

text \<open>
  \<open>std::map\<close> where its order matters: an association list sorted by key, as iterating the map
  visits it. \<open>find\<close> is \<open>map_of\<close>, \<open>erase\<close> is \<open>AList.delete\<close>, \<open>m[k] = v\<close> is \<open>sm_assign\<close>, \<open>insert\<close>
  is \<open>sm_insert\<close>, \<open>begin()\<close> is the head of the list, and \<open>sm_next\<close> is the element an \<open>erase(iter)\<close>
  returns.
\<close>

fun sm_assign :: "'k::linorder \<Rightarrow> 'v \<Rightarrow> ('k \<times> 'v) list \<Rightarrow> ('k \<times> 'v) list" where
  "sm_assign k v [] = [(k, v)]"
| "sm_assign k v ((k', v') # m) =
     (if k < k' then (k, v) # (k', v') # m else if k = k' then (k, v) # m else (k', v') # sm_assign k v m)"

definition sm_insert :: "'k::linorder \<Rightarrow> 'v \<Rightarrow> ('k \<times> 'v) list \<Rightarrow> ('k \<times> 'v) list" where
  "sm_insert k v m = (if map_of m k = None then sm_assign k v m else m)"

definition sm_next :: "'k::linorder \<Rightarrow> ('k \<times> 'v) list \<Rightarrow> 'k option" where
  "sm_next k m = (case dropWhile (\<lambda>(k', v). k' \<le> k) m of [] \<Rightarrow> None | (k', v) # _ \<Rightarrow> Some k')"

definition sm_ok :: "('k::linorder \<times> 'v) list \<Rightarrow> bool" where
  "sm_ok m \<longleftrightarrow> sorted_wrt (<) (map fst m)"

lemma set_sm_assign: "fst ` set (sm_assign k v m) = insert k (fst ` set m)"
  by (induction k v m rule: sm_assign.induct) (simp_all add: insert_commute)

lemma sm_ok_Nil [simp]: "sm_ok []"
  by (simp add: sm_ok_def)

lemma sm_ok_Cons: "sm_ok ((k, v) # m) \<longleftrightarrow> (\<forall>k' \<in> fst ` set m. k < k') \<and> sm_ok m"
  by (auto simp: sm_ok_def)

lemma sm_ok_distinct: "sm_ok m \<Longrightarrow> distinct_keys m"
  by (simp add: sm_ok_def strict_sorted_iff)

lemma sm_assign_ok [simp]: "sm_ok m \<Longrightarrow> sm_ok (sm_assign k v m)"
proof (induction m)
  case (Cons p m)
  obtain k' v' where p: "p = (k', v')" by (cases p)
  consider "k < k'" | "k = k'" | "k' < k" by (rule linorder_cases)
  then show ?case
  proof cases
    case 1
    then show ?thesis using Cons.prems p by (auto simp: sm_ok_Cons)
  next
    case 2
    then show ?thesis using Cons.prems p by (simp add: sm_ok_Cons)
  next
    case 3
    then have "sm_assign k v ((k', v') # m) = (k', v') # sm_assign k v m" by auto
    then show ?thesis using Cons p 3 by (auto simp: sm_ok_Cons set_sm_assign)
  qed
qed (simp add: sm_ok_Cons)

lemma map_of_sm_assign_at: "sm_ok m \<Longrightarrow> map_of (sm_assign k v m) j = (if j = k then Some v else map_of m j)"
  by (induction m) (auto simp: sm_ok_Cons)

lemma map_of_sm_assign [simp]: "sm_ok m \<Longrightarrow> map_of (sm_assign k v m) = (map_of m)(k \<mapsto> v)"
  by (rule ext) (simp add: map_of_sm_assign_at)

lemma sm_insert_ok [simp]: "sm_ok m \<Longrightarrow> sm_ok (sm_insert k v m)"
  by (simp add: sm_insert_def)

lemma map_of_sm_insert: "sm_ok m \<Longrightarrow> map_of (sm_insert k v m) = (if map_of m k = None then (map_of m)(k \<mapsto> v) else map_of m)"
  by (simp add: sm_insert_def)

lemma sm_ok_delete [simp]: "sm_ok m \<Longrightarrow> sm_ok (AList.delete k m)"
  by (induction m) (auto simp: sm_ok_Cons AList.delete_eq)

lemma sm_ok_drop [simp]: "sm_ok m \<Longrightarrow> sm_ok (drop n m)"
  by (simp add: sm_ok_def drop_map [symmetric] sorted_wrt_drop)

lemma length_delete_key:
  assumes "distinct_keys m" "map_of m k = Some v" shows "length (AList.delete k m) + 1 = length m"
  using assms
proof (induction m)
  case (Cons p m)
  have eq: "AList.delete k m = m" if "k \<notin> fst ` set m"
    using that by (auto simp: AList.delete_eq filter_id_conv image_iff)
  show ?case using Cons eq by (cases p) (auto simp: AList.delete_eq split: if_splits)
qed simp

lemma sm_head_least: "sm_ok ((k, v) # m) \<Longrightarrow> map_of ((k, v) # m) k' = Some v' \<Longrightarrow> k \<le> k'"
  by (fastforce simp: sm_ok_Cons dest!: map_of_SomeD split: if_splits)

lemma sm_eqI: "sm_ok m \<Longrightarrow> sm_ok m' \<Longrightarrow> map_of m = map_of m' \<Longrightarrow> m = m'"
proof (induction m arbitrary: m')
  case Nil
  then show ?case by (cases m') (auto simp: fun_eq_iff split: if_splits)
next
  case (Cons p m)
  obtain k v where p: "p = (k, v)" by (cases p)
  from Cons.prems p have "map_of m' k = Some v" by (metis map_of_Cons_code(2) map_of_Cons_code)
  then obtain k' v' n where m': "m' = (k', v') # n" by (cases m') auto
  have "k \<le> k'" using sm_head_least [of k v m k' v'] Cons.prems p m' by (simp add: fun_eq_iff)
  moreover have "k' \<le> k" using sm_head_least [of k' v' n k v] Cons.prems p m' \<open>map_of m' k = Some v\<close> by simp
  ultimately have k: "k' = k" by simp
  then have v: "v' = v" using \<open>map_of m' k = Some v\<close> m' by simp
  have "map_of m k = None" "map_of n k = None"
    using Cons.prems p m' k by (auto simp: sm_ok_Cons map_of_eq_None_iff)
  moreover have "map_of m j = map_of n j" if "j \<noteq> k" for j
    using fun_cong [OF Cons.prems(3), of j] p m' k that by simp
  ultimately have "map_of m = map_of n" by (intro ext) metis
  with Cons p m' k v show ?case by (auto simp: sm_ok_Cons)
qed

text \<open>\<open>sm_next\<close> is the least greater key.\<close>

lemma sm_next_Cons:
  "sm_next k ((k', v) # m) = (if k' \<le> k then sm_next k m else Some k')"
  by (simp add: sm_next_def)

lemma sm_next_None: "sm_ok m \<Longrightarrow> sm_next k m = None \<longleftrightarrow> (\<forall>j \<in> fst ` set m. j \<le> k)"
  by (induction m) (force simp: sm_next_Cons sm_ok_Cons sm_next_def)+

lemma sm_next_Some:
  "sm_ok m \<Longrightarrow> sm_next k m = Some k' \<longleftrightarrow> k' \<in> fst ` set m \<and> k < k' \<and> (\<forall>j \<in> fst ` set m. k < j \<longrightarrow> k' \<le> j)"
proof (induction m)
  case (Cons p m)
  obtain j v where p: "p = (j, v)" by (cases p)
  show ?case
  proof (cases "j \<le> k")
    case True
    then show ?thesis using Cons p by (auto simp: sm_next_Cons sm_ok_Cons)
  next
    case False
    moreover have "\<forall>i \<in> fst ` set m. j < i" using Cons.prems p by (simp add: sm_ok_Cons)
    ultimately show ?thesis using p by (auto simp: sm_next_Cons not_le intro: order_antisym)
  qed
qed (simp add: sm_next_def)

lemma keys_delete: "fst ` set (AList.delete k m) = fst ` set m - {k}"
  by (auto simp: AList.delete_eq)

lemma map_of_key_iff: "(\<exists>v. map_of m k = Some v) \<longleftrightarrow> k \<in> fst ` set m"
  by (metis map_of_eq_None_iff not_None_eq)

lemma length_keys: "sm_ok m \<Longrightarrow> length m = card (fst ` set m)"
  using distinct_card [of "map fst m"] by (simp add: sm_ok_distinct)

lemma sm_keys_Cons: "sm_ok ((k, v) # m) \<Longrightarrow> j \<in> fst ` set ((k, v) # m) \<Longrightarrow> k \<le> j"
  by (auto simp: sm_ok_Cons)

end
