(* ===== verification/Nack.thy ===== *)
theory Nack
  imports Rtp Sorted_Map
begin

text \<open>
  The generator of retransmission requests of a receiving video stream,
  \<open>src/net/webrtc/nack_generator.cpp\<close>: \<open>update_nacklist\<close> is called with every packet, \<open>on_timer\<close>
  every 30 ms; what \<open>on_timer\<close> passes to \<open>generate_nacklist\<close> is part of its result.

  Shown: within one cycle of sequence numbers the list holds exactly the numbers that are
  missing; every request list is sorted, a number is requested at most 21 times, and the list is
  cut to 5000 entries; a gap across the wrap of the sequence numbers is not noticed.
\<close>

subsection \<open>The generator\<close>

definition NACK_LIST_MAX :: nat where "NACK_LIST_MAX = 5000"
definition NACK_RETRY_MAX :: int where "NACK_RETRY_MAX = 20"
definition NACK_DEFAULT_RTT :: int where "NACK_DEFAULT_RTT = 20"

record NACK_INFO =
  ni_seq :: u16
  ni_sent_ms :: int
  ni_retry :: int

definition new_NACK_INFO :: "u16 \<Rightarrow> int \<Rightarrow> int \<Rightarrow> NACK_INFO" where
  "new_NACK_INFO seq sent_ms retry = \<lparr>ni_seq = seq, ni_sent_ms = sent_ms, ni_retry = retry\<rparr>"

record nack_generator =
  ng_init_flag :: bool
  ng_last_seq :: u16
  ng_nack_map :: "(u16 \<times> NACK_INFO) list"
  ng_rtt :: int

definition new_nack_generator :: nack_generator where
  "new_nack_generator = \<lparr>ng_init_flag = False, ng_last_seq = 0, ng_nack_map = [], ng_rtt = NACK_DEFAULT_RTT\<rparr>"

definition update_rtt :: "int \<Rightarrow> nack_generator \<Rightarrow> nack_generator" where
  "update_rtt rtt g = g\<lparr>ng_rtt := rtt\<rparr>"

text \<open>The loop that adds the numbers from \<open>key_seq\<close> up to \<open>seq_end\<close>.\<close>

function add_seqs :: "u16 \<Rightarrow> u16 \<Rightarrow> (u16 \<times> NACK_INFO) list \<Rightarrow> (u16 \<times> NACK_INFO) list" where
  "add_seqs key_seq seq_end m =
     (if key_seq < seq_end then add_seqs (key_seq + 1) seq_end (sm_insert key_seq (new_NACK_INFO key_seq 0 0) m) else m)"
  by pat_completeness auto
termination
proof (relation "measure (\<lambda>(k, e, m). unat e - unat k)")
  fix key_seq seq_end :: u16 and m :: "(u16 \<times> NACK_INFO) list"
  assume "key_seq < seq_end"
  then have lt: "unat key_seq < unat seq_end" by (simp add: word_less_nat_alt)
  then have "unat (key_seq + 1) = Suc (unat key_seq)"
    using unsigned_less [of seq_end, where 'a = nat] by (simp add: unat_word_ariths)
  then show "((key_seq + 1, seq_end, sm_insert key_seq (new_NACK_INFO key_seq 0 0) m), key_seq, seq_end, m)
    \<in> measure (\<lambda>(k, e, m). unat e - unat k)" using lt by simp
qed simp

declare add_seqs.simps [simp del]

definition update_nacklist :: "rtp_packet \<Rightarrow> nack_generator \<Rightarrow> nack_generator" where
  "update_nacklist pkt g =
     (let seq = get_seq pkt in
      if \<not> ng_init_flag g then g\<lparr>ng_init_flag := True, ng_last_seq := seq\<rparr>
      else if seq = ng_last_seq g then g
      else if seq_lower_than seq (ng_last_seq g) then
        (if map_of (ng_nack_map g) seq \<noteq> None then g\<lparr>ng_nack_map := AList.delete seq (ng_nack_map g)\<rparr> else g)
      else if uint (ng_last_seq g) + 1 = uint seq then g\<lparr>ng_last_seq := seq\<rparr>
      else g\<lparr>ng_last_seq := seq, ng_nack_map := add_seqs (ng_last_seq g + 1) seq (ng_nack_map g)\<rparr>)"

text \<open>The scan of \<open>on_timer\<close>: the numbers to request and the list that is left.\<close>

fun timer_scan :: "int \<Rightarrow> int \<Rightarrow> (u16 \<times> NACK_INFO) list \<Rightarrow> u16 list \<times> (u16 \<times> NACK_INFO) list" where
  "timer_scan now_ms rtt [] = ([], [])"
| "timer_scan now_ms rtt ((k, i) # m) =
     (let (lost, m') = timer_scan now_ms rtt m in
      if ni_retry i > NACK_RETRY_MAX then (lost, m')
      else if now_ms - ni_sent_ms i < rtt then (lost, (k, i) # m')
      else (k # lost, (k, i\<lparr>ni_sent_ms := now_ms, ni_retry := ni_retry i + 1\<rparr>) # m'))"

definition nack_on_timer :: "int \<Rightarrow> nack_generator \<Rightarrow> u16 list option \<times> nack_generator" where
  "nack_on_timer now_ms g =
     (if ng_nack_map g = [] then (None, g)
      else
        let (lost_seq_list, m) = timer_scan now_ms (ng_rtt g) (ng_nack_map g) in
        (if lost_seq_list = [] then None else Some (sort lost_seq_list),
         g\<lparr>ng_nack_map := drop (length m - NACK_LIST_MAX) m\<rparr>))"

subsection \<open>What the list holds\<close>

lemma unat_Suc_lt: "(k :: u16) < e \<Longrightarrow> unat (k + 1) = Suc (unat k)"
proof -
  assume "k < e"
  then have "unat k < unat e" by (simp add: word_less_nat_alt)
  then show ?thesis using unsigned_less [of e, where 'a = nat] by (simp add: unat_word_ariths)
qed

lemma Suc_le_iff: "(k :: u16) < e \<Longrightarrow> (k + 1 \<le> j) = (k < j)"
  using unat_Suc_lt [of k e] by (auto simp: word_le_nat_alt word_less_nat_alt)

lemma add_seqs_ok: "sm_ok m \<Longrightarrow> sm_ok (add_seqs k e m)"
proof (induction k e m rule: add_seqs.induct)
  case (1 k e m)
  then show ?case by (subst add_seqs.simps) simp
qed

lemma map_of_add_seqs:
  "sm_ok m \<Longrightarrow> map_of (add_seqs k e m) j =
     (if k \<le> j \<and> j < e \<and> map_of m j = None then Some (new_NACK_INFO j 0 0) else map_of m j)"
proof (induction k e m rule: add_seqs.induct)
  case (1 k e m)
  show ?case
  proof (cases "k < e")
    case True
    have "j = k \<or> (k + 1 \<le> j) = (k \<le> j)" using Suc_le_iff [OF True, of j] by auto
    then show ?thesis
      using 1 True Suc_le_iff [OF True, of k] by (subst add_seqs.simps) (auto simp: map_of_sm_insert)
  next
    case False
    then show ?thesis by (subst add_seqs.simps) auto
  qed
qed

lemma seq_lower_near:
  "unat a < unat b + 32768 \<Longrightarrow> unat b < unat a + 32768 \<Longrightarrow> seq_lower_than a b = (a < b)"
  by (auto simp: seq_lower_than_def SEQUENCE_MAX_def word_less_nat_alt uint_int simp del: of_nat_unat)

lemma update_nacklist_ok: "sm_ok (ng_nack_map g) \<Longrightarrow> sm_ok (ng_nack_map (update_nacklist pkt g))"
  by (simp add: update_nacklist_def add_seqs_ok Let_def)

text \<open>One packet, when its number is near the highest one seen.\<close>

lemma update_nacklist_near:
  assumes g: "ng_init_flag g" "sm_ok (ng_nack_map g)"
    and near: "unat (get_seq pkt) < unat (ng_last_seq g) + 32768" "unat (ng_last_seq g) < unat (get_seq pkt) + 32768"
    and top: "map_of (ng_nack_map g) (ng_last_seq g) = None" "\<And>j. ng_last_seq g < j \<Longrightarrow> map_of (ng_nack_map g) j = None"
  shows "ng_init_flag (update_nacklist pkt g) \<and> ng_last_seq (update_nacklist pkt g) = max (ng_last_seq g) (get_seq pkt) \<and>
    (map_of (ng_nack_map (update_nacklist pkt g)) j \<noteq> None \<longleftrightarrow>
       (map_of (ng_nack_map g) j \<noteq> None \<or> ng_last_seq g < j \<and> j < get_seq pkt) \<and> j \<noteq> get_seq pkt)"
proof -
  let ?s = "get_seq pkt" and ?l = "ng_last_seq g" and ?m = "ng_nack_map g"
  have low: "seq_lower_than ?s ?l = (?s < ?l)" using seq_lower_near near by blast
  consider (same) "?s = ?l" | (old) "?s < ?l" | (new) "?l < ?s" by (rule linorder_cases)
  then show ?thesis
  proof cases
    case same
    with g top(1) show ?thesis by (auto simp: update_nacklist_def)
  next
    case old
    have "map_of (ng_nack_map (update_nacklist pkt g)) j = (if j = ?s then None else map_of ?m j)"
      using g(1) old low by (auto simp: update_nacklist_def map_of_AList_delete Let_def)
    moreover have "ng_init_flag (update_nacklist pkt g)" "ng_last_seq (update_nacklist pkt g) = ?l"
      using g(1) old low by (auto simp: update_nacklist_def Let_def)
    ultimately show ?thesis using old by (auto simp: max_def)
  next
    case new
    then have step: "update_nacklist pkt g = (if uint ?l + 1 = uint ?s then g\<lparr>ng_last_seq := ?s\<rparr>
        else g\<lparr>ng_last_seq := ?s, ng_nack_map := add_seqs (?l + 1) ?s ?m\<rparr>)"
      using g(1) low by (auto simp: update_nacklist_def Let_def)
    have gap: "(?l + 1 \<le> j) = (?l < j)" by (rule Suc_le_iff [OF new])
    show ?thesis
    proof (cases "uint ?l + 1 = uint ?s")
      case True
      then have "\<not> (?l < j \<and> j < ?s)" by (auto simp: word_less_nat_alt uint_int simp del: of_nat_unat)
      with step True g(1) new top(2) [OF new] show ?thesis by (auto simp: max_def)
    next
      case False
      with step g new top(2) [OF new] gap show ?thesis by (auto simp: max_def map_of_add_seqs)
    qed
  qed
qed

text \<open>
  C20. Within one cycle of sequence numbers the receiver knows exactly what it lacks: after any
  packets, in any order and with repetitions, whose numbers span less than half of the cycle, the
  list of numbers to request is the set of numbers between the first one received and the highest
  one that have not been received.
\<close>

theorem nack_list_is_missing:
  assumes "pkts \<noteq> []" "S = get_seq ` set pkts"
    and "\<And>a b. a \<in> S \<Longrightarrow> b \<in> S \<Longrightarrow> unat a < unat b + 32768"
  shows "fst ` set (ng_nack_map (fold update_nacklist pkts new_nack_generator)) =
    {j. get_seq (hd pkts) < j \<and> j < Max S \<and> j \<notin> S}"
proof -
  let ?run = "\<lambda>ps. fold update_nacklist ps new_nack_generator" and ?S = "\<lambda>ps. get_seq ` set ps"
  have ok: "sm_ok (ng_nack_map (?run ps))" for ps
    by (induction ps rule: rev_induct) (auto simp: new_nack_generator_def update_nacklist_ok)
  have "ng_init_flag (?run ps) \<and> ng_last_seq (?run ps) = Max (?S ps) \<and>
     (\<forall>j. map_of (ng_nack_map (?run ps)) j \<noteq> None \<longleftrightarrow> get_seq (hd ps) < j \<and> j < Max (?S ps) \<and> j \<notin> ?S ps)"
    if "ps \<noteq> []" "?S ps \<subseteq> S" for ps
    using that
  proof (induction ps rule: rev_induct)
    case (snoc p ps)
    show ?case
    proof (cases "ps = []")
      case True
      then show ?thesis by (auto simp: update_nacklist_def new_nack_generator_def Let_def)
    next
      case False
      then have ne: "?S ps \<noteq> {}" "finite (?S ps)" and IH: "ng_init_flag (?run ps)" "ng_last_seq (?run ps) = Max (?S ps)"
        "\<And>j. map_of (ng_nack_map (?run ps)) j \<noteq> None \<longleftrightarrow> get_seq (hd ps) < j \<and> j < Max (?S ps) \<and> j \<notin> ?S ps"
        using snoc by auto
      have in_S: "Max (?S ps) \<in> S" "get_seq p \<in> S" using Max_in [OF ne(2,1)] snoc.prems by auto
      have hd: "get_seq (hd ps) \<le> Max (?S ps)" using False ne by (intro Max_ge) auto
      have near: "unat (get_seq p) < unat (ng_last_seq (?run ps)) + 32768" "unat (ng_last_seq (?run ps)) < unat (get_seq p) + 32768"
        using assms(3) in_S IH(2) by simp_all
      have top: "map_of (ng_nack_map (?run ps)) (ng_last_seq (?run ps)) = None"
        "\<And>j. ng_last_seq (?run ps) < j \<Longrightarrow> map_of (ng_nack_map (?run ps)) j = None"
        by (metis IH(2,3) less_irrefl, metis IH(2,3) less_asym)
      have step: "ng_init_flag (?run (ps @ [p])) \<and> ng_last_seq (?run (ps @ [p])) = max (Max (?S ps)) (get_seq p) \<and>
        (map_of (ng_nack_map (?run (ps @ [p]))) j \<noteq> None \<longleftrightarrow>
          (map_of (ng_nack_map (?run ps)) j \<noteq> None \<or> Max (?S ps) < j \<and> j < get_seq p) \<and> j \<noteq> get_seq p)" for j
        using update_nacklist_near [OF IH(1) ok near top, of j] by (simp only: fold_append fold.simps comp_apply id_apply IH(2))
      have mx: "Max (?S (ps @ [p])) = max (Max (?S ps)) (get_seq p)" using ne by (simp add: max.commute)
      have above: "j \<notin> ?S ps" if "Max (?S ps) < j" for j using that ne Max_ge [of "?S ps" j] by auto
      have "(get_seq (hd ps) < j \<and> j < Max (?S ps) \<and> j \<notin> ?S ps \<or> Max (?S ps) < j \<and> j < get_seq p) \<and> j \<noteq> get_seq p \<longleftrightarrow>
        get_seq (hd ps) < j \<and> j < max (Max (?S ps)) (get_seq p) \<and> j \<notin> insert (get_seq p) (?S ps)" for j
        using above [of j] hd Max_in [OF ne(2,1)] by (auto simp: max_def)
      with step mx IH(3) False show ?thesis by auto
    qed
  qed simp
  from this [of pkts] assms have "map_of (ng_nack_map (?run pkts)) j \<noteq> None \<longleftrightarrow> get_seq (hd pkts) < j \<and> j < Max S \<and> j \<notin> S" for j
    by simp
  then show ?thesis by (auto simp: map_of_eq_None_iff)
qed

theorem nack_list_is_missing_witness:
  "fst ` set (ng_nack_map (fold update_nacklist (map sample_packet [10, 14, 12]) new_nack_generator)) = {11, 13}"
proof -
  have S: "get_seq ` set (map sample_packet [10, 14, 12]) = {10, 12, 14}" by auto
  have "Max {10, 12, 14 :: u16} = 14" by simp
  moreover have "{j. 10 < j \<and> j < 14 \<and> j \<notin> {10, 12, 14 :: u16}} = {11, 13}"
  proof (rule set_eqI)
    fix j :: u16
    have "10 < j \<and> j < 14 \<longleftrightarrow> unat j \<in> {11, 12, 13}" by (auto simp: word_less_nat_alt)
    also have "\<dots> \<longleftrightarrow> j \<in> {11, 12, 13}" by (auto simp: word_unat_eq_iff)
    finally show "j \<in> {j. 10 < j \<and> j < 14 \<and> j \<notin> {10, 12, 14 :: u16}} \<longleftrightarrow> j \<in> {11, 13}" by auto
  qed
  moreover have "unat a < unat b + 32768" if "a \<in> {10, 12, 14 :: u16}" "b \<in> {10, 12, 14 :: u16}" for a b using that by auto
  ultimately show ?thesis
    using nack_list_is_missing [of "map sample_packet [10, 14, 12]" "{10, 12, 14}", OF _ S [symmetric]] by simp
qed

text \<open>
  A loss across the wrap of the sequence numbers is never requested: when the number of a packet
  is ahead of the last one but numerically smaller, nothing is added to the list (unless the last
  one was 65535), although all the numbers between the two are missing.
\<close>

theorem nack_wrap_ignored:
  assumes "ng_init_flag g" "get_seq pkt < ng_last_seq g" "ng_last_seq g \<noteq> 65535" "\<not> seq_lower_than (get_seq pkt) (ng_last_seq g)"
  shows "ng_last_seq (update_nacklist pkt g) = get_seq pkt \<and> ng_nack_map (update_nacklist pkt g) = ng_nack_map g"
proof -
  let ?l = "ng_last_seq g"
  have "unat ?l < 65535" using assms(3) unsigned_less [of ?l, where 'a = nat] by (simp add: word_unat_eq_iff)
  then have "\<not> ?l + 1 < get_seq pkt" using assms(2) by (simp add: word_less_nat_alt unat_word_ariths)
  then have "add_seqs (?l + 1) (get_seq pkt) (ng_nack_map g) = ng_nack_map g" by (subst add_seqs.simps) simp
  moreover have "uint ?l + 1 \<noteq> uint (get_seq pkt)" "get_seq pkt \<noteq> ?l" using assms(2) by (auto simp: word_less_def)
  ultimately show ?thesis using assms(1,4) by (simp add: update_nacklist_def Let_def)
qed

theorem nack_wrap_ignored_witness:
  "ng_nack_map (update_nacklist (sample_packet 2) (new_nack_generator\<lparr>ng_init_flag := True, ng_last_seq := 65533\<rparr>)) = []"
  using nack_wrap_ignored [of "new_nack_generator\<lparr>ng_init_flag := True, ng_last_seq := 65533\<rparr>" "sample_packet 2"]
  by (simp add: new_nack_generator_def seq_lower_than_def SEQUENCE_MAX_def)

subsection \<open>Requests\<close>

text \<open>The entry of a number after a tick.\<close>

definition due :: "int \<Rightarrow> int \<Rightarrow> NACK_INFO \<Rightarrow> bool" where
  "due now_ms rtt i \<longleftrightarrow> ni_retry i \<le> NACK_RETRY_MAX \<and> rtt \<le> now_ms - ni_sent_ms i"

definition ticked :: "int \<Rightarrow> int \<Rightarrow> NACK_INFO \<Rightarrow> NACK_INFO" where
  "ticked now_ms rtt i = (if due now_ms rtt i then i\<lparr>ni_sent_ms := now_ms, ni_retry := ni_retry i + 1\<rparr> else i)"

lemma timer_scan_eq:
  "timer_scan now rtt m =
     (map fst (filter (\<lambda>(k, i). due now rtt i) m),
      map (\<lambda>(k, i). (k, ticked now rtt i)) (filter (\<lambda>(k, i). ni_retry i \<le> NACK_RETRY_MAX) m))"
  by (induction now rtt m rule: timer_scan.induct) (auto simp: due_def ticked_def Let_def)

lemma sm_ok_scan: "sm_ok m \<Longrightarrow> sorted_wrt (<) (fst (timer_scan now rtt m)) \<and> sm_ok (snd (timer_scan now rtt m))"
proof (induction m)
  case (Cons p m)
  obtain k i where p: "p = (k, i)" by (cases p)
  with Cons.prems have "k < k'" if "(k', i') \<in> set m" for k' i' using that by (force simp: sm_ok_Cons)
  with Cons p show ?case by (fastforce simp: timer_scan_eq sm_ok_Cons)
qed (simp add: timer_scan_eq)

fun ticks :: "int list \<Rightarrow> nack_generator \<Rightarrow> u16 list list \<times> nack_generator" where
  "ticks [] g = ([], g)"
| "ticks (now # ts) g =
     (let (r, g1) = nack_on_timer now g; (rs, g2) = ticks ts g1 in ((case r of None \<Rightarrow> [] | Some l \<Rightarrow> l) # rs, g2))"

lemma map_of_scan:
  "sm_ok m \<Longrightarrow> map_of (snd (timer_scan now rtt m)) k =
     (case map_of m k of None \<Rightarrow> None | Some i \<Rightarrow> if ni_retry i \<le> NACK_RETRY_MAX then Some (ticked now rtt i) else None)"
proof (induction m)
  case (Cons p m)
  obtain k' i where p: "p = (k', i)" by (cases p)
  with Cons.prems have m: "map_of m k' = None" "sm_ok m" by (auto simp: sm_ok_Cons map_of_eq_None_iff)
  show ?case using Cons.IH [OF m(2)] m(1) p by (cases "k = k'") (simp_all add: timer_scan_eq)
qed (simp add: timer_scan_eq)

lemma map_of_drop: "sm_ok m \<Longrightarrow> map_of (drop n m) k = Some v \<Longrightarrow> map_of m k = Some v"
  by (metis in_set_dropD map_of_SomeD map_of_is_SomeI sm_ok_distinct)

text \<open>How often a number may still be requested.\<close>

definition requests_left :: "nack_generator \<Rightarrow> u16 \<Rightarrow> nat" where
  "requests_left g seq = (case map_of (ng_nack_map g) seq of None \<Rightarrow> 0 | Some i \<Rightarrow> nat (NACK_RETRY_MAX + 1 - ni_retry i))"

lemma count_strict: "sorted_wrt (<) (xs :: u16 list) \<Longrightarrow> count_list xs x = (if x \<in> set xs then 1 else 0)"
  by (induction xs) (auto simp: count_notin)

lemma requested_iff:
  "sm_ok m \<Longrightarrow> k \<in> set (fst (timer_scan now rtt m)) \<longleftrightarrow> (\<exists>i. map_of m k = Some i \<and> due now rtt i)"
  using sm_ok_distinct [of m] by (force simp: timer_scan_eq)

lemma tick:
  assumes "sm_ok (ng_nack_map g)" "nack_on_timer now g = (r, g')" "l = (case r of None \<Rightarrow> [] | Some l \<Rightarrow> l)"
  shows "l = fst (timer_scan now (ng_rtt g) (ng_nack_map g))" "sorted_wrt (<) l" "sm_ok (ng_nack_map g')"
    "length (ng_nack_map g') \<le> NACK_LIST_MAX" "count_list l seq + requests_left g' seq \<le> requests_left g seq"
proof -
  let ?m = "ng_nack_map g" and ?s = "timer_scan now (ng_rtt g) (ng_nack_map g)"
  have s: "sorted_wrt (<) (fst ?s)" "sm_ok (snd ?s)" using sm_ok_scan [OF assms(1)] by auto
  have srt: "sort (fst ?s) = fst ?s" using s(1) by (simp add: sorted_sort_id strict_sorted_iff)
  have g': "g' = (if ?m = [] then g else g\<lparr>ng_nack_map := drop (length (snd ?s) - NACK_LIST_MAX) (snd ?s)\<rparr>)"
    and l: "l = fst ?s" using assms(2,3) srt by (auto simp: nack_on_timer_def timer_scan_eq split: prod.splits if_splits)
  from l show "l = fst ?s" .
  from l s(1) show "sorted_wrt (<) l" by simp
  from g' s(2) assms(1) show "sm_ok (ng_nack_map g')" by auto
  from g' show "length (ng_nack_map g') \<le> NACK_LIST_MAX" by auto
  have left: "i' = ticked now (ng_rtt g) i \<and> ni_retry i \<le> NACK_RETRY_MAX"
    if "map_of (ng_nack_map g') seq = Some i'" "map_of ?m seq = Some i" for i i'
  proof -
    have "?m \<noteq> []" using that by auto
    with that(1) g' have "map_of (snd ?s) seq = Some i'" using map_of_drop [OF s(2)] by auto
    with map_of_scan [OF assms(1), of now "ng_rtt g" seq] that(2) show ?thesis by (auto split: if_splits)
  qed
  have none: "map_of (ng_nack_map g') seq = None" if "map_of ?m seq = None"
    using that map_of_scan [OF assms(1), of now "ng_rtt g" seq] map_of_drop [OF s(2), of _ seq] g'
    by (cases "map_of (ng_nack_map g') seq"; cases "?m = []") auto
  have cnt: "count_list l seq = (if \<exists>i. map_of ?m seq = Some i \<and> due now (ng_rtt g) i then 1 else 0)"
    using count_strict [OF s(1)] requested_iff [OF assms(1)] l by simp
  show "count_list l seq + requests_left g' seq \<le> requests_left g seq"
  proof (cases "map_of ?m seq")
    case (Some i)
    then show ?thesis
    proof (cases "map_of (ng_nack_map g') seq")
      case (Some i')
      with left [OF this \<open>map_of ?m seq = Some i\<close>] cnt \<open>map_of ?m seq = Some i\<close> show ?thesis
        by (simp add: requests_left_def ticked_def due_def Suc_nat_eq_nat_zadd1 algebra_simps)
    qed (use cnt in \<open>auto simp: requests_left_def due_def\<close>)
  qed (use none cnt in \<open>simp add: requests_left_def\<close>)
qed

text \<open>
  C32. Requests for retransmission are bounded and orderly: however often the timer fires, a number on
  the list is requested at most \<open>NACK_RETRY_MAX + 1\<close> times in all (fewer when it has been requested
  before), every list that is sent is strictly increasing, and after a tick at most 5000 numbers
  are kept.
\<close>

theorem nack_requests_bounded:
  assumes "sm_ok (ng_nack_map g)" "ticks ts g = (rs, g')"
  shows "count_list (concat rs) seq \<le> requests_left g seq \<and> (\<forall>r \<in> set rs. sorted_wrt (<) r) \<and>
    (ts \<noteq> [] \<longrightarrow> length (ng_nack_map g') \<le> NACK_LIST_MAX)"
proof -
  have "count_list (concat (fst (ticks ts g))) seq + requests_left (snd (ticks ts g)) seq \<le> requests_left g seq \<and>
    (\<forall>r \<in> set (fst (ticks ts g)). sorted_wrt (<) r) \<and> (ts \<noteq> [] \<longrightarrow> length (ng_nack_map (snd (ticks ts g))) \<le> NACK_LIST_MAX)"
    using assms(1)
  proof (induction ts arbitrary: g)
    case (Cons now ts)
    obtain r g1 where r: "nack_on_timer now g = (r, g1)" by fastforce
    note t = tick [OF Cons.prems r refl]
    show ?case
      using Cons.IH [OF t(3)] t(2,4) t(5) [of seq] r by (cases "ts = []") (auto split: prod.splits)
  qed simp
  with assms(2) show ?thesis by auto
qed

theorem nack_requests_bounded_witness:
  "\<exists>rs g'. ticks [100, 110, 130] (update_nacklist (sample_packet 12) (update_nacklist (sample_packet 10) new_nack_generator)) = (rs, g') \<and>
     rs = [[11], [], [11]] \<and> count_list (concat rs) 11 \<le> 21"
proof -
  let ?g = "update_nacklist (sample_packet 12) (update_nacklist (sample_packet 10) new_nack_generator)"
  have g: "?g = new_nack_generator\<lparr>ng_init_flag := True, ng_last_seq := 12, ng_nack_map := [(11, new_NACK_INFO 11 0 0)]\<rparr>"
    by (simp add: update_nacklist_def new_nack_generator_def seq_lower_than_def SEQUENCE_MAX_def add_seqs.simps sm_insert_def)
  obtain rs g' where run: "ticks [100, 110, 130] ?g = (rs, g')" by fastforce
  have "rs = [[11], [], [11]]"
    using run unfolding g by (simp add: nack_on_timer_def new_nack_generator_def new_NACK_INFO_def NACK_RETRY_MAX_def NACK_DEFAULT_RTT_def
      NACK_LIST_MAX_def Let_def)
  moreover have "sm_ok (ng_nack_map ?g)" by (simp add: g sm_ok_Cons)
  from nack_requests_bounded [OF this run, of 11]
  have "count_list (concat rs) 11 \<le> requests_left ?g 11" by simp
  moreover have "requests_left ?g 11 = 21" by (simp add: g requests_left_def new_NACK_INFO_def NACK_RETRY_MAX_def)
  ultimately show ?thesis using run by auto
qed

end
