(* ===== verification/Rtcp.thy ===== *)
theory Rtcp
  imports Rtp
begin

text \<open>
  RTCP packets, \<open>src/net/rtprtcp/\<close>: sender report (\<open>rtcp_sr.hpp\<close>), receiver report (\<open>rtcp_rr.hpp\<close>),
  picture loss indication (\<open>rtcp_pspli.hpp\<close>) and negative acknowledgement (\<open>rtcpfb_nack.hpp\<close>). A
  packet object is the bytes it has stored in its 1500-byte buffer. The parsers get a pointer into
  the receive buffer, here the bytes from there to the end of that buffer, and a length.

  Shown: the reports and the acknowledgement read back what was set; the acknowledgement of numbers
  that span more than 16 shifts by a negative amount; its bitmap has the opposite bit order of
  RFC 4585; the length field of a receiver report is always 65535.
\<close>

subsection \<open>Headers\<close>

definition RTCP_SR :: u8 where "RTCP_SR = 200"
definition RTCP_RR :: u8 where "RTCP_RR = 201"
definition RTCP_SDES :: u8 where "RTCP_SDES = 202"
definition RTCP_BYE :: u8 where "RTCP_BYE = 203"
definition RTCP_APP :: u8 where "RTCP_APP = 204"
definition RTCP_RTPFB :: u8 where "RTCP_RTPFB = 205"
definition RTCP_PSFB :: u8 where "RTCP_PSFB = 206"
definition RTCP_XR :: u8 where "RTCP_XR = 207"
definition FB_RTP_NACK :: u8 where "FB_RTP_NACK = 1"
definition FB_PS_PLI :: u8 where "FB_PS_PLI = 1"

text \<open>Byte order: \<open>htonl\<close> and \<open>htons\<close> on a little-endian machine.\<close>

definition htonl :: "u32 \<Rightarrow> u32" where "htonl v = from_mem (write_4bytes v)"
definition htons :: "u16 \<Rightarrow> u16" where "htons v = from_mem (write_2bytes v)"

text \<open>The four header bytes: version 2, no padding, \<open>count\<close> or \<open>fmt\<close>, packet type, and the length field as it is in memory.\<close>

definition rtcp_header :: "u8 \<Rightarrow> u8 \<Rightarrow> u16 \<Rightarrow> bytes" where
  "rtcp_header count packet_type len = [0x80 OR (count AND 0x1F), packet_type] @ to_mem 2 len"

subsection \<open>Sender report\<close>

record rtcp_sr_packet =
  sr_data :: bytes

definition new_rtcp_sr_packet :: rtcp_sr_packet where
  "new_rtcp_sr_packet = \<lparr>sr_data = rtcp_header 0 RTCP_SR (htons 6) @ replicate 24 0\<rparr>"

definition sr_set_ssrc :: "u32 \<Rightarrow> rtcp_sr_packet \<Rightarrow> rtcp_sr_packet" where
  "sr_set_ssrc v p = p\<lparr>sr_data := put 4 (write_4bytes v) (sr_data p)\<rparr>"

definition sr_set_ntp :: "u32 \<Rightarrow> u32 \<Rightarrow> rtcp_sr_packet \<Rightarrow> rtcp_sr_packet" where
  "sr_set_ntp ntp_sec ntp_frac p = p\<lparr>sr_data := put 12 (write_4bytes ntp_frac) (put 8 (write_4bytes ntp_sec) (sr_data p))\<rparr>"

definition sr_set_rtp_timestamp :: "u32 \<Rightarrow> rtcp_sr_packet \<Rightarrow> rtcp_sr_packet" where
  "sr_set_rtp_timestamp v p = p\<lparr>sr_data := put 16 (write_4bytes v) (sr_data p)\<rparr>"

definition sr_set_pkt_count :: "u32 \<Rightarrow> rtcp_sr_packet \<Rightarrow> rtcp_sr_packet" where
  "sr_set_pkt_count v p = p\<lparr>sr_data := put 20 (write_4bytes v) (sr_data p)\<rparr>"

definition sr_set_bytes_count :: "u32 \<Rightarrow> rtcp_sr_packet \<Rightarrow> rtcp_sr_packet" where
  "sr_set_bytes_count v p = p\<lparr>sr_data := put 24 (write_4bytes v) (sr_data p)\<rparr>"

definition sr_get_ssrc :: "rtcp_sr_packet \<Rightarrow> u32" where "sr_get_ssrc p = be32 4 (sr_data p)"
definition sr_get_ntp_sec :: "rtcp_sr_packet \<Rightarrow> u32" where "sr_get_ntp_sec p = be32 8 (sr_data p)"
definition sr_get_ntp_frac :: "rtcp_sr_packet \<Rightarrow> u32" where "sr_get_ntp_frac p = be32 12 (sr_data p)"
definition sr_get_rtp_timestamp :: "rtcp_sr_packet \<Rightarrow> u32" where "sr_get_rtp_timestamp p = be32 16 (sr_data p)"
definition sr_get_pkt_count :: "rtcp_sr_packet \<Rightarrow> u32" where "sr_get_pkt_count p = be32 20 (sr_data p)"
definition sr_get_bytes_count :: "rtcp_sr_packet \<Rightarrow> u32" where "sr_get_bytes_count p = be32 24 (sr_data p)"

definition sr_parse :: "bytes \<Rightarrow> nat \<Rightarrow> rtcp_sr_packet cxx" where
  "sr_parse mem len =
     (if len \<noteq> 28 then Inl (Throw ''rtcp sr len error'')
      else cxx_bind (mem_read mem 0 28) (\<lambda>d. Inr \<lparr>sr_data = d\<rparr>))"

subsection \<open>Receiver report\<close>

record rtcp_rr_packet =
  rr_data :: bytes

definition new_rtcp_rr_packet :: rtcp_rr_packet where
  "new_rtcp_rr_packet = \<lparr>rr_data = replicate 32 0\<rparr>"

definition rr_set :: "nat \<Rightarrow> bytes \<Rightarrow> rtcp_rr_packet \<Rightarrow> rtcp_rr_packet" where
  "rr_set i xs p = p\<lparr>rr_data := put i xs (rr_data p)\<rparr>"

definition rr_set_reporter_ssrc :: "u32 \<Rightarrow> rtcp_rr_packet \<Rightarrow> rtcp_rr_packet" where
  "rr_set_reporter_ssrc v = rr_set 4 (write_4bytes v)"
definition rr_set_reportee_ssrc :: "u32 \<Rightarrow> rtcp_rr_packet \<Rightarrow> rtcp_rr_packet" where
  "rr_set_reportee_ssrc v = rr_set 8 (write_4bytes v)"
definition rr_set_fraclost :: "u8 \<Rightarrow> rtcp_rr_packet \<Rightarrow> rtcp_rr_packet" where
  "rr_set_fraclost v = rr_set 12 [v]"
definition rr_set_cumulative_lost :: "u32 \<Rightarrow> rtcp_rr_packet \<Rightarrow> rtcp_rr_packet" where
  "rr_set_cumulative_lost v = rr_set 13 (write_3bytes v)"
definition rr_set_highest_seq :: "u32 \<Rightarrow> rtcp_rr_packet \<Rightarrow> rtcp_rr_packet" where
  "rr_set_highest_seq v = rr_set 16 (write_4bytes v)"
definition rr_set_jitter :: "u32 \<Rightarrow> rtcp_rr_packet \<Rightarrow> rtcp_rr_packet" where
  "rr_set_jitter v = rr_set 20 (write_4bytes v)"
definition rr_set_lsr :: "u32 \<Rightarrow> rtcp_rr_packet \<Rightarrow> rtcp_rr_packet" where
  "rr_set_lsr v = rr_set 24 (write_4bytes v)"
definition rr_set_dlsr :: "u32 \<Rightarrow> rtcp_rr_packet \<Rightarrow> rtcp_rr_packet" where
  "rr_set_dlsr v = rr_set 28 (write_4bytes v)"

definition rr_get_reporter_ssrc :: "rtcp_rr_packet \<Rightarrow> u32" where "rr_get_reporter_ssrc p = be32 4 (rr_data p)"
definition rr_get_reportee_ssrc :: "rtcp_rr_packet \<Rightarrow> u32" where "rr_get_reportee_ssrc p = be32 8 (rr_data p)"
definition rr_get_fraclost :: "rtcp_rr_packet \<Rightarrow> u8" where "rr_get_fraclost p = rr_data p ! 12"
definition rr_get_cumulative_lost :: "rtcp_rr_packet \<Rightarrow> u32" where
  "rr_get_cumulative_lost p = from_mem [rr_data p ! 15, rr_data p ! 14, rr_data p ! 13, 0]"
definition rr_get_highest_seq :: "rtcp_rr_packet \<Rightarrow> u32" where "rr_get_highest_seq p = be32 16 (rr_data p)"
definition rr_get_jitter :: "rtcp_rr_packet \<Rightarrow> u32" where "rr_get_jitter p = be32 20 (rr_data p)"
definition rr_get_lsr :: "rtcp_rr_packet \<Rightarrow> u32" where "rr_get_lsr p = be32 24 (rr_data p)"
definition rr_get_dlsr :: "rtcp_rr_packet \<Rightarrow> u32" where "rr_get_dlsr p = be32 28 (rr_data p)"

text \<open>\<open>get_data\<close> fills in the header; the length field is \<open>(uint32_t)htonl(data_len/4) - 1\<close> cut to 16 bits.\<close>

definition rr_get_data :: "rtcp_rr_packet \<Rightarrow> bytes" where
  "rr_get_data p = put 0 (rtcp_header 0 RTCP_RR (ucast (htonl (32 div 4) - 1))) (rr_data p)"

definition rr_parse :: "bytes \<Rightarrow> nat \<Rightarrow> rtcp_rr_packet cxx" where
  "rr_parse mem len =
     (if len \<noteq> 32 then Inl (Throw ''rtcp sr len error'')
      else cxx_bind (mem_read mem 0 32) (\<lambda>d. Inr \<lparr>rr_data = d\<rparr>))"

subsection \<open>Picture loss indication\<close>

record rtcp_pspli =
  pli_data :: bytes

definition new_rtcp_pspli :: rtcp_pspli where
  "new_rtcp_pspli = \<lparr>pli_data = rtcp_header FB_PS_PLI RTCP_PSFB (htons 2) @ replicate 8 0\<rparr>"

definition pli_set_sender_ssrc :: "u32 \<Rightarrow> rtcp_pspli \<Rightarrow> rtcp_pspli" where
  "pli_set_sender_ssrc v p = p\<lparr>pli_data := put 4 (write_4bytes v) (pli_data p)\<rparr>"
definition pli_set_media_ssrc :: "u32 \<Rightarrow> rtcp_pspli \<Rightarrow> rtcp_pspli" where
  "pli_set_media_ssrc v p = p\<lparr>pli_data := put 8 (write_4bytes v) (pli_data p)\<rparr>"
definition pli_get_sender_ssrc :: "rtcp_pspli \<Rightarrow> u32" where "pli_get_sender_ssrc p = be32 4 (pli_data p)"
definition pli_get_media_ssrc :: "rtcp_pspli \<Rightarrow> u32" where "pli_get_media_ssrc p = be32 8 (pli_data p)"

definition pli_parse :: "bytes \<Rightarrow> nat \<Rightarrow> rtcp_pspli option cxx" where
  "pli_parse mem len =
     (if len \<noteq> 12 then Inr None else cxx_bind (mem_read mem 0 12) (\<lambda>d. Inr (Some \<lparr>pli_data = d\<rparr>)))"

subsection \<open>Negative acknowledgement\<close>

text \<open>\<open>nk_data\<close> is what is stored in \<open>data\<close>, so \<open>data_len\<close> is its length; \<open>nk_blocks\<close> are the offsets of \<open>nack_blocks_\<close>.\<close>

record rtcp_fb_nack =
  nk_data :: bytes
  nk_blocks :: "nat list"

definition new_rtcp_fb_nack :: "u32 \<Rightarrow> u32 \<Rightarrow> rtcp_fb_nack" where
  "new_rtcp_fb_nack sender_ssrc media_ssrc =
     \<lparr>nk_data = rtcp_header FB_RTP_NACK RTCP_RTPFB (htons (12 div 4) - 1) @ write_4bytes sender_ssrc @ write_4bytes media_ssrc,
      nk_blocks = []\<rparr>"

definition nk_get_sender_ssrc :: "rtcp_fb_nack \<Rightarrow> u32" where "nk_get_sender_ssrc n = be32 4 (nk_data n)"
definition nk_get_media_ssrc :: "rtcp_fb_nack \<Rightarrow> u32" where "nk_get_media_ssrc n = be32 8 (nk_data n)"

text \<open>\<open>bitmap |= 1 << (16 - (temp_seq - packet_id))\<close> over the numbers after the first: an \<open>int\<close> shift.\<close>

fun block_bitmap :: "u16 \<Rightarrow> u16 list \<Rightarrow> u16 \<Rightarrow> u16 cxx" where
  "block_bitmap packet_id [] bitmap = Inr bitmap"
| "block_bitmap packet_id (temp_seq # seqs) bitmap =
     (let n = 16 - (uint temp_seq - uint packet_id) in
      if n < 0 \<or> 32 \<le> n then Inl NegShift
      else block_bitmap packet_id seqs (bitmap OR ucast (push_bit (nat n) 1 :: u32)))"

fun insert_block :: "u16 list \<Rightarrow> rtcp_fb_nack \<Rightarrow> rtcp_fb_nack cxx" where
  "insert_block [] n = Inl OutOfBounds"
| "insert_block (packet_id # seqs) n =
     cxx_bind (block_bitmap packet_id seqs 0) (\<lambda>bitmap.
     if length (nk_data n) + 4 > 1500 then Inl OutOfBounds
     else
       let data = nk_data n @ write_2bytes packet_id @ write_2bytes bitmap in
       Inr (n\<lparr>nk_data := put 2 (write_2bytes (of_nat (length data div 4 - 1))) data,
              nk_blocks := nk_blocks n @ [length (nk_data n)]\<rparr>))"

fun insert_seqs :: "u16 list \<Rightarrow> u16 list \<Rightarrow> rtcp_fb_nack \<Rightarrow> rtcp_fb_nack cxx" where
  "insert_seqs report_seqs [] n = (if report_seqs = [] then Inr n else insert_block report_seqs n)"
| "insert_seqs report_seqs (lost_seq # seq_vec) n =
     (let report_seqs' = report_seqs @ [lost_seq] in
      if uint lost_seq - uint (hd report_seqs') > 16
      then cxx_bind (insert_block report_seqs' n) (insert_seqs [] seq_vec)
      else insert_seqs report_seqs' seq_vec n)"

definition insert_seq_list :: "u16 list \<Rightarrow> rtcp_fb_nack \<Rightarrow> rtcp_fb_nack cxx" where
  "insert_seq_list seq_vec n = insert_seqs [] seq_vec n"

text \<open>The numbers of one block, and of all blocks; a block beyond the stored bytes was never written.\<close>

definition block_seqs :: "u16 \<Rightarrow> u16 \<Rightarrow> u16 list" where
  "block_seqs seq_base bit_mask =
     seq_base # map (\<lambda>i. seq_base + of_nat i + 1) (filter (\<lambda>i. drop_bit (15 - i) bit_mask AND 0x01 \<noteq> 0) [0..<16])"

fun lost_seqs_of :: "bytes \<Rightarrow> nat list \<Rightarrow> u16 list cxx" where
  "lost_seqs_of d [] = Inr []"
| "lost_seqs_of d (b # bs) =
     (if length d < b + 4 then Inl UninitRead
      else cxx_bind (lost_seqs_of d bs) (\<lambda>seqs. Inr (block_seqs (be16 b d) (be16 (b + 2) d) @ seqs)))"

definition get_lost_seqs :: "rtcp_fb_nack \<Rightarrow> u16 list cxx" where
  "get_lost_seqs n = lost_seqs_of (nk_data n) (nk_blocks n)"

text \<open>\<open>parse\<close> with \<open>update_data\<close>: a null pointer is \<open>None\<close>.\<close>

definition nack_parse :: "bytes \<Rightarrow> nat \<Rightarrow> rtcp_fb_nack option cxx" where
  "nack_parse mem len =
     (if len \<le> 12 then Inr None
      else
        cxx_bind (mem_read mem 0 len) (\<lambda>d.
        if 1500 < len then Inl OutOfBounds
        else Inr (Some \<lparr>nk_data = d, nk_blocks = map (\<lambda>i. 12 + 4 * i) [0..<(len - 12 + 3) div 4]\<rparr>)))"

subsection \<open>One block\<close>

text \<open>The distances of the later numbers from the first, and a bitmap with the bits of a set of distances.\<close>

definition dists :: "u16 \<Rightarrow> u16 list \<Rightarrow> nat list" where
  "dists b seqs = map (\<lambda>t. unat t - unat b) seqs"

lemma bit_shifted_one: "bit (ucast (push_bit n 1 :: u32) :: u16) k \<longleftrightarrow> k = n \<and> n < 16"
  by (auto simp: bit_simps)

lemma block_bitmap_bits:
  assumes "\<And>t. t \<in> set seqs \<Longrightarrow> b < t \<and> unat t \<le> unat b + 16"
  shows "\<exists>m'. block_bitmap b seqs m = Inr m' \<and> (\<forall>k. bit m' k \<longleftrightarrow> bit m k \<or> k < 16 \<and> 16 - k \<in> set (dists b seqs))"
  using assms
proof (induction seqs arbitrary: m)
  case (Cons t seqs)
  let ?d = "unat t - unat b"
  have t: "b < t" "unat t \<le> unat b + 16" using Cons.prems by simp_all
  then have d: "1 \<le> ?d" "?d \<le> 16" by (auto simp: word_less_nat_alt)
  have n: "16 - (uint t - uint b) = int (16 - ?d)" using t d by (simp add: uint_int word_less_nat_alt of_nat_diff del: of_nat_unat)
  let ?m = "m OR ucast (push_bit (16 - ?d) 1 :: u32)"
  obtain m' where m': "block_bitmap b seqs ?m = Inr m'" "\<And>k. bit m' k \<longleftrightarrow> bit ?m k \<or> k < 16 \<and> 16 - k \<in> set (dists b seqs)"
    using Cons.IH [of ?m] Cons.prems by auto
  have "bit ?m k \<longleftrightarrow> bit m k \<or> k < 16 \<and> 16 - k = ?d" for k
    unfolding bit_or_iff bit_shifted_one using d by auto
  then show ?case using m' n by (auto simp: dists_def Let_def)
qed (simp add: dists_def)

lemma filter_upt_strict:
  assumes "sorted_wrt (<) ds" "set ds \<subseteq> {1..n}" shows "filter (\<lambda>i. i + 1 \<in> set ds) [0..<n] = map (\<lambda>d. d - 1) ds"
proof (rule sorted_distinct_set_unique)
  have ds: "1 \<le> d \<and> d \<le> n" if "d \<in> set ds" for d using assms(2) that by auto
  show "set (filter (\<lambda>i. i + 1 \<in> set ds) [0..<n]) = set (map (\<lambda>d. d - 1) ds)"
    using ds by (force simp: image_iff)
  show "sorted (map (\<lambda>d. d - 1) ds)" "distinct (map (\<lambda>d. d - 1) ds)"
  proof -
    have "sorted_wrt (<) (map (\<lambda>d. d - 1) ds)"
      unfolding sorted_wrt_map
      by (rule sorted_wrt_mono_rel [OF _ assms(1)]) (use ds in \<open>fastforce intro: diff_less_mono\<close>)
    then show "sorted (map (\<lambda>d. d - 1) ds)" "distinct (map (\<lambda>d. d - 1) ds)" by (simp_all add: strict_sorted_iff)
  qed
qed (auto intro: sorted_wrt_filter)

lemma and_1_bit: "(w AND 0x01 \<noteq> 0) = bit (w :: u16) 0"
  by (simp add: and_one_eq odd_iff_mod_2_eq_one bit_0)

lemma block_seqs_bitmap:
  assumes "sorted_wrt (<) (b # seqs)" "\<And>t. t \<in> set seqs \<Longrightarrow> unat t \<le> unat b + 16"
    and "\<And>k. bit m k \<longleftrightarrow> k < 16 \<and> 16 - k \<in> set (dists b seqs)"
  shows "block_seqs b m = b # seqs"
proof -
  let ?ds = "dists b seqs"
  have t: "unat b < unat t" if "t \<in> set seqs" for t using assms(1) that by (auto simp: word_less_nat_alt)
  have "sorted_wrt (<) ?ds"
    unfolding dists_def sorted_wrt_map
    by (rule sorted_wrt_mono_rel [of _ "(<)"]) (use assms(1) t in \<open>fastforce simp: word_less_nat_alt intro: diff_less_mono\<close>)+
  moreover have "set ?ds \<subseteq> {1..16}" using t assms(2) by (fastforce simp: dists_def)
  ultimately have f: "filter (\<lambda>i. i + 1 \<in> set ?ds) [0..<16] = map (\<lambda>d. d - 1) ?ds" by (rule filter_upt_strict)
  have "(drop_bit (15 - i) m AND 0x01 \<noteq> 0) = (i + 1 \<in> set ?ds)" if "i \<in> set [0..<16]" for i
  proof -
    have "16 - (15 - i) = i + 1" using that by auto
    then show ?thesis using assms(3) [of "15 - i"] that unfolding and_1_bit by (auto simp: bit_drop_bit_eq)
  qed
  then have "filter (\<lambda>i. drop_bit (15 - i) m AND 0x01 \<noteq> 0) [0..<16] = map (\<lambda>d. d - 1) ?ds"
    using f filter_cong [of "[0..<16]" "[0..<16]" "\<lambda>i. drop_bit (15 - i) m AND 0x01 \<noteq> 0" "\<lambda>i. i + 1 \<in> set ?ds"] by auto
  moreover have "b + of_nat (unat t - unat b - 1) + 1 = t" if "t \<in> set seqs" for t
  proof -
    have "b + of_nat (unat t - unat b - 1) + 1 = of_nat (unat b + (unat t - unat b - 1) + 1)" by (simp del: of_nat_diff)
    also have "unat b + (unat t - unat b - 1) + 1 = unat t" using t [OF that] by simp
    finally show ?thesis by simp
  qed
  ultimately show ?thesis by (simp add: block_seqs_def dists_def map_idI)
qed


subsection \<open>The packet\<close>

lemma insert_seqs_near:
  assumes "report \<noteq> []" "\<And>t. t \<in> set seqs \<Longrightarrow> unat t \<le> unat (hd report) + 16"
  shows "insert_seqs report seqs n = insert_block (report @ seqs) n"
  using assms
proof (induction seqs arbitrary: report)
  case (Cons t seqs)
  then have "unat t \<le> unat (hd report) + 16" by simp
  then have "\<not> uint t - uint (hd (report @ [t])) > 16" using Cons.prems(1) by (simp add: uint_int del: of_nat_unat)
  with Cons show ?case by (simp add: Let_def)
qed simp

lemma insert_seqs_wide:
  assumes "report \<noteq> []" "\<exists>t \<in> set seqs. unat (hd report) + 16 < unat t"
  shows "insert_seqs report seqs n = Inl NegShift"
  using assms
proof (induction seqs arbitrary: report)
  case (Cons t seqs)
  obtain b r where r: "report = b # r" using Cons.prems(1) by (cases report) auto
  show ?case
  proof (cases "unat b + 16 < unat t")
    case True
    then have w: "uint t - uint b > 16" by (simp add: uint_int del: of_nat_unat)
    then have "block_bitmap b (r @ [t]) m = Inl NegShift" for m by (induction r arbitrary: m) (auto simp: Let_def)
    with w r show ?thesis by (simp add: Let_def)
  next
    case False
    then have "\<not> uint t - uint b > 16" by (simp add: uint_int del: of_nat_unat)
    with Cons r False show ?thesis by (auto simp: Let_def)
  qed
qed simp

lemma strict_le_last: "sorted_wrt (<) xs \<Longrightarrow> t \<in> set xs \<Longrightarrow> t \<le> last (xs :: 'a::linorder list)"
  by (induction xs) (auto simp: less_imp_le)

lemma be32_after: "be32 (length h) (h @ write_4bytes v @ r) = v"
proof -
  have "read_4bytes (drop (length h) (h @ write_4bytes v @ r)) = Inr (be32 (length h) (h @ write_4bytes v @ r))"
    by (rule read_be32) simp
  then show ?thesis by (simp add: codec_simps)
qed

lemma be_at: "length h = i \<Longrightarrow> be16 i (h @ write_2bytes w @ r) = w" "length h = i \<Longrightarrow> be32 i (h @ write_4bytes v @ r) = v"
  using be16_after [of h w r] be32_after [of h v r] by auto

text \<open>A packet with one block.\<close>

definition one_block :: "u32 \<Rightarrow> u32 \<Rightarrow> u16 \<Rightarrow> u16 \<Rightarrow> bytes" where
  "one_block sender media b m = [0x81, RTCP_RTPFB] @ write_2bytes 3 @ write_4bytes sender @ write_4bytes media @ write_2bytes b @ write_2bytes m"

lemma one_block_fields:
  "length (one_block s m b w) = 16" "be32 4 (one_block s m b w) = s" "be32 8 (one_block s m b w) = m"
  "be16 12 (one_block s m b w) = b" "be16 14 (one_block s m b w) = w"
  using be_at(2) [of "[0x81, RTCP_RTPFB] @ write_2bytes 3" 4 s]
    be_at(2) [of "[0x81, RTCP_RTPFB] @ write_2bytes 3 @ write_4bytes s" 8 m]
    be_at(1) [of "[0x81, RTCP_RTPFB] @ write_2bytes 3 @ write_4bytes s @ write_4bytes m" 12 b]
    be_at(1) [of "[0x81, RTCP_RTPFB] @ write_2bytes 3 @ write_4bytes s @ write_4bytes m @ write_2bytes b" 14 w "[]"]
  by (simp_all add: one_block_def)

lemma insert_block_one:
  "block_bitmap b seqs 0 = Inr m \<Longrightarrow> insert_block (b # seqs) (new_rtcp_fb_nack s md) = Inr \<lparr>nk_data = one_block s md b m, nk_blocks = [12]\<rparr>"
  by (simp add: new_rtcp_fb_nack_def rtcp_header_def one_block_def put_def FB_RTP_NACK_def)

text \<open>
  C21. A negative acknowledgement survives the network: for numbers in increasing order that span at
  most 16, building the packet, parsing its bytes (whatever follows them in the receive buffer) and
  \<open>get_lost_seqs\<close> give these numbers and the media SSRC back; the packet is 16 bytes long.
\<close>

theorem nack_packet_round_trip:
  assumes "sorted_wrt (<) (b # seqs)" "unat (last (b # seqs)) \<le> unat b + 16"
  shows "\<exists>n n'. insert_seq_list (b # seqs) (new_rtcp_fb_nack sender media) = Inr n \<and> length (nk_data n) = 16 \<and>
    nack_parse (nk_data n @ rest) (length (nk_data n)) = Inr (Some n') \<and>
    get_lost_seqs n' = Inr (b # seqs) \<and> nk_get_media_ssrc n' = media \<and> nk_get_sender_ssrc n' = sender"
proof -
  have near: "unat t \<le> unat b + 16" if "t \<in> set seqs" for t
  proof -
    have "t \<le> last (b # seqs)"
      using strict_le_last [OF assms(1)] that by simp
    with assms(2) show ?thesis by (simp add: word_le_nat_alt)
  qed
  obtain m where m: "block_bitmap b seqs 0 = Inr m" "\<And>k. bit m k \<longleftrightarrow> k < 16 \<and> 16 - k \<in> set (dists b seqs)"
    using block_bitmap_bits [of seqs b 0] near assms(1) by auto
  let ?n = "\<lparr>nk_data = one_block sender media b m, nk_blocks = [12]\<rparr>"
  have "insert_seq_list (b # seqs) (new_rtcp_fb_nack sender media) = Inr ?n"
    using insert_seqs_near [of "[b]" seqs] near insert_block_one [OF m(1)] by (simp add: insert_seq_list_def Let_def)
  moreover have "nack_parse (one_block sender media b m @ rest) 16 = Inr (Some ?n)"
    using one_block_fields(1) [of sender media b m] by (simp add: nack_parse_def mem_read_def)
  moreover have "get_lost_seqs ?n = Inr (b # seqs)"
    using block_seqs_bitmap [OF assms(1) near m(2)] one_block_fields [of sender media b m] by (simp add: get_lost_seqs_def)
  ultimately show ?thesis
    using one_block_fields [of sender media b m] by (simp add: nk_get_media_ssrc_def nk_get_sender_ssrc_def)
qed

theorem nack_packet_round_trip_witness:
  "\<exists>n n'. insert_seq_list [10, 12, 26] (new_rtcp_fb_nack 1 7) = Inr n \<and> length (nk_data n) = 16 \<and>
    nack_parse (nk_data n @ []) (length (nk_data n)) = Inr (Some n') \<and>
    get_lost_seqs n' = Inr [10, 12, 26] \<and> nk_get_media_ssrc n' = 7 \<and> nk_get_sender_ssrc n' = 1"
  by (rule nack_packet_round_trip) simp_all

text \<open>
  Acknowledging numbers that span more than 16 is undefined behaviour: for every list
  whose last number is more than 16 above the first, \<open>insert_seq_list\<close> shifts by a negative amount,
  because the number that is too far is put into the block before the block is closed.
\<close>

theorem nack_wide_span_undefined:
  assumes "unat b + 16 < unat (last (b # seqs))"
  shows "insert_seq_list (b # seqs) n = Inl NegShift"
proof -
  have "seqs \<noteq> []" using assms by auto
  then have "last (b # seqs) \<in> set seqs" by simp
  then show ?thesis using insert_seqs_wide [of "[b]" seqs n] assms by (auto simp: insert_seq_list_def Let_def)
qed

theorem nack_wide_span_undefined_witness: "insert_seq_list [10, 30] (new_rtcp_fb_nack 1 7) = Inl NegShift"
  by (rule nack_wide_span_undefined) simp_all

text \<open>
  RFC 4585 numbers the bits of the bitmap from the least significant one, for the number after the
  first. Read that way, a lost number at distance \<open>d\<close> is announced at distance \<open>17 - d\<close>.
\<close>

definition rfc4585_seqs :: "u16 \<Rightarrow> u16 \<Rightarrow> u16 list" where
  "rfc4585_seqs pid blp = pid # map (\<lambda>i. pid + of_nat i + 1) (filter (bit blp) [0..<16])"

lemma nack_bitmap_mirrored:
  assumes "1 \<le> d" "d \<le> 16" "unat b + d < 65536"
  shows "\<exists>m. block_bitmap b [b + of_nat d] 0 = Inr m \<and> rfc4585_seqs b m = [b, b + of_nat (17 - d)]"
proof -
  have u: "unat (b + of_nat d) = unat b + d" using assms by (simp add: unat_word_ariths unat_of_nat)
  then obtain m where m: "block_bitmap b [b + of_nat d] 0 = Inr m" "\<And>k. bit m k \<longleftrightarrow> k < 16 \<and> 16 - k = d"
    using block_bitmap_bits [of "[b + of_nat d]" b 0] assms by (auto simp: word_less_nat_alt dists_def)
  have "bit m k = (k = 16 - d)" if "k < 16" for k
    using m(2) [of k] that assms(1,2) by (cases "k = 16 - d") auto
  then have "filter (bit m) [0..<16] = filter (\<lambda>k. k = 16 - d) [0..<16]" by (intro filter_cong) auto
  also have "\<dots> = [16 - d]"
    using assms(1) by (intro sorted_distinct_set_unique) (auto intro: sorted_wrt_filter)
  finally show ?thesis using m(1) assms by (auto simp: rfc4585_seqs_def of_nat_diff)
qed

subsection \<open>Reports\<close>

lemma sr_layout:
  "sr_data (sr_set_bytes_count bc (sr_set_pkt_count pc (sr_set_rtp_timestamp ts (sr_set_ntp sec frac (sr_set_ssrc ssrc new_rtcp_sr_packet))))) =
     rtcp_header 0 RTCP_SR (htons 6) @ write_4bytes ssrc @ write_4bytes sec @ write_4bytes frac @ write_4bytes ts @ write_4bytes pc @ write_4bytes bc"
  by (simp add: sr_set_bytes_count_def sr_set_pkt_count_def sr_set_rtp_timestamp_def sr_set_ntp_def sr_set_ssrc_def new_rtcp_sr_packet_def
      put_def rtcp_header_def)

lemma rr_layout:
  "rr_get_data (rr_set_dlsr dl (rr_set_lsr ls (rr_set_jitter j (rr_set_highest_seq hs (rr_set_cumulative_lost cl
      (rr_set_fraclost fl (rr_set_reportee_ssrc s2 (rr_set_reporter_ssrc s1 new_rtcp_rr_packet)))))))) =
     rtcp_header 0 RTCP_RR (ucast (htonl (32 div 4) - 1)) @ write_4bytes s1 @ write_4bytes s2 @ [fl] @ write_3bytes cl @
     write_4bytes hs @ write_4bytes j @ write_4bytes ls @ write_4bytes dl"
  by (simp add: rr_set_dlsr_def rr_set_lsr_def rr_set_jitter_def rr_set_highest_seq_def rr_set_cumulative_lost_def rr_set_fraclost_def
      rr_set_reportee_ssrc_def rr_set_reporter_ssrc_def new_rtcp_rr_packet_def rr_set_def rr_get_data_def put_def rtcp_header_def)

lemma length_rtcp_header [simp]: "length (rtcp_header c t l) = 4"
  by (simp add: rtcp_header_def)


lemma to_mem_unfold:
  "to_mem 2 w = [ucast w, ucast (drop_bit 8 w)]"
  "to_mem 4 w = [ucast w, ucast (drop_bit 8 w), ucast (drop_bit 8 (drop_bit 8 w)), ucast (drop_bit 8 (drop_bit 8 (drop_bit 8 w)))]"
proof -
  have "to_mem (Suc (Suc 0)) w = [ucast w, ucast (drop_bit 8 w)]"
    "to_mem (Suc (Suc (Suc (Suc 0)))) w = [ucast w, ucast (drop_bit 8 w), ucast (drop_bit 8 (drop_bit 8 w)), ucast (drop_bit 8 (drop_bit 8 (drop_bit 8 w)))]"
    by (simp_all only: to_mem.simps)
  then show "to_mem 2 w = [ucast w, ucast (drop_bit 8 w)]"
    "to_mem 4 w = [ucast w, ucast (drop_bit 8 w), ucast (drop_bit 8 (drop_bit 8 w)), ucast (drop_bit 8 (drop_bit 8 (drop_bit 8 w)))]"
    by (simp_all only: eval_nat_numeral BitM.simps)
qed

lemma rr_length_bytes: "to_mem 2 (ucast (htonl 8 - 1) :: u16) = [0xFF, 0xFF]"
proof -
  have "to_mem 4 (8 :: u32) = [8, 0, 0, 0]" by (simp add: to_mem_unfold)
  then have "htonl 8 = 0x8000000" by (simp add: htonl_def write_4bytes_def from_mem.simps Let_def)
  then show ?thesis by (simp add: to_mem_unfold)
qed

text \<open>
  C35. Reports survive the network: parsing the bytes of a sender report or a receiver report (whatever
  follows them in the receive buffer) gives back every field that was set; of the cumulative number
  of lost packets the low 24 bits.
\<close>

theorem rtcp_report_round_trip:
  "(\<exists>p. sr_parse (sr_data (sr_set_bytes_count bc (sr_set_pkt_count pc (sr_set_rtp_timestamp ts (sr_set_ntp sec frac
        (sr_set_ssrc ssrc new_rtcp_sr_packet))))) @ rest) 28 = Inr p \<and>
      sr_get_ssrc p = ssrc \<and> sr_get_ntp_sec p = sec \<and> sr_get_ntp_frac p = frac \<and> sr_get_rtp_timestamp p = ts \<and>
      sr_get_pkt_count p = pc \<and> sr_get_bytes_count p = bc) \<and>
   (\<exists>p. rr_parse (rr_get_data (rr_set_dlsr dl (rr_set_lsr ls (rr_set_jitter j (rr_set_highest_seq hs (rr_set_cumulative_lost cl
        (rr_set_fraclost fl (rr_set_reportee_ssrc s2 (rr_set_reporter_ssrc s1 new_rtcp_rr_packet)))))))) @ rest) 32 = Inr p \<and>
      rr_get_reporter_ssrc p = s1 \<and> rr_get_reportee_ssrc p = s2 \<and> rr_get_fraclost p = fl \<and>
      rr_get_cumulative_lost p = take_bit 24 cl \<and> rr_get_highest_seq p = hs \<and> rr_get_jitter p = j \<and>
      rr_get_lsr p = ls \<and> rr_get_dlsr p = dl)"
proof
  let ?h = "rtcp_header 0 RTCP_SR (htons 6)"
  let ?d = "?h @ write_4bytes ssrc @ write_4bytes sec @ write_4bytes frac @ write_4bytes ts @ write_4bytes pc @ write_4bytes bc"
  have "be32 4 ?d = ssrc" "be32 8 ?d = sec" "be32 12 ?d = frac" "be32 16 ?d = ts" "be32 20 ?d = pc" "be32 24 ?d = bc"
    using be_at(2) [of ?h 4] be_at(2) [of "?h @ write_4bytes ssrc" 8] be_at(2) [of "?h @ write_4bytes ssrc @ write_4bytes sec" 12]
      be_at(2) [of "?h @ write_4bytes ssrc @ write_4bytes sec @ write_4bytes frac" 16]
      be_at(2) [of "?h @ write_4bytes ssrc @ write_4bytes sec @ write_4bytes frac @ write_4bytes ts" 20]
      be_at(2) [of "?h @ write_4bytes ssrc @ write_4bytes sec @ write_4bytes frac @ write_4bytes ts @ write_4bytes pc" 24 bc "[]"]
    by simp_all
  then show "\<exists>p. sr_parse (sr_data (sr_set_bytes_count bc (sr_set_pkt_count pc (sr_set_rtp_timestamp ts (sr_set_ntp sec frac
        (sr_set_ssrc ssrc new_rtcp_sr_packet))))) @ rest) 28 = Inr p \<and>
      sr_get_ssrc p = ssrc \<and> sr_get_ntp_sec p = sec \<and> sr_get_ntp_frac p = frac \<and> sr_get_rtp_timestamp p = ts \<and>
      sr_get_pkt_count p = pc \<and> sr_get_bytes_count p = bc"
    unfolding sr_layout by (simp add: sr_parse_def mem_read_def sr_get_ssrc_def sr_get_ntp_sec_def sr_get_ntp_frac_def
      sr_get_rtp_timestamp_def sr_get_pkt_count_def sr_get_bytes_count_def)
next
  let ?h = "rtcp_header 0 RTCP_RR (ucast (htonl (32 div 4) - 1))"
  let ?d = "?h @ write_4bytes s1 @ write_4bytes s2 @ [fl] @ write_3bytes cl @ write_4bytes hs @ write_4bytes j @ write_4bytes ls @ write_4bytes dl"
  have "be32 4 ?d = s1" "be32 8 ?d = s2" "be32 16 ?d = hs" "be32 20 ?d = j" "be32 24 ?d = ls" "be32 28 ?d = dl"
    using be_at(2) [of ?h 4] be_at(2) [of "?h @ write_4bytes s1" 8]
      be_at(2) [of "?h @ write_4bytes s1 @ write_4bytes s2 @ [fl] @ write_3bytes cl" 16]
      be_at(2) [of "?h @ write_4bytes s1 @ write_4bytes s2 @ [fl] @ write_3bytes cl @ write_4bytes hs" 20]
      be_at(2) [of "?h @ write_4bytes s1 @ write_4bytes s2 @ [fl] @ write_3bytes cl @ write_4bytes hs @ write_4bytes j" 24]
      be_at(2) [of "?h @ write_4bytes s1 @ write_4bytes s2 @ [fl] @ write_3bytes cl @ write_4bytes hs @ write_4bytes j @ write_4bytes ls" 28 dl "[]"]
    by simp_all
  moreover have "?d ! 12 = fl" by (simp add: nth_append)
  moreover have "from_mem [?d ! 15, ?d ! 14, ?d ! 13, 0] = take_bit 24 cl"
    using read_write_3 [of cl "[]"] by (simp add: nth_append write_3bytes_def Let_def)
  ultimately show "\<exists>p. rr_parse (rr_get_data (rr_set_dlsr dl (rr_set_lsr ls (rr_set_jitter j (rr_set_highest_seq hs (rr_set_cumulative_lost cl
        (rr_set_fraclost fl (rr_set_reportee_ssrc s2 (rr_set_reporter_ssrc s1 new_rtcp_rr_packet)))))))) @ rest) 32 = Inr p \<and>
      rr_get_reporter_ssrc p = s1 \<and> rr_get_reportee_ssrc p = s2 \<and> rr_get_fraclost p = fl \<and>
      rr_get_cumulative_lost p = take_bit 24 cl \<and> rr_get_highest_seq p = hs \<and> rr_get_jitter p = j \<and>
      rr_get_lsr p = ls \<and> rr_get_dlsr p = dl"
    unfolding rr_layout by (simp add: rr_parse_def mem_read_def rr_get_reporter_ssrc_def rr_get_reportee_ssrc_def rr_get_fraclost_def
      rr_get_cumulative_lost_def rr_get_highest_seq_def rr_get_jitter_def rr_get_lsr_def rr_get_dlsr_def)
qed

text \<open>
  The length field of a receiver report is wrong whatever the report says: \<open>htonl\<close> in the place
  of \<open>htons\<close> leaves 65535 in it. The receiving side of this very code takes the report for 65536
  bytes and rejects it.
\<close>

theorem rr_length_field_wrong:
  assumes "length (rr_data p) = 32"
  shows "be16 2 (rr_get_data p) = 65535 \<and> get_rtcp_length (rr_get_data p @ rest) = Inr 65532 \<and>
    rr_parse (rr_get_data p @ rest) (4 + unat (65532 :: u16)) = Inl (Throw ''rtcp sr len error'')"
proof -
  have d: "rr_get_data p = [0x80, RTCP_RR, 0xFF, 0xFF] @ drop 4 (rr_data p)"
    by (simp add: rr_get_data_def rtcp_header_def rr_length_bytes put_def) (simp add: numeral_eq_Suc)
  show ?thesis by (simp add: d be16_def get_rtcp_length_def rr_parse_def from_mem.simps)
qed

theorem rr_length_field_wrong_witness: "be16 2 (rr_get_data new_rtcp_rr_packet) = 65535"
  using rr_length_field_wrong [of new_rtcp_rr_packet] by (simp add: new_rtcp_rr_packet_def)

end
