(* ===== verification/Float64.thy ===== *)
theory Float64
  imports MS_Prelude Complex_Main "HOL-Library.Log_Nat"
begin

text \<open>
  The arithmetic of C++ \<open>double\<close> (IEEE 754 binary64): a finite double is the rational number it
  stands for, and an operation is the exact result rounded to the nearest double, ties to even.
  Overflow to infinity is not modelled: the quantities of the media statistics (milliseconds,
  fractions of a second, packet counts) stay far below \<open>2 ^ 1023\<close>.
\<close>

subsection \<open>Rounding\<close>

text \<open>The binary exponent of a positive rational.\<close>

definition ilog2 :: "rat \<Rightarrow> int" where
  "ilog2 x = (let (p, q) = quotient_of x; k = int (floorlog 2 (nat p)) - int (floorlog 2 (nat q)) in
     if 2 powi k \<le> x then k else k - 1)"

definition round_even :: "rat \<Rightarrow> int" where
  "round_even y = (let n = \<lfloor>y\<rfloor>; f = y - of_int n in
     if f < 1 / 2 then n else if 1 / 2 < f then n + 1 else if even n then n else n + 1)"

text \<open>The weight of the last bit of a double near \<open>x\<close>; the subnormal doubles share the smallest.\<close>

definition dexp :: "rat \<Rightarrow> int" where
  "dexp x = max (ilog2 x - 52) (- 1074)"

definition fl :: "rat \<Rightarrow> rat" where
  "fl x = (if x = 0 then 0 else
     let e = dexp \<bar>x\<bar> in sgn x * (of_int (round_even (\<bar>x\<bar> / 2 powi e)) * 2 powi e))"

text \<open>Conversion to an integer type cuts off the fraction; a value that does not fit has no defined result.\<close>

definition ctrunc :: "rat \<Rightarrow> int" where
  "ctrunc x = (if x < 0 then - \<lfloor>- x\<rfloor> else \<lfloor>x\<rfloor>)"

definition to_unsigned :: "rat \<Rightarrow> 'a::len word cxx" where
  "to_unsigned x = (let n = ctrunc x in if 0 \<le> n \<and> n < 2 ^ LENGTH('a) then Inr (word_of_int n) else Inl BadConv)"

text \<open>\<open>std::round\<close>: to the nearest integer, halves away from zero.\<close>

definition cround :: "rat \<Rightarrow> int" where
  "cround x = (if x < 0 then - \<lfloor>- x + 1 / 2\<rfloor> else \<lfloor>x + 1 / 2\<rfloor>)"

subsection \<open>The error of rounding\<close>

lemma powi_ge_0 [simp]: "0 < (2 :: rat) powi k"
  by simp

lemma floorlog_rat: assumes "0 < n" shows "2 powi (int (floorlog 2 n) - 1) \<le> (of_nat n :: rat)" "(of_nat n :: rat) < 2 powi int (floorlog 2 n)"
proof -
  let ?f = "floorlog 2 n"
  have f: "0 < ?f" using assms by (simp add: floorlog_def)
  have "2 ^ (?f - 1) \<le> n" "n < 2 ^ ?f"
    using floorlog_bounds [of n 2] assms by simp_all
  then have "(2 :: rat) ^ (?f - 1) \<le> of_nat n" "(of_nat n :: rat) < 2 ^ ?f"
    by (metis of_nat_le_iff of_nat_numeral of_nat_power, metis of_nat_less_iff of_nat_numeral of_nat_power)
  moreover have "int ?f - 1 = int (?f - 1)" using f by simp
  ultimately show "2 powi (int ?f - 1) \<le> (of_nat n :: rat)" "(of_nat n :: rat) < 2 powi int ?f"
    by (simp_all add: power_int_of_nat del: of_nat_diff)
qed

lemma ilog2_bounds: assumes "0 < x" shows "2 powi ilog2 x \<le> x" "x < 2 powi (ilog2 x + 1)"
proof -
  obtain p q where pq: "quotient_of x = (p, q)" by (cases "quotient_of x")
  then have q: "0 < q" using quotient_of_denom_pos by blast
  have x: "x = of_int p / of_int q" using quotient_of_div [OF pq] .
  have "0 < p" using assms q x by (simp add: zero_less_divide_iff)
  define a b where "a = int (floorlog 2 (nat p))" and "b = int (floorlog 2 (nat q))"
  have P: "2 powi (a - 1) \<le> (of_int p :: rat)" "(of_int p :: rat) < 2 powi a"
    using floorlog_rat [of "nat p"] \<open>0 < p\<close> by (simp_all add: a_def)
  have Q: "2 powi (b - 1) \<le> (of_int q :: rat)" "(of_int q :: rat) < 2 powi b"
    using floorlog_rat [of "nat q"] q by (simp_all add: b_def)
  have ub: "x < 2 powi (a - b + 1)"
  proof -
    have "x \<le> of_int p / 2 powi (b - 1)" unfolding x using Q \<open>0 < p\<close> q by (intro divide_left_mono) simp_all
    also have "\<dots> < 2 powi a / 2 powi (b - 1)" using P by (intro divide_strict_right_mono) simp_all
    also have "\<dots> = 2 powi (a - b + 1)" by (simp add: power_int_diff [symmetric] algebra_simps)
    finally show ?thesis .
  qed
  have lb: "2 powi (a - b - 1) \<le> x"
  proof -
    have "2 powi (a - b - 1) = 2 powi (a - 1) / (2 powi b :: rat)" by (simp add: power_int_diff [symmetric] algebra_simps)
    also have "\<dots> \<le> 2 powi (a - 1) / of_int q" using Q q by (intro divide_left_mono) simp_all
    also have "\<dots> \<le> x" unfolding x using P q by (intro divide_right_mono) simp_all
    finally show ?thesis .
  qed
  have il: "ilog2 x = (if 2 powi (a - b) \<le> x then a - b else a - b - 1)"
    by (simp add: ilog2_def pq Let_def a_def b_def)
  show "2 powi ilog2 x \<le> x" "x < 2 powi (ilog2 x + 1)"
    using ub lb by (auto simp: il)
qed

lemma round_even_error: "\<bar>of_int (round_even y) - y\<bar> \<le> 1 / 2"
  using floor_correct [of y] by (auto simp: round_even_def Let_def)

lemma round_even_int [simp]: "round_even (of_int n) = n"
  by (simp add: round_even_def)

lemma round_even_nonneg: "0 \<le> y \<Longrightarrow> 0 \<le> round_even y"
  by (auto simp: round_even_def Let_def)

text \<open>A double: at most 53 significant bits.\<close>

definition is_double :: "rat \<Rightarrow> bool" where
  "is_double x \<longleftrightarrow> (\<exists>n k. x = of_int n * 2 powi k \<and> \<bar>n\<bar> \<le> 2 ^ 53 \<and> - 1074 \<le> k)"

lemma fl_neg: "fl (- x) = - fl x"
  by (simp add: fl_def Let_def)

lemma fl_pos: "0 < x \<Longrightarrow> fl x = of_int (round_even (x / 2 powi dexp x)) * 2 powi dexp x"
  by (simp add: fl_def Let_def)

lemma fl_0 [simp]: "fl 0 = 0"
  by (simp add: fl_def)

lemma fl_nonneg: "0 \<le> x \<Longrightarrow> 0 \<le> fl x"
  by (cases "x = 0") (simp_all add: fl_pos Let_def round_even_nonneg)

lemma fl_error:
  assumes "0 < x" "- 1022 \<le> ilog2 x" shows "\<bar>fl x - x\<bar> \<le> x / 2 ^ 53"
proof -
  define s :: rat where "s = 2 powi (ilog2 x - 52)"
  have s: "0 < s" by (simp add: s_def)
  have "dexp x = ilog2 x - 52" using assms(2) unfolding dexp_def by linarith
  then have "fl x = of_int (round_even (x / s)) * s" using assms(1) by (simp add: fl_pos s_def)
  then have "fl x - x = (of_int (round_even (x / s)) - x / s) * s"
    using s by (simp add: field_simps)
  then have "\<bar>fl x - x\<bar> \<le> 1 / 2 * s"
    using mult_right_mono [OF round_even_error [of "x / s"], of s] s by (simp add: abs_mult)
  also have "s = 2 powi ilog2 x / 2 ^ 52"
    by (simp add: s_def power_int_diff)
  then have "1 / 2 * s \<le> x / 2 ^ 53" using ilog2_bounds(1) [OF assms(1)] by simp
  finally show ?thesis .
qed

lemma ilog2_ge: assumes "0 < x" "2 powi k \<le> x" shows "k \<le> ilog2 x"
proof (rule ccontr)
  assume "\<not> k \<le> ilog2 x"
  then have "(2::rat) powi (ilog2 x + 1) \<le> 2 powi k" by (intro power_int_increasing) auto
  with ilog2_bounds(2) [OF assms(1)] assms(2) show False by simp
qed

lemma ilog2_lt: assumes "0 < x" "x < 2 powi k" shows "ilog2 x < k"
proof (rule ccontr)
  assume "\<not> ilog2 x < k"
  then have "(2::rat) powi k \<le> 2 powi ilog2 x" by (intro power_int_increasing) auto
  with ilog2_bounds(1) [OF assms(1)] assms(2) show False by simp
qed

lemma is_double_fl_pos: assumes "0 < x" shows "is_double (fl x)"
proof -
  let ?e = "dexp x"
  have "ilog2 x + 1 \<le> ?e + 53" unfolding dexp_def by linarith
  then have "x < 2 powi (?e + 53)"
    using ilog2_bounds(2) [OF assms] power_int_increasing [of "ilog2 x + 1" "?e + 53" "2::rat"] by simp
  then have "x / 2 powi ?e < 2 ^ 53"
    by (simp add: power_int_add field_simps)
  then have "of_int (round_even (x / 2 powi ?e)) < (2 ^ 53 + 1 :: rat)"
    using round_even_error [of "x / 2 powi ?e"] by linarith
  then have "(of_int (round_even (x / 2 powi ?e)) :: rat) < of_int (2 ^ 53 + 1)" by simp
  then have "round_even (x / 2 powi ?e) \<le> 2 ^ 53" unfolding of_int_less_iff by simp
  moreover have "0 \<le> round_even (x / 2 powi ?e)" using assms by (intro round_even_nonneg) simp
  ultimately have "\<bar>round_even (x / 2 powi ?e)\<bar> \<le> 2 ^ 53" "- 1074 \<le> ?e" by (simp_all add: dexp_def)
  with fl_pos [OF assms] show ?thesis unfolding is_double_def by blast
qed

lemma is_double_uminus: "is_double x \<Longrightarrow> is_double (- x)"
  unfolding is_double_def by (elim exE conjE, rule_tac x = "- n" in exI, rule_tac x = k in exI) simp

lemma is_double_0 [simp]: "is_double 0"
  unfolding is_double_def by (rule exI [of _ 0]) (auto intro: exI [of _ 0])

lemma is_double_fl [simp]: "is_double (fl x)"
  using is_double_fl_pos [of x] is_double_fl_pos [of "- x"] is_double_uminus [of "fl (- x)"]
  by (cases "0 < x"; cases "x = 0") (auto simp: fl_neg)

lemma fl_exact_pos:
  assumes "0 < x" "x = of_int n * 2 powi k" "\<bar>n\<bar> \<le> 2 ^ 53" "- 1074 \<le> k" shows "fl x = x"
proof -
  let ?e = "dexp x"
    obtain m j where mj: "x = of_int m * 2 powi j" "?e \<le> j"
  proof (cases "?e \<le> k")
    case True with assms(2) that show ?thesis by blast
  next
    case False
    then have lt: "k < ilog2 x - 52" using assms(4) unfolding dexp_def by linarith
    then have "2 powi (k + 53) \<le> x" using ilog2_bounds(1) [OF assms(1)] power_int_increasing [of "k + 53" "ilog2 x" "2::rat"] by simp
    then have "(2 ^ 53 :: rat) * 2 powi k \<le> of_int n * 2 powi k"
      by (simp add: assms(2) power_int_add)
    then have "(2 ^ 53 :: rat) \<le> of_int n" by (simp add: mult_le_cancel_right)
    then have "(of_int (2 ^ 53) :: rat) \<le> of_int n" by simp
    then have "n = 2 ^ 53" using assms(3) unfolding of_int_le_iff by simp
    then have x: "x = 2 powi (k + 53)" by (simp add: assms(2) power_int_add)
    then have "ilog2 x < k + 54" by (intro ilog2_lt [OF assms(1)]) (simp add: power_int_strict_increasing)
    with lt assms(4) have "?e \<le> k + 53" unfolding dexp_def by linarith
    with x show ?thesis by (intro that [of 1 "k + 53"]) auto
  qed
  then have "x / 2 powi ?e = of_int (m * 2 ^ nat (j - ?e))"
    using power_int_diff [of "2::rat" j ?e] by (simp add: power_int_of_nat [symmetric])
  then have "round_even (x / 2 powi ?e) = m * 2 ^ nat (j - ?e)" by (metis round_even_int)
  then have "fl x = of_int (m * 2 ^ nat (j - ?e)) * 2 powi ?e"
    using assms(1) by (simp add: fl_pos Let_def)
  also have "\<dots> = x" using \<open>x / 2 powi ?e = _\<close> [symmetric] by simp
  finally show ?thesis .
qed

lemma fl_exact [simp]: assumes "is_double x" shows "fl x = x"
proof -
  obtain n k where nk: "x = of_int n * 2 powi k" "\<bar>n\<bar> \<le> 2 ^ 53" "- 1074 \<le> k"
    using assms by (auto simp: is_double_def)
  consider "0 < x" | "x = 0" | "0 < - x" by linarith
  then show ?thesis
  proof cases
    case 1
    then show ?thesis using fl_exact_pos nk by blast
  next
    case 3
    have "- x = of_int (- n) * 2 powi k" "\<bar>- n\<bar> \<le> 2 ^ 53" using nk by simp_all
    from fl_exact_pos [OF 3 this nk(3)] show ?thesis by (simp add: fl_neg)
  qed simp
qed

lemma is_double_int: "\<bar>n\<bar> \<le> 2 ^ 53 \<Longrightarrow> is_double (of_int n)"
  unfolding is_double_def by (rule exI [of _ n], rule exI [of _ 0]) simp

lemma is_double_scale: "is_double x \<Longrightarrow> is_double (x * 2 ^ j)"
  unfolding is_double_def
  by (elim exE conjE, rule_tac x = n in exI, rule_tac x = "k + int j" in exI) (simp add: power_int_add)

lemma is_double_shrink: "\<bar>n\<bar> \<le> 2 ^ 53 \<Longrightarrow> j \<le> 1074 \<Longrightarrow> is_double (of_int n / 2 ^ j)"
  unfolding is_double_def
  by (rule exI [of _ n], rule exI [of _ "- int j"]) (simp add: power_int_minus divide_inverse)

lemma to_unsigned_ok: "0 \<le> x \<Longrightarrow> x < 2 ^ LENGTH('a) \<Longrightarrow> to_unsigned x = Inr (word_of_int \<lfloor>x\<rfloor> :: 'a::len word)"
  by (auto simp: to_unsigned_def ctrunc_def Let_def floor_less_iff)

end
