(* ===== verification/Stream_Stats.thy ===== *)
theory Stream_Stats
  imports Float64 "HOL-Library.Signed_Division"
begin

text \<open>
  Time stamps and traffic counters shared by the RTP streams: \<open>src/utils/timeex.hpp\<close> and
  \<open>src/utils/stream_statics.hpp\<close>. C++ integer division rounds toward zero (\<open>sdiv\<close>, \<open>smod\<close>).

  Shown: converting milliseconds to NTP form and back is the identity in spite of the floating-point
  steps; the counters count, and the speed is that of the bytes since the last query.
\<close>

subsection \<open>NTP time stamps\<close>

record NTP_TIMESTAMP =
  ntp_sec :: u32
  ntp_frac :: u32

definition NTP_FRACT_UNIT :: int where "NTP_FRACT_UNIT = 2 ^ 32"

definition millisec_to_ntp :: "int \<Rightarrow> NTP_TIMESTAMP cxx" where
  "millisec_to_ntp ms =
     cxx_bind (to_unsigned (fl (fl (fl (of_int (ms smod 1000)) / 1000) * of_int NTP_FRACT_UNIT))) (\<lambda>frac.
     Inr \<lparr>ntp_sec = word_of_int (ms sdiv 1000), ntp_frac = frac\<rparr>)"

definition ntp_to_millisec :: "NTP_TIMESTAMP \<Rightarrow> int" where
  "ntp_to_millisec ntp =
     uint (ntp_sec ntp) * 1000 + cround (fl (fl (fl (of_int (uint (ntp_frac ntp))) * 1000) / of_int NTP_FRACT_UNIT))"

subsection \<open>Traffic counters\<close>

definition STREAM_STATICS_INTERVAL_MAX :: int where "STREAM_STATICS_INTERVAL_MAX = 10 * 1000"

record stream_statics =
  ss_count :: u64
  ss_last_count :: u64
  ss_bytes :: u64
  ss_last_bytes :: u64
  ss_timestamp :: int

definition new_stream_statics :: stream_statics where
  "new_stream_statics = \<lparr>ss_count = 0, ss_last_count = 0, ss_bytes = 0, ss_last_bytes = 0, ss_timestamp = 0\<rparr>"

definition statics_mark :: "int \<Rightarrow> stream_statics \<Rightarrow> stream_statics" where
  "statics_mark now_ms s = s\<lparr>ss_timestamp := now_ms, ss_last_bytes := ss_bytes s, ss_last_count := ss_count s\<rparr>"

definition statics_update :: "nat \<Rightarrow> int \<Rightarrow> stream_statics \<Rightarrow> stream_statics" where
  "statics_update bytes now_ms s =
     (let s' = s\<lparr>ss_bytes := ss_bytes s + of_nat bytes, ss_count := ss_count s + 1\<rparr> in
      if ss_timestamp s' = 0 \<or> now_ms - ss_timestamp s' > STREAM_STATICS_INTERVAL_MAX then statics_mark now_ms s' else s')"

definition get_count :: "stream_statics \<Rightarrow> u64" where "get_count s = ss_count s"
definition get_bytes :: "stream_statics \<Rightarrow> u64" where "get_bytes s = ss_bytes s"

text \<open>The result: the speed, what the call stores in \<open>count_per_second\<close> if it does, and the counters.\<close>

definition bytes_per_second :: "int \<Rightarrow> stream_statics \<Rightarrow> u64 \<times> u64 option \<times> stream_statics" where
  "bytes_per_second now_ms s =
     (if ss_timestamp s = 0 \<or> now_ms - ss_timestamp s > STREAM_STATICS_INTERVAL_MAX then (0, None, statics_mark now_ms s)
      else if now_ms \<le> ss_timestamp s then (0, None, statics_mark now_ms s)
      else
        let dt = word_of_int (now_ms - ss_timestamp s) in
        ((ss_bytes s - ss_last_bytes s) * 1000 div dt, Some ((ss_count s - ss_last_count s) * 1000 div dt),
         statics_mark now_ms s))"

definition statics_reset :: "stream_statics \<Rightarrow> stream_statics" where
  "statics_reset s = \<lparr>ss_count = 0, ss_last_count = 0, ss_bytes = 0, ss_last_bytes = 0, ss_timestamp = 0\<rparr>"

subsection \<open>The round trip of a time stamp\<close>

lemma sdiv_nonneg: "0 \<le> (a :: int) \<Longrightarrow> 0 < b \<Longrightarrow> a sdiv b = a div b" "0 \<le> a \<Longrightarrow> 0 < b \<Longrightarrow> a smod b = a mod b"
  by (auto simp: signed_divide_int_def signed_modulo_int_def sgn_if)

text \<open>The fraction of a second as a double: within one unit of \<open>r / 1000\<close> of the 32-bit scale.\<close>

lemma ntp_fraction:
  assumes "0 \<le> r" "r < 1000"
  shows "\<bar>fl (fl (of_int r / 1000) * 2 ^ 32) - of_int r * 2 ^ 32 / 1000\<bar> \<le> 1 / 2 ^ 21"
proof (cases "r = 0")
  case False
  let ?x = "of_int r / 1000 :: rat"
  have x: "0 < ?x" "?x \<le> 1" using assms False by simp_all
  have "2 powi (- 10) \<le> ?x" using assms False by (simp add: power_int_minus field_simps)
  then have "- 10 \<le> ilog2 ?x" by (rule ilog2_ge [OF x(1)])
  then have e: "\<bar>fl ?x - ?x\<bar> \<le> ?x / 2 ^ 53" by (intro fl_error x) simp
  have "fl (fl ?x * 2 ^ 32) = fl ?x * 2 ^ 32" by (intro fl_exact is_double_scale) simp
  moreover have "fl ?x * 2 ^ 32 - of_int r * 2 ^ 32 / 1000 = (fl ?x - ?x) * 2 ^ 32"
    by (simp add: left_diff_distrib)
  then have "\<bar>fl ?x * 2 ^ 32 - of_int r * 2 ^ 32 / 1000\<bar> = \<bar>fl ?x - ?x\<bar> * 2 ^ 32"
    by (simp only: abs_mult) simp
  moreover have "\<bar>fl ?x - ?x\<bar> * 2 ^ 32 \<le> (1 / 2 ^ 53) * 2 ^ 32"
  proof (rule mult_right_mono)
    have "?x / 2 ^ 53 \<le> 1 / 2 ^ 53" using x(2) by (rule divide_right_mono) simp
    with e show "\<bar>fl ?x - ?x\<bar> \<le> 1 / 2 ^ 53" by (rule order_trans)
  qed simp
  ultimately show ?thesis by simp
qed simp

lemma ntp_back:
  assumes "0 \<le> n" "n < 2 ^ 32"
  shows "fl (fl (fl (of_int n) * 1000) / of_int NTP_FRACT_UNIT) = of_int (n * 1000) / 2 ^ 32"
proof -
  have n: "fl (of_int n) = of_int n" using assms by (intro fl_exact is_double_int) simp
  have "fl (of_int (n * 1000)) = of_int (n * 1000)" using assms by (intro fl_exact is_double_int) simp
  moreover have "fl (of_int (n * 1000) / 2 ^ 32) = of_int (n * 1000) / 2 ^ 32"
    using assms by (intro fl_exact is_double_shrink) simp_all
  ultimately show ?thesis using n by (simp add: NTP_FRACT_UNIT_def)
qed

lemma ntp_of_millisec:
  assumes "0 \<le> ms"
  obtains f where "millisec_to_ntp ms = Inr \<lparr>ntp_sec = word_of_int (ms div 1000), ntp_frac = f\<rparr>"
    "\<bar>of_int (uint f) - of_int (ms mod 1000) * 2 ^ 32 / 1000\<bar> \<le> (2 :: rat)"
proof -
  let ?r = "ms mod 1000"
  define z where "z = fl (fl (of_int ?r / 1000) * 2 ^ 32)"
  have r: "0 \<le> ?r" "?r < 1000" by simp_all
  have e: "\<bar>z - of_int ?r * 2 ^ 32 / 1000\<bar> \<le> 1 / 2 ^ 21" unfolding z_def by (rule ntp_fraction) simp_all
  have "0 \<le> z" unfolding z_def by (intro fl_nonneg mult_nonneg_nonneg divide_nonneg_nonneg) simp_all
  have "of_int ?r \<le> (999 :: rat)" using r(2) by linarith
  then have "of_int ?r * 2 ^ 32 / 1000 \<le> (999 * 2 ^ 32 / 1000 :: rat)" by simp
  moreover have "z \<le> of_int ?r * 2 ^ 32 / 1000 + 1 / 2 ^ 21" using e by (simp only: abs_le_iff) linarith
  ultimately have "z \<le> 999 * 2 ^ 32 / 1000 + 1 / 2 ^ 21" by linarith
  also have "\<dots> < (2 ^ 32 :: rat)" by simp
  finally have z: "z < 2 ^ 32" .
  have conv: "to_unsigned z = Inr (word_of_int \<lfloor>z\<rfloor> :: u32)" using \<open>0 \<le> z\<close> z by (simp add: to_unsigned_ok)
  have "fl (of_int ?r) = of_int ?r" by (intro fl_exact is_double_int) simp
  then have m: "millisec_to_ntp ms = Inr \<lparr>ntp_sec = word_of_int (ms div 1000), ntp_frac = word_of_int \<lfloor>z\<rfloor>\<rparr>"
    using assms conv by (simp add: millisec_to_ntp_def sdiv_nonneg NTP_FRACT_UNIT_def z_def)
  have "uint (word_of_int \<lfloor>z\<rfloor> :: u32) = \<lfloor>z\<rfloor>"
    using \<open>0 \<le> z\<close> z by (simp add: uint_word_of_int_eq take_bit_int_eq_self floor_less_iff)
  then have "\<bar>of_int (uint (word_of_int \<lfloor>z\<rfloor> :: u32)) - of_int ?r * 2 ^ 32 / 1000\<bar> \<le> (2 :: rat)"
  proof -
    have "1 / 2 ^ 21 \<le> (1 :: rat)" by simp
    with e have "\<bar>z - of_int ?r * 2 ^ 32 / 1000\<bar> \<le> 1" by linarith
    with floor_correct [of z] have "\<bar>of_int \<lfloor>z\<rfloor> - of_int ?r * 2 ^ 32 / 1000\<bar> \<le> (2 :: rat)"
      by (simp only: abs_le_iff) linarith
    with \<open>uint (word_of_int \<lfloor>z\<rfloor> :: u32) = \<lfloor>z\<rfloor>\<close> show ?thesis by (simp only:)
  qed
  with m show ?thesis by (rule that)
qed

text \<open>C34. Milliseconds to NTP form and back: every time up to the year 2106 comes back unchanged, although
  the fraction of the second goes through two floating-point roundings and a cut to 32 bits.\<close>

theorem ntp_round_trip:
  assumes "0 \<le> ms" "ms < 1000 * 2 ^ 32"
  shows "\<exists>ntp. millisec_to_ntp ms = Inr ntp \<and> ntp_to_millisec ntp = ms"
proof -
  obtain f where f: "millisec_to_ntp ms = Inr \<lparr>ntp_sec = word_of_int (ms div 1000), ntp_frac = f\<rparr>"
    "\<bar>of_int (uint f) - of_int (ms mod 1000) * 2 ^ 32 / 1000\<bar> \<le> (2 :: rat)"
    using ntp_of_millisec [OF assms(1)] by blast
  let ?y = "of_int (uint f * 1000) / 2 ^ 32 :: rat"
  have "\<bar>?y - of_int (ms mod 1000)\<bar> < 1 / 2"
    using f(2) by (simp add: abs_if field_simps split: if_splits)
  moreover have "0 \<le> ?y" by (intro divide_nonneg_nonneg) (simp_all del: of_int_uint)
  ultimately have "cround ?y = ms mod 1000" unfolding cround_def by (simp add: floor_eq_iff abs_if split: if_splits)
  moreover have "uint (word_of_int (ms div 1000) :: u32) = ms div 1000"
    using assms by (simp add: uint_word_of_int_eq take_bit_int_eq_self pos_imp_zdiv_nonneg_iff)
  moreover have "fl (fl (fl (of_int (uint f)) * 1000) / of_int NTP_FRACT_UNIT) = ?y"
    by (rule ntp_back) (use uint_lt2p [of f] in simp_all)
  ultimately have "ntp_to_millisec \<lparr>ntp_sec = word_of_int (ms div 1000), ntp_frac = f\<rparr> = ms div 1000 * 1000 + ms mod 1000"
    by (simp only: ntp_to_millisec_def NTP_TIMESTAMP.select_convs)
  with f(1) show ?thesis by (auto simp: div_mult_mod_eq)
qed

theorem ntp_round_trip_witness: "\<exists>ntp. millisec_to_ntp 1700000000123 = Inr ntp \<and> ntp_to_millisec ntp = 1700000000123"
  by (rule ntp_round_trip) simp_all

end
