(* ===== verification/Rtp_Send.thy ===== *)
theory Rtp_Send
  imports Rtcp Sorted_Map Stream_Stats
begin

text \<open>
  The sending side of a media stream, \<open>src/net/webrtc/rtp_send_stream.cpp\<close>: it keeps the packets it
  sent, answers retransmission requests from them, follows the round-trip time the receiver reports
  and sends reports of its own. What it passes to \<open>cb_->stream_send_rtp\<close> and \<open>stream_send_rtcp\<close> is part
  of the result of an operation; \<open>now\<close> is the clock \<open>now_millisec()\<close>.

  Shown: the buffer never looks up a packet it has not got; for consecutive packets it is the window
  of the last ones until that window starts at number 0, from then on it is frozen; the guard
  against early retransmission never fires with a wall clock; a packet is retransmitted at most 20
  times; the round-trip time stays between 0 and 150 ms.
\<close>

subsection \<open>State\<close>

definition RTP_VIDEO_BUFFER_MAX :: nat where "RTP_VIDEO_BUFFER_MAX = 800"
definition RTP_AUDIO_BUFFER_MAX :: nat where "RTP_AUDIO_BUFFER_MAX = 100"
definition RTT_DEFAULT :: int where "RTT_DEFAULT = 30"
definition RETRANSMIT_MAX_COUNT :: int where "RETRANSMIT_MAX_COUNT = 20"

record NACK_PACKET =
  np_last_sent_timestamp :: u32
  np_sent_count :: int
  np_packet :: rtp_packet

text \<open>\<open>last_sr_ntp_ts_\<close> is not initialised, so it starts as \<open>None\<close>; a \<open>float\<close> is the rational it stands for.\<close>

record rtp_send_stream =
  rs_media_type :: bytes
  rs_rtp_ssrc :: u32
  rs_rtx_ssrc :: u32
  rs_rtp_payload_type :: u8
  rs_rtx_payload_type :: u8
  rs_clock :: int
  rs_nack_enable :: bool
  rs_rtp_buffer_map :: "(u16 \<times> NACK_PACKET) list"
  rs_first_seq :: u16
  rs_send_statics :: stream_statics
  rs_statics_count :: int
  rs_last_sr_rtp_ts :: u32
  rs_last_sr_ntp_ts :: "NTP_TIMESTAMP option"
  rs_rtt :: int
  rs_avg_rtt :: int
  rs_lost_rate :: rat
  rs_lost_total :: u32
  rs_jitter :: u32

definition new_rtp_send_stream :: "bytes \<Rightarrow> bool \<Rightarrow> rtp_send_stream" where
  "new_rtp_send_stream media_type nack_enable =
     \<lparr>rs_media_type = media_type, rs_rtp_ssrc = 0, rs_rtx_ssrc = 0, rs_rtp_payload_type = 0, rs_rtx_payload_type = 0,
      rs_clock = 0, rs_nack_enable = nack_enable, rs_rtp_buffer_map = [], rs_first_seq = 0,
      rs_send_statics = new_stream_statics, rs_statics_count = 0, rs_last_sr_rtp_ts = 0, rs_last_sr_ntp_ts = None,
      rs_rtt = RTT_DEFAULT, rs_avg_rtt = 0, rs_lost_rate = 0, rs_lost_total = 0, rs_jitter = 0\<rparr>"

definition set_rtp_payload_type :: "u8 \<Rightarrow> rtp_send_stream \<Rightarrow> rtp_send_stream" where
  "set_rtp_payload_type v s = s\<lparr>rs_rtp_payload_type := v\<rparr>"
definition set_rtx_payload_type :: "u8 \<Rightarrow> rtp_send_stream \<Rightarrow> rtp_send_stream" where
  "set_rtx_payload_type v s = s\<lparr>rs_rtx_payload_type := v\<rparr>"
definition set_clock :: "int \<Rightarrow> rtp_send_stream \<Rightarrow> rtp_send_stream" where
  "set_clock v s = s\<lparr>rs_clock := v\<rparr>"
definition set_rtp_ssrc :: "u32 \<Rightarrow> rtp_send_stream \<Rightarrow> rtp_send_stream" where
  "set_rtp_ssrc v s = s\<lparr>rs_rtp_ssrc := v\<rparr>"
definition set_rtx_ssrc :: "u32 \<Rightarrow> rtp_send_stream \<Rightarrow> rtp_send_stream" where
  "set_rtx_ssrc v s = s\<lparr>rs_rtx_ssrc := v\<rparr>"

subsection \<open>The retransmission buffer\<close>

lemma length_delete_lt: "map_of m k = Some v \<Longrightarrow> length (AList.delete k m) < length m"
  by (induction m) (auto simp: AList.delete_eq split: if_splits intro: le_less_trans [OF length_filter_le])

text \<open>The loop that shrinks the map to \<open>buffer_max\<close>: using \<open>find\<close> or \<open>begin()\<close> when it is \<open>end()\<close> is \<open>NullDeref\<close>.\<close>

function evict :: "nat \<Rightarrow> (u16 \<times> 'p) list \<Rightarrow> u16 \<Rightarrow> ((u16 \<times> 'p) list \<times> u16) cxx" where
  "evict buffer_max m first_seq =
     (if length m > buffer_max then
        case map_of m first_seq of
          None \<Rightarrow> Inl NullDeref
        | Some _ \<Rightarrow>
            let m' = AList.delete first_seq m in
            case sm_next first_seq m of
              Some k \<Rightarrow> evict buffer_max m' k
            | None \<Rightarrow> (case m' of [] \<Rightarrow> Inl NullDeref | (k, _) # _ \<Rightarrow> evict buffer_max m' k)
      else Inr (m, first_seq))"
  by pat_completeness auto

termination
  by (relation "measure (\<lambda>(b, m, f). length m)") (auto dest: length_delete_lt)

declare evict.simps [simp del]

definition buffer_max :: "rtp_send_stream \<Rightarrow> nat" where
  "buffer_max s = (if rs_media_type s = lit ''video'' then RTP_VIDEO_BUFFER_MAX else RTP_AUDIO_BUFFER_MAX)"

definition save_buffer :: "int \<Rightarrow> rtp_packet \<Rightarrow> rtp_send_stream \<Rightarrow> rtp_send_stream cxx" where
  "save_buffer now input_pkt s =
     cxx_bind (clone now input_pkt) (\<lambda>pkt.
     let seq = get_seq input_pkt;
         nack_pkt = \<lparr>np_last_sent_timestamp = 0, np_sent_count = 0, np_packet = pkt\<rparr>;
         m = sm_assign seq nack_pkt (AList.delete seq (rs_rtp_buffer_map s));
         first_seq = (if rs_first_seq s = 0 then seq else rs_first_seq s)
     in cxx_bind (evict (buffer_max s) m first_seq) (\<lambda>(m', first_seq').
        Inr (s\<lparr>rs_rtp_buffer_map := m', rs_first_seq := first_seq'\<rparr>)))"

definition on_send_rtp_packet :: "int \<Rightarrow> rtp_packet \<Rightarrow> rtp_send_stream \<Rightarrow> rtp_send_stream cxx" where
  "on_send_rtp_packet now pkt s =
     save_buffer now pkt (s\<lparr>rs_send_statics := statics_update (rp_data_len pkt) (rp_local_ms pkt) (rs_send_statics s)\<rparr>)"

definition clear_buffer :: "rtp_send_stream \<Rightarrow> rtp_send_stream" where
  "clear_buffer s = s\<lparr>rs_rtp_buffer_map := []\<rparr>"

subsection \<open>Retransmission requests\<close>

text \<open>One requested number: what is sent for it, and the entry as it is then.\<close>

definition resend :: "int \<Rightarrow> int \<Rightarrow> NACK_PACKET \<Rightarrow> bytes list \<times> NACK_PACKET" where
  "resend rtt now_ms np =
     (if np_last_sent_timestamp np = 0 then
        ([get_data (np_packet np)], np\<lparr>np_last_sent_timestamp := word_of_int now_ms, np_sent_count := 1\<rparr>)
      else if now_ms - uint (np_last_sent_timestamp np) < rtt - 5 then ([], np)
      else if np_sent_count np + 1 > RETRANSMIT_MAX_COUNT then ([], np\<lparr>np_sent_count := np_sent_count np + 1\<rparr>)
      else ([get_data (np_packet np)], np\<lparr>np_sent_count := np_sent_count np + 1, np_last_sent_timestamp := word_of_int now_ms\<rparr>))"

fun resend_all :: "int \<Rightarrow> int \<Rightarrow> u16 list \<Rightarrow> (u16 \<times> NACK_PACKET) list \<Rightarrow> bytes list \<times> (u16 \<times> NACK_PACKET) list" where
  "resend_all rtt now_ms [] m = ([], m)"
| "resend_all rtt now_ms (seq # lost_seqs) m =
     (case map_of m seq of
        None \<Rightarrow> resend_all rtt now_ms lost_seqs m
      | Some np \<Rightarrow>
          let (sent, np') = resend rtt now_ms np;
              (more, m') = resend_all rtt now_ms lost_seqs (sm_assign seq np' m)
          in (sent @ more, m'))"

definition handle_fb_rtp_nack :: "int \<Rightarrow> rtcp_fb_nack \<Rightarrow> rtp_send_stream \<Rightarrow> (bytes list \<times> rtp_send_stream) cxx" where
  "handle_fb_rtp_nack now_ms nack_pkt s =
     cxx_bind (get_lost_seqs nack_pkt) (\<lambda>lost_seqs.
     let (sent, m) = resend_all (rs_rtt s) now_ms lost_seqs (rs_rtp_buffer_map s)
     in Inr (sent, s\<lparr>rs_rtp_buffer_map := m\<rparr>))"

subsection \<open>Reports\<close>

definition get_rtcp_sr :: "int \<Rightarrow> rtp_send_stream \<Rightarrow> (rtcp_sr_packet \<times> rtp_send_stream) cxx" where
  "get_rtcp_sr now_ms s =
     cxx_bind (millisec_to_ntp now_ms) (\<lambda>ntp.
     let rtp_ts = word_of_int (now_ms sdiv 1000 * rs_clock s);
         sr_pkt = sr_set_bytes_count (ucast (get_bytes (rs_send_statics s)))
           (sr_set_pkt_count (ucast (get_count (rs_send_statics s)))
           (sr_set_rtp_timestamp rtp_ts
           (sr_set_ntp (ntp_sec ntp) (ntp_frac ntp)
           (sr_set_ssrc (rs_rtp_ssrc s) new_rtcp_sr_packet))))
     in Inr (sr_pkt, s\<lparr>rs_last_sr_ntp_ts := Some ntp, rs_last_sr_rtp_ts := rtp_ts\<rparr>))"

text \<open>\<open>dlsr * 1000 / 65536\<close> is 32-bit arithmetic; the difference is stored in an \<open>int\<close>.\<close>

definition to_int32 :: "int \<Rightarrow> int" where
  "to_int32 v = sint (word_of_int v :: u32)"

definition reported_rtt :: "int \<Rightarrow> u32 \<Rightarrow> u32 \<Rightarrow> int cxx" where
  "reported_rtt now_ms lsr dlsr =
     (let lsr_ms = ntp_to_millisec \<lparr>ntp_sec = drop_bit 16 (lsr AND 0xffff0000), ntp_frac = push_bit 16 (lsr AND 0xffff)\<rparr>;
          dlsr_ms = uint (dlsr * 1000 div 65536)
      in cxx_bind (millisec_to_ntp now_ms) (\<lambda>ntp.
         let now_uint32_ms = word_of_int (ntp_to_millisec \<lparr>ntp_sec = ntp_sec ntp AND 0x0000ffff, ntp_frac = ntp_frac ntp AND 0xffff0000\<rparr>) :: u32
         in Inr (to_int32 (uint now_uint32_ms - lsr_ms - dlsr_ms))))"

definition clamp_rtt :: "int \<Rightarrow> int" where
  "clamp_rtt rtt = (let rtt' = (if rtt < 0 then 1 else rtt) in if rtt' > 150 then 150 else rtt')"

definition handle_rtcp_rr :: "int \<Rightarrow> rtcp_rr_packet \<Rightarrow> rtp_send_stream \<Rightarrow> rtp_send_stream cxx" where
  "handle_rtcp_rr now_ms rr_pkt s =
     (let s' = s\<lparr>rs_lost_total := rr_get_cumulative_lost rr_pkt, rs_lost_rate := of_nat (unat (rr_get_fraclost rr_pkt)) / 256,
                 rs_jitter := rr_get_jitter rr_pkt\<rparr>;
          lsr = rr_get_lsr rr_pkt; dlsr = rr_get_dlsr rr_pkt
      in if lsr = 0 then Inr (s'\<lparr>rs_rtt := RTT_DEFAULT\<rparr>)
         else
           cxx_bind (reported_rtt now_ms lsr dlsr) (\<lambda>r.
           let rtt = clamp_rtt r in
           Inr (s'\<lparr>rs_rtt := rtt,
                   rs_avg_rtt := (if rs_avg_rtt s = 0 then rtt else rs_avg_rtt s + (rtt - rs_avg_rtt s) sdiv 16)\<rparr>)))"

text \<open>\<open>on_timer\<close>: the reports it sends; the speed is only logged, but asking for it moves the mark of the counters.\<close>

definition send_on_timer :: "int \<Rightarrow> rtp_send_stream \<Rightarrow> (bytes list \<times> rtp_send_stream) cxx" where
  "send_on_timer now_ms s =
     (let ret = rs_statics_count s + 1;
          s1 = s\<lparr>rs_statics_count := ret\<rparr>;
          s2 = (if ret smod 12 = 0 then s1\<lparr>rs_send_statics := snd (snd (bytes_per_second now_ms (rs_send_statics s1)))\<rparr> else s1)
      in if ret smod 2 = 0
         then cxx_bind (get_rtcp_sr now_ms s2) (\<lambda>(sr_pkt, s3). Inr ([sr_data sr_pkt], s3))
         else Inr ([], s2))"

subsection \<open>The buffer never misses its first packet\<close>

lemma map_le_delete: "map_of (AList.delete k m) \<subseteq>\<^sub>m map_of m"
  by (auto simp: map_le_def map_of_AList_delete)

lemma evict_safe:
  assumes "sm_ok m" "f \<in> fst ` set m" "0 < b"
  shows "\<exists>m' f'. evict b m f = Inr (m', f') \<and> sm_ok m' \<and> f' \<in> fst ` set m' \<and> map_of m' \<subseteq>\<^sub>m map_of m \<and> length m' \<le> b"
  using assms
proof (induction b m f rule: evict.induct)
  case (1 b m f)
  show ?case
  proof (cases "length m > b")
    case False
    then show ?thesis using 1 by (subst evict.simps) auto
  next
    case True
    obtain v where v: "map_of m f = Some v" using "1.prems"(2) map_of_key_iff [of m f] by auto
    let ?m = "AList.delete f m"
    have ok: "sm_ok ?m" using "1.prems" by simp
    have "length ?m + 1 = length m" using length_delete_key [OF sm_ok_distinct [OF "1.prems"(1)] v] .
    then obtain k w r where hd: "?m = (k, w) # r" using True "1.prems"(3) by (cases ?m) auto
    have step: ?thesis if "j \<in> fst ` set ?m" "evict b m f = evict b ?m j"
      and IH: "sm_ok ?m \<Longrightarrow> j \<in> fst ` set ?m \<Longrightarrow> 0 < b \<Longrightarrow> \<exists>m' f'. evict b ?m j = Inr (m', f') \<and> sm_ok m' \<and> f' \<in> fst ` set m' \<and>
        map_of m' \<subseteq>\<^sub>m map_of ?m \<and> length m' \<le> b" for j
      using IH [OF ok that(1) "1.prems"(3)] that(2) map_le_delete map_le_trans by metis
    show ?thesis
    proof (cases "sm_next f m")
      case None
      have mem: "k \<in> fst ` set ?m" by (simp add: hd)
      have "evict b m f = evict b ?m k" using None True v hd by (simp add: evict.simps [of b m f])
      from step [OF mem this "1.IH"(1) [OF True v refl None hd refl]] show ?thesis .
    next
      case (Some j)
      then have mem: "j \<in> fst ` set ?m" using "1.prems"(1) by (auto simp: sm_next_Some keys_delete)
      have "evict b m f = evict b ?m j" using Some True v by (simp add: evict.simps [of b m f])
      from step [OF mem this "1.IH"(2) [OF True v refl Some]] show ?thesis .
    qed
  qed
qed

text \<open>What holds between two operations: the keys are the numbers of the packets they stand for.\<close>

definition sendbuf_ok :: "rtp_send_stream \<Rightarrow> bool" where
  "sendbuf_ok s \<longleftrightarrow> (let m = rs_rtp_buffer_map s in
     sm_ok m \<and> length m \<le> buffer_max s \<and> (if m = [] then rs_first_seq s = 0 else rs_first_seq s \<in> fst ` set m) \<and>
     (\<forall>k np. map_of m k = Some np \<longrightarrow> get_seq (np_packet np) = k))"

lemma buffer_max_pos [simp]: "0 < buffer_max s"
  by (simp add: buffer_max_def RTP_VIDEO_BUFFER_MAX_def RTP_AUDIO_BUFFER_MAX_def)

lemma sendbuf_ok_new: "sendbuf_ok (new_rtp_send_stream mt ne)"
  by (simp add: sendbuf_ok_def new_rtp_send_stream_def)

lemma clone_cases:
  assumes "clone now pkt = Inr q"
  shows "get_data q = get_data pkt" "12 < rp_data_len q" "rp_data_len q = length (get_data pkt)" "rp_data q = get_data pkt"
proof -
  obtain p where p: "rtp_parse now (get_data pkt) = Inr p" "q = p\<lparr>rp_is_clone := True\<rparr>"
    using assms by (auto simp: clone_def cxx_bind_Inr_iff)
  then have ne: "get_data pkt \<noteq> []" by (auto simp: rtp_parse_def mem_at_def)
  have F: "rtp_ok p" "rp_data p = get_data pkt" "rp_data_len p = length (get_data pkt)" "0 < rp_payload_len p"
    by (rule rtp_parse_cases [OF ne, of now]; use p(1) in simp)+
  have "12 \<le> rp_payload p" "rp_payload p + rp_payload_len p \<le> rp_data_len p"
    using F(1) by (auto simp: rtp_ok_def Let_def split: option.splits)
  with F(4) have "12 < rp_data_len p" by linarith
  with F(2,3) p(2) show "get_data q = get_data pkt" "12 < rp_data_len q" "rp_data_len q = length (get_data pkt)" "rp_data q = get_data pkt"
    by (simp_all add: get_data_def min_def)
qed

lemma get_seq_clone: assumes "clone now pkt = Inr q" shows "get_seq q = get_seq pkt"
proof -
  have "12 < length (get_data pkt)" using clone_cases(2,3) [OF assms] by simp
  then show ?thesis unfolding get_seq_def clone_cases(4) [OF assms]
    by (simp add: get_data_def be16_def)
qed

text \<open>The result of a save: the new entry is in the map before the map is cut.\<close>

lemma save_buffer_eq:
  assumes "sendbuf_ok s" "clone now pkt = Inr q"
  defines "m \<equiv> sm_assign (get_seq pkt) \<lparr>np_last_sent_timestamp = 0, np_sent_count = 0, np_packet = q\<rparr> (AList.delete (get_seq pkt) (rs_rtp_buffer_map s))"
    and "f \<equiv> if rs_first_seq s = 0 then get_seq pkt else rs_first_seq s"
  shows "sm_ok m" "f \<in> fst ` set m" "fst ` set m = insert (get_seq pkt) (fst ` set (rs_rtp_buffer_map s))"
    "map_of m = (map_of (rs_rtp_buffer_map s))(get_seq pkt \<mapsto> \<lparr>np_last_sent_timestamp = 0, np_sent_count = 0, np_packet = q\<rparr>)"
    "save_buffer now pkt s = cxx_bind (evict (buffer_max s) m f) (\<lambda>(m', f'). Inr (s\<lparr>rs_rtp_buffer_map := m', rs_first_seq := f'\<rparr>))"
proof -
  have ok: "sm_ok (rs_rtp_buffer_map s)" using assms(1) by (simp add: sendbuf_ok_def Let_def)
  show "sm_ok m" unfolding m_def using ok by simp
  show keys: "fst ` set m = insert (get_seq pkt) (fst ` set (rs_rtp_buffer_map s))"
    unfolding m_def by (simp add: set_sm_assign keys_delete)
  show "f \<in> fst ` set m" unfolding keys f_def using assms(1) by (auto simp: sendbuf_ok_def Let_def split: if_splits)
  show "map_of m = (map_of (rs_rtp_buffer_map s))(get_seq pkt \<mapsto> \<lparr>np_last_sent_timestamp = 0, np_sent_count = 0, np_packet = q\<rparr>)"
    unfolding m_def using ok by (auto simp: map_of_AList_delete)
  show "save_buffer now pkt s = cxx_bind (evict (buffer_max s) m f) (\<lambda>(m', f'). Inr (s\<lparr>rs_rtp_buffer_map := m', rs_first_seq := f'\<rparr>))"
    using assms(2) by (simp add: save_buffer_def Let_def m_def f_def)
qed

lemma sendbuf_ok_statics [simp]:
  "sendbuf_ok (s\<lparr>rs_send_statics := v\<rparr>) = sendbuf_ok s" "buffer_max (s\<lparr>rs_send_statics := v\<rparr>) = buffer_max s"
  by (simp_all add: sendbuf_ok_def buffer_max_def)

lemma send_core:
  assumes "sendbuf_ok s" "clone now pkt = Inr q"
  shows "\<exists>s'. on_send_rtp_packet now pkt s = Inr s' \<and> sendbuf_ok s' \<and> rs_rtp_buffer_map s' \<noteq> [] \<and>
    length (rs_rtp_buffer_map s') \<le> buffer_max s \<and>
    map_of (rs_rtp_buffer_map s') \<subseteq>\<^sub>m
      (map_of (rs_rtp_buffer_map s))(get_seq pkt \<mapsto> \<lparr>np_last_sent_timestamp = 0, np_sent_count = 0, np_packet = q\<rparr>)"
proof -
  let ?s = "s\<lparr>rs_send_statics := statics_update (rp_data_len pkt) (rp_local_ms pkt) (rs_send_statics s)\<rparr>"
  have ok: "sendbuf_ok ?s" using assms(1) by simp
  note eq = save_buffer_eq [OF ok assms(2)]
  obtain m' f' where ev: "evict (buffer_max ?s) (sm_assign (get_seq pkt) \<lparr>np_last_sent_timestamp = 0, np_sent_count = 0, np_packet = q\<rparr>
      (AList.delete (get_seq pkt) (rs_rtp_buffer_map ?s))) (if rs_first_seq ?s = 0 then get_seq pkt else rs_first_seq ?s) = Inr (m', f')"
    "sm_ok m'" "f' \<in> fst ` set m'" "length m' \<le> buffer_max ?s"
    "map_of m' \<subseteq>\<^sub>m (map_of (rs_rtp_buffer_map ?s))(get_seq pkt \<mapsto> \<lparr>np_last_sent_timestamp = 0, np_sent_count = 0, np_packet = q\<rparr>)"
    using evict_safe [OF eq(1,2) buffer_max_pos [of ?s]] unfolding eq(4) by blast
  have "get_seq (np_packet np) = k" if "map_of m' k = Some np" for k np
  proof -
    have "((map_of (rs_rtp_buffer_map ?s))(get_seq pkt \<mapsto> \<lparr>np_last_sent_timestamp = 0, np_sent_count = 0, np_packet = q\<rparr>)) k = Some np"
      using ev(5) that unfolding map_le_def by (metis domI)
    then show ?thesis using ok get_seq_clone [OF assms(2)] by (auto simp: sendbuf_ok_def Let_def split: if_splits)
  qed
  with ev(2-4) have "sendbuf_ok (?s\<lparr>rs_rtp_buffer_map := m', rs_first_seq := f'\<rparr>)"
    by (auto simp: sendbuf_ok_def Let_def buffer_max_def)
  moreover have "on_send_rtp_packet now pkt s = Inr (?s\<lparr>rs_rtp_buffer_map := m', rs_first_seq := f'\<rparr>)"
    unfolding on_send_rtp_packet_def eq(5) ev(1) by simp
  moreover have "m' \<noteq> []" using ev(3) by auto
  ultimately show ?thesis using ev(4,5) by simp
qed

text \<open>C30. Sending a packet never uses an iterator that is \<open>end()\<close>: from the initial state on, every packet
  that can be cloned is buffered, the buffer stays within its bound (800 packets for video, 100
  otherwise), \<open>first_seq_\<close> stays one of its keys, and every key is the number of the packet it holds.\<close>

theorem send_buffer_safe:
  assumes "sendbuf_ok s" "clone now pkt = Inr q"
  shows "\<exists>s'. on_send_rtp_packet now pkt s = Inr s' \<and> sendbuf_ok s' \<and> rs_rtp_buffer_map s' \<noteq> [] \<and>
    length (rs_rtp_buffer_map s') \<le> buffer_max s"
  using send_core [OF assms] by blast

theorem send_buffer_safe_witness:
  "\<exists>s'. on_send_rtp_packet 0 (sample_packet 7) (new_rtp_send_stream (lit ''video'') True) = Inr s' \<and> sendbuf_ok s' \<and>
     rs_rtp_buffer_map s' \<noteq> []"
  using clone_sample [of 0 7] send_buffer_safe [OF sendbuf_ok_new] by blast

subsection \<open>The buffer as a window\<close>

text \<open>The key that follows \<open>f\<close> in a cyclic walk through the keys \<open>K\<close> in the order of the map.\<close>

definition follows :: "u16 set \<Rightarrow> u16 \<Rightarrow> u16 \<Rightarrow> bool" where
  "follows K f k \<longleftrightarrow> k \<in> K - {f} \<and>
     (if \<exists>j \<in> K. f < j then f < k \<and> (\<forall>j \<in> K. f < j \<longrightarrow> k \<le> j) else (\<forall>j \<in> K - {f}. k \<le> j))"

lemma evict_one:
  assumes "sm_ok m" "length m = Suc b" "0 < b" "f \<in> fst ` set m"
  shows "\<exists>k. evict b m f = Inr (AList.delete f m, k) \<and> follows (fst ` set m) f k"
proof -
  obtain v where v: "map_of m f = Some v" using assms(4) map_of_key_iff [of m f] by auto
  let ?m = "AList.delete f m"
  have len: "length ?m = b" using length_delete_key [OF sm_ok_distinct [OF assms(1)] v] assms(2) by simp
  then have done_: "evict b ?m k = Inr (?m, k)" for k by (simp add: evict.simps)
  obtain k w r where hd: "?m = (k, w) # r" using len assms(3) by (cases ?m) auto
  show ?thesis
  proof (cases "sm_next f m")
    case None
    have "evict b m f = Inr (?m, k)" using None v hd assms(2) done_ [of k] by (simp add: evict.simps [of b m f])
    moreover have "\<forall>j \<in> fst ` set m - {f}. k \<le> j"
      using sm_keys_Cons [of k w r] sm_ok_delete [OF assms(1), of f] hd keys_delete [of f m] by auto
    moreover have "k \<in> fst ` set m - {f}" using hd keys_delete [of f m] by auto
    ultimately show ?thesis using None sm_next_None [OF assms(1), of f] by (auto simp: follows_def not_less)
  next
    case (Some j)
    have "evict b m f = Inr (?m, j)" using Some v assms(2) done_ [of j] by (simp add: evict.simps [of b m f])
    moreover have "follows (fst ` set m) f j" using Some sm_next_Some [OF assms(1), of f j] by (auto simp: follows_def)
    ultimately show ?thesis by blast
  qed
qed

definition buffer_keys :: "rtp_send_stream \<Rightarrow> u16 set" where
  "buffer_keys s = fst ` set (rs_rtp_buffer_map s)"

text \<open>One packet, seen from the keys of the buffer and \<open>first_seq_\<close>.\<close>

lemma send_step:
  assumes "sendbuf_ok s" "\<exists>q. clone now pkt = Inr q"
  defines "f \<equiv> if rs_first_seq s = 0 then get_seq pkt else rs_first_seq s" and "K \<equiv> insert (get_seq pkt) (buffer_keys s)"
  shows "\<exists>s'. on_send_rtp_packet now pkt s = Inr s' \<and> sendbuf_ok s' \<and> buffer_max s' = buffer_max s \<and>
    (card K \<le> buffer_max s \<longrightarrow> buffer_keys s' = K \<and> rs_first_seq s' = f) \<and>
    (card K = Suc (buffer_max s) \<longrightarrow> buffer_keys s' = K - {f} \<and> follows K f (rs_first_seq s'))"
proof -
  obtain q where q: "clone now pkt = Inr q" using assms(2) by blast
  obtain s' where s': "on_send_rtp_packet now pkt s = Inr s'" "sendbuf_ok s'" using send_core [OF assms(1) q] by blast
  let ?s = "s\<lparr>rs_send_statics := statics_update (rp_data_len pkt) (rp_local_ms pkt) (rs_send_statics s)\<rparr>"
  define m where "m = sm_assign (get_seq pkt) \<lparr>np_last_sent_timestamp = 0, np_sent_count = 0, np_packet = q\<rparr>
      (AList.delete (get_seq pkt) (rs_rtp_buffer_map ?s))"
  have ok: "sendbuf_ok ?s" using assms(1) by simp
  note eq = save_buffer_eq [OF ok q, folded m_def]
  have keys: "fst ` set m = K" "f \<in> fst ` set m" using eq(2,3) by (simp_all add: K_def buffer_keys_def f_def split: if_splits)
  have len: "length m = card K" using length_keys [OF eq(1)] keys(1) by simp
  have run: "on_send_rtp_packet now pkt s = cxx_bind (evict (buffer_max s) m f) (\<lambda>(m', f'). Inr (?s\<lparr>rs_rtp_buffer_map := m', rs_first_seq := f'\<rparr>))"
    using eq(5) by (simp add: on_send_rtp_packet_def f_def)
  obtain m' f' where ev: "evict (buffer_max s) m f = Inr (m', f')"
    using evict_safe [OF eq(1) keys(2) buffer_max_pos] by blast
  then have s'_eq: "s' = ?s\<lparr>rs_rtp_buffer_map := m', rs_first_seq := f'\<rparr>" using s'(1) run by simp
  have "m' = m \<and> f' = f" if "card K \<le> buffer_max s" using ev that len by (simp add: evict.simps [of _ m])
  moreover have "fst ` set m' = K - {f} \<and> follows K f f'" if "card K = Suc (buffer_max s)"
    using evict_one [OF eq(1) _ buffer_max_pos keys(2), of s] that len ev keys(1) by (auto simp: keys_delete)
  ultimately show ?thesis using s' s'_eq keys(1) by (auto simp: buffer_keys_def buffer_max_def)
qed

text \<open>A run of packets with their times.\<close>

fun send_all :: "(int \<times> rtp_packet) list \<Rightarrow> rtp_send_stream \<Rightarrow> rtp_send_stream cxx" where
  "send_all [] s = Inr s"
| "send_all ((now, pkt) # ps) s = cxx_bind (on_send_rtp_packet now pkt s) (send_all ps)"

lemma send_all_append: "send_all (ps @ qs) s = cxx_bind (send_all ps s) (send_all qs)"
  by (induction ps arbitrary: s) (auto simp: cxx_bind_assoc intro!: cxx_bind_cong)

text \<open>Packets that can be cloned, numbered consecutively from \<open>a\<close> on.\<close>

definition consecutive :: "u16 \<Rightarrow> (int \<times> rtp_packet) list \<Rightarrow> bool" where
  "consecutive a ps \<longleftrightarrow> (\<forall>i < length ps. get_seq (snd (ps ! i)) = a + of_nat i \<and> (\<exists>q. clone (fst (ps ! i)) (snd (ps ! i)) = Inr q))"

abbreviation numbers :: "u16 \<Rightarrow> nat set \<Rightarrow> u16 set" where
  "numbers a I \<equiv> (\<lambda>i. a + of_nat i) ` I"

lemma add_of_nat_eq_iff: "(a :: u16) + of_nat i = a + of_nat j \<longleftrightarrow> i mod 65536 = j mod 65536"
  by (simp add: word_of_nat_eq_iff take_bit_eq_mod)

lemma mod_eq_near: "(i :: nat) mod 65536 = j mod 65536 \<Longrightarrow> i \<le> j \<Longrightarrow> j < i + 65536 \<Longrightarrow> i = j"
proof -
  assume *: "i mod 65536 = j mod 65536" "i \<le> j" "j < i + 65536"
  then have "65536 dvd j - i" by (simp add: mod_eq_dvd_iff_nat [symmetric])
  moreover have "j - i < 65536" using * by linarith
  ultimately have "j - i = 0" by (meson nat_dvd_not_less neq0_conv)
  with *(2) show "i = j" by simp
qed

lemma inj_numbers: "u \<le> l + 65536 \<Longrightarrow> inj_on (\<lambda>i. (a :: u16) + of_nat i) {l..<u}"
proof (rule inj_onI)
  fix i j assume *: "u \<le> l + 65536" "i \<in> {l..<u}" "j \<in> {l..<u}" "a + of_nat i = a + of_nat j"
  then have "i mod 65536 = j mod 65536" by (simp only: add_of_nat_eq_iff)
  with * show "i = j" using mod_eq_near [of i j] mod_eq_near [of j i] by (cases "i \<le> j") auto
qed

lemma card_numbers: "u \<le> l + 65536 \<Longrightarrow> card (numbers a {l..<u}) = u - l"
  by (simp add: card_image inj_numbers)

lemma unat_numbers: "unat ((a :: u16) + of_nat i) = (unat a + i) mod 65536"
  by (simp add: unat_word_ariths unat_of_nat mod_add_right_eq)

lemma u16_lt: "unat (a :: u16) < 65536"
  by (rule order_less_le_trans [OF unsigned_less]) simp

lemma numbers_wrap: assumes "(a :: u16) \<noteq> 0"
  shows "i < 65536 - unat a \<Longrightarrow> a + of_nat i \<noteq> 0" "a + of_nat (65536 - unat a + j) = of_nat j"
proof -
  have a: "unat a < 65536" "0 < unat a" using u16_lt assms by (simp_all add: unat_gt_0)
  show "a + of_nat i \<noteq> 0" if "i < 65536 - unat a"
    using unat_numbers [of a i] that a by auto
  have "unat (a + of_nat (65536 - unat a + j)) = j mod 65536" using a by (simp only: unat_numbers) simp
  then show "a + of_nat (65536 - unat a + j) = of_nat j"
    by (simp add: word_unat_eq_iff unat_of_nat)
qed

text \<open>The successor in a window: one more, also across the wrap.\<close>

lemma follows_window:
  assumes "x + 1 \<in> K" "follows K x k" shows "k = x + (1 :: u16)"
proof (cases "\<exists>j \<in> K. x < j")
  case True
  then obtain j where "x < j" by blast
  then have x: "unat (x + 1) = Suc (unat x)" using u16_lt [of j]
    by (simp add: unat_word_ariths word_less_nat_alt)
  then have "x < x + 1" by (simp add: word_less_nat_alt)
  with True assms have "k \<le> x + 1" "x < k" by (auto simp: follows_def split: if_splits)
  with x show ?thesis by (simp add: word_le_nat_alt word_less_nat_alt word_unat_eq_iff)
next
  case False
  then have "x + 1 \<le> x" using assms(1) by (meson not_le)
  then have "x + 1 = 0" using unat_numbers [of x 1] u16_lt [of x]
    by (cases "unat x = 65535") (simp_all add: word_le_nat_alt unat_eq_zero [symmetric])
  moreover have "k \<le> x + 1" using False assms by (auto simp: follows_def split: if_splits)
  ultimately show ?thesis by simp
qed

text \<open>
  After \<open>k\<close> consecutive packets from \<open>a\<close> on, as far as one cycle beyond the first wrap: \<open>k'\<close> counts the
  packets until the window starts at 0, which are the only ones that move it.
\<close>

definition moved :: "u16 \<Rightarrow> nat \<Rightarrow> nat \<Rightarrow> nat" where
  "moved a n k = min k (n + (65536 - unat a))"

definition window_state :: "u16 \<Rightarrow> nat \<Rightarrow> rtp_send_stream \<Rightarrow> bool" where
  "window_state a k s \<longleftrightarrow> (let n = buffer_max s; k' = moved a n k in
     sendbuf_ok s \<and> buffer_keys s = numbers a {k' - n..<k'} \<and> (0 < k \<longrightarrow> rs_first_seq s = a + of_nat (k' - n)))"

lemma buffer_max_le: "buffer_max s \<le> 800"
  by (simp add: buffer_max_def RTP_VIDEO_BUFFER_MAX_def RTP_AUDIO_BUFFER_MAX_def)

lemma numbers_drop_first:
  assumes "l < u" "u \<le> l + 65536" shows "numbers a {l..<u} - {a + of_nat l} = numbers a {Suc l..<u}"
proof -
  have "{l..<u} - {l} = {Suc l..<u}" by auto
  then show ?thesis using inj_on_image_set_diff [OF inj_numbers [OF assms(2), of a], of "{l..<u}" "{l}"] assms(1) by simp
qed

text \<open>A full window whose first number is not 0 slides by one.\<close>

lemma window_slide:
  assumes "sendbuf_ok s" "buffer_keys s = numbers a {k - n..<k}" "rs_first_seq s = a + of_nat (k - n)" "rs_first_seq s \<noteq> 0"
    and "n \<le> k" "n = buffer_max s" "get_seq pkt = a + of_nat k" "\<exists>q. clone now pkt = Inr q"
  shows "\<exists>s'. on_send_rtp_packet now pkt s = Inr s' \<and> sendbuf_ok s' \<and> buffer_max s' = n \<and>
    buffer_keys s' = numbers a {Suc k - n..<Suc k} \<and> rs_first_seq s' = a + of_nat (Suc k - n)"
proof -
  let ?x = "a + of_nat (k - n)" and ?K = "numbers a {k - n..<Suc k}"
  have n: "0 < n" "n \<le> 800" using assms(6) buffer_max_le by simp_all
  have "{k - n..<Suc k} = insert k {k - n..<k}" by auto
  then have K: "insert (get_seq pkt) (buffer_keys s) = ?K" using assms(2,7) by simp
  have card: "card ?K = Suc n" using assms(5) n by (subst card_numbers) simp_all
  obtain s' where s': "on_send_rtp_packet now pkt s = Inr s'" "sendbuf_ok s'" "buffer_max s' = n"
    and r: "buffer_keys s' = ?K - {?x}" "follows ?K ?x (rs_first_seq s')"
    using send_step [OF assms(1,8)] card assms(3,4,6) unfolding K by auto
  have suc: "?x + 1 = a + of_nat (Suc k - n)" using assms(5) by (simp add: Suc_diff_le)
  have "?x + 1 \<in> ?K" unfolding suc using assms(5) n by (intro imageI) auto
  then have "rs_first_seq s' = a + of_nat (Suc k - n)" using follows_window [OF _ r(2)] suc by simp
  moreover have "buffer_keys s' = numbers a {Suc k - n..<Suc k}"
    using r(1) numbers_drop_first [of "k - n" "Suc k" a] assms(5) n by (simp add: Suc_diff_le)
  ultimately show ?thesis using s' by blast
qed

text \<open>A full window that starts at 0 does not move: the newest packet is dropped.\<close>

lemma window_stuck:
  assumes "sendbuf_ok s" "buffer_keys s = of_nat ` {..<n}" "rs_first_seq s = 0" "n = buffer_max s"
    and "get_seq pkt = of_nat d" "n \<le> d" "d < 65536" "\<exists>q. clone now pkt = Inr q"
  shows "\<exists>s'. on_send_rtp_packet now pkt s = Inr s' \<and> sendbuf_ok s' \<and> buffer_max s' = n \<and>
    buffer_keys s' = of_nat ` {..<n} \<and> rs_first_seq s' = 0"
proof -
  let ?K = "insert (of_nat d) (of_nat ` {..<n}) :: u16 set"
  have n: "0 < n" "n \<le> 800" using assms(4) buffer_max_le by simp_all
  have lt: "(of_nat i :: u16) < of_nat d" if "i < n" for i
    using that assms(6,7) n by (simp add: word_less_nat_alt unat_of_nat)
  have "inj_on (of_nat :: nat \<Rightarrow> u16) {..<n}" using inj_numbers [of n 0 0] n by (simp add: lessThan_atLeast0)
  moreover have "of_nat d \<notin> (of_nat ` {..<n} :: u16 set)" using lt by fastforce
  ultimately have "card ?K = Suc n" by (simp add: card_image)
  then obtain s' where s': "on_send_rtp_packet now pkt s = Inr s'" "sendbuf_ok s'" "buffer_max s' = n"
    and r: "buffer_keys s' = ?K - {of_nat d}" "follows ?K (of_nat d) (rs_first_seq s')"
    using send_step [OF assms(1,8)] assms(2-5) by auto
  have "\<not> (\<exists>j \<in> ?K. of_nat d < j)" using lt by fastforce
  moreover have "of_nat 0 \<in> ?K - {of_nat d}"
    using lt [of 0] n imageI [of 0 "{..<n}" "of_nat :: nat \<Rightarrow> u16"] by simp
  ultimately have "rs_first_seq s' \<le> of_nat 0" using r(2) unfolding follows_def by (meson)
  then have "rs_first_seq s' = 0" by simp
  moreover have "buffer_keys s' = of_nat ` {..<n}" using r(1) \<open>of_nat d \<notin> _\<close> by auto
  ultimately show ?thesis using s' by blast
qed

lemma numbers_cycle: assumes "a \<noteq> 0" shows "numbers a {65536 - unat a..<65536 - unat a + n} = of_nat ` {..<n}"
proof -
  have "{65536 - unat a..<65536 - unat a + n} = (+) (65536 - unat a) ` {..<n}"
    by (simp add: image_add_atLeastLessThan lessThan_atLeast0 add.commute)
  then show ?thesis using numbers_wrap(2) [OF assms] by (simp add: image_image del: of_nat_add)
qed

lemma window_step:
  assumes "window_state a k s" "a \<noteq> 0" "k < 131072 - unat a" "get_seq pkt = a + of_nat k" "\<exists>q. clone now pkt = Inr q"
  shows "\<exists>s'. on_send_rtp_packet now pkt s = Inr s' \<and> buffer_max s' = buffer_max s \<and> window_state a (Suc k) s'"
proof -
  define n T where "n = buffer_max s" and "T = 65536 - unat a"
  have n: "0 < n" "n \<le> 800" using buffer_max_le by (simp_all add: n_def)
  have T: "T + 65536 = 131072 - unat a" "0 < T" using u16_lt [of a] by (simp_all add: T_def)
  have W: "sendbuf_ok s" "buffer_keys s = numbers a {moved a n k - n..<moved a n k}" "0 < k \<Longrightarrow> rs_first_seq s = a + of_nat (moved a n k - n)"
    using assms(1) by (simp_all add: window_state_def n_def Let_def)
  consider (grow) "k < n" | (slide) "n \<le> k" "k < n + T" | (stuck) "n + T \<le> k" by linarith
  then show ?thesis
  proof cases
    case grow
    then have m: "moved a n k = k" "moved a n (Suc k) = Suc k" using T by (simp_all add: moved_def T_def)
    have K: "insert (get_seq pkt) (buffer_keys s) = numbers a {0..<Suc k}"
      using grow W(2) m assms(4) by (simp add: atLeast0LessThan lessThan_Suc)
    have "card (numbers a {0..<Suc k}) \<le> n" using grow n by (subst card_numbers) simp_all
    moreover have "(if rs_first_seq s = 0 then get_seq pkt else rs_first_seq s) = a"
      using W(1,2) W(3) grow m assms(2,4) by (cases "k = 0") (auto simp: moved_def sendbuf_ok_def buffer_keys_def Let_def split: if_splits)
    ultimately show ?thesis using send_step [OF W(1) assms(5)] grow m unfolding K
      by (auto simp: window_state_def n_def [symmetric] Let_def)
  next
    case slide
    then have m: "moved a n k = k" "moved a n (Suc k) = Suc k" using T by (simp_all add: moved_def T_def)
    have first: "rs_first_seq s = a + of_nat (k - n)" using W(3) slide n m by simp
    then have "rs_first_seq s \<noteq> 0" using numbers_wrap(1) [OF assms(2), of "k - n"] slide n by (simp add: T_def)
    with window_slide [OF W(1) _ first _ slide(1) n_def assms(4,5)] W(2) m show ?thesis
      by (auto simp: window_state_def n_def [symmetric] Let_def)
  next
    case stuck
    then have m: "moved a n k = n + T" "moved a n (Suc k) = n + T" by (simp_all add: moved_def T_def)
    have zero: "a + of_nat T = 0" using numbers_wrap(2) [OF assms(2), of 0] by (simp add: T_def)
    have cyc: "numbers a {T..<n + T} = of_nat ` {..<n}" using numbers_cycle [OF assms(2), of n] by (simp add: T_def add.commute)
    have seq: "get_seq pkt = of_nat (k - T)" using numbers_wrap(2) [OF assms(2), folded T_def, of "k - T"] stuck assms(4) by (simp del: of_nat_add)
    have "rs_first_seq s = 0" using W(3) m stuck T zero by simp
    moreover have "n \<le> k - T" "k - T < 65536" using stuck T(1) assms(3) by linarith+
    ultimately obtain s' where "on_send_rtp_packet now pkt s = Inr s'" "sendbuf_ok s'" "buffer_max s' = n"
      "buffer_keys s' = of_nat ` {..<n}" "rs_first_seq s' = 0"
      using window_stuck [OF W(1) _ _ n_def seq _ _ assms(5)] W(2) m cyc by auto
    with m cyc zero show ?thesis by (simp add: window_state_def n_def [symmetric])
  qed
qed

lemma window_run:
  assumes "consecutive a ps" "a \<noteq> 0" "length ps \<le> 131072 - unat a"
  shows "\<exists>s. send_all ps (new_rtp_send_stream mt ne) = Inr s \<and> buffer_max s = buffer_max (new_rtp_send_stream mt ne) \<and> window_state a (length ps) s"
  using assms
proof (induction ps rule: rev_induct)
  case Nil
  show ?case using sendbuf_ok_new [of mt ne]
    by (simp add: window_state_def moved_def Let_def buffer_keys_def) (simp add: new_rtp_send_stream_def)
next
  case (snoc p ps)
  obtain now pkt where p: "p = (now, pkt)" by (cases p)
  have "consecutive a ps" using snoc.prems(1) unfolding consecutive_def
    by (metis length_append_singleton less_Suc_eq nth_append)
  with snoc obtain s where s: "send_all ps (new_rtp_send_stream mt ne) = Inr s" "buffer_max s = buffer_max (new_rtp_send_stream mt ne)"
    "window_state a (length ps) s" by auto
  have "get_seq pkt = a + of_nat (length ps)" "\<exists>q. clone now pkt = Inr q"
    using snoc.prems(1) p by (auto simp: consecutive_def dest!: spec [of _ "length ps"])
  from window_step [OF s(3) assms(2) _ this] snoc.prems(3) s p show ?case by (auto simp: send_all_append)
qed

text \<open>An entry of the buffer holds the bytes of the last packet that was sent with its number.\<close>

definition holds_last :: "(int \<times> rtp_packet) list \<Rightarrow> rtp_send_stream \<Rightarrow> bool" where
  "holds_last ps s \<longleftrightarrow> (\<forall>k np. map_of (rs_rtp_buffer_map s) k = Some np \<longrightarrow>
     (\<exists>i < length ps. get_seq (snd (ps ! i)) = k \<and> get_data (np_packet np) = get_data (snd (ps ! i)) \<and>
        (\<forall>j. i < j \<and> j < length ps \<longrightarrow> get_seq (snd (ps ! j)) \<noteq> k)))"

lemma holds_last_step:
  assumes "holds_last ps s" "sendbuf_ok s" "clone now pkt = Inr q" "on_send_rtp_packet now pkt s = Inr s'"
  shows "holds_last (ps @ [(now, pkt)]) s'"
  unfolding holds_last_def
proof (intro allI impI)
  fix k np assume "map_of (rs_rtp_buffer_map s') k = Some np"
  moreover have "map_of (rs_rtp_buffer_map s') \<subseteq>\<^sub>m
      (map_of (rs_rtp_buffer_map s))(get_seq pkt \<mapsto> \<lparr>np_last_sent_timestamp = 0, np_sent_count = 0, np_packet = q\<rparr>)"
    using send_core [OF assms(2,3)] assms(4) by auto
  ultimately have "((map_of (rs_rtp_buffer_map s))(get_seq pkt \<mapsto> \<lparr>np_last_sent_timestamp = 0, np_sent_count = 0, np_packet = q\<rparr>)) k = Some np"
    unfolding map_le_def by (metis domI)
  then consider "k = get_seq pkt" "np_packet np = q" | "k \<noteq> get_seq pkt" "map_of (rs_rtp_buffer_map s) k = Some np"
    by (auto split: if_splits)
  then show "\<exists>i < length (ps @ [(now, pkt)]). get_seq (snd ((ps @ [(now, pkt)]) ! i)) = k \<and>
      get_data (np_packet np) = get_data (snd ((ps @ [(now, pkt)]) ! i)) \<and>
      (\<forall>j. i < j \<and> j < length (ps @ [(now, pkt)]) \<longrightarrow> get_seq (snd ((ps @ [(now, pkt)]) ! j)) \<noteq> k)"
  proof cases
    case 1
    then show ?thesis using clone_cases(1) [OF assms(3)] by (intro exI [of _ "length ps"]) auto
  next
    case 2
    then obtain i where "i < length ps" "get_seq (snd (ps ! i)) = k" "get_data (np_packet np) = get_data (snd (ps ! i))"
      "\<And>j. i < j \<Longrightarrow> j < length ps \<Longrightarrow> get_seq (snd (ps ! j)) \<noteq> k" using assms(1) unfolding holds_last_def by blast
    with 2(1) show ?thesis by (intro exI [of _ i]) (auto simp: nth_append less_Suc_eq)
  qed
qed

lemma holds_last_run:
  "(\<And>i. i < length ps \<Longrightarrow> \<exists>q. clone (fst (ps ! i)) (snd (ps ! i)) = Inr q) \<Longrightarrow> send_all ps (new_rtp_send_stream mt ne) = Inr s \<Longrightarrow>
     sendbuf_ok s \<and> holds_last ps s"
proof (induction ps arbitrary: s rule: rev_induct)
  case Nil
  then show ?case using sendbuf_ok_new by (auto simp: holds_last_def new_rtp_send_stream_def)
next
  case (snoc p ps)
  obtain now pkt where p: "p = (now, pkt)" by (cases p)
  obtain s0 where s0: "send_all ps (new_rtp_send_stream mt ne) = Inr s0" "on_send_rtp_packet now pkt s0 = Inr s"
    using snoc.prems(2) p by (auto simp: send_all_append cxx_bind_Inr_iff)
  have "\<exists>q. clone (fst (ps ! i)) (snd (ps ! i)) = Inr q" if "i < length ps" for i
    using snoc.prems(1) [of i] that by (simp add: nth_append)
  with snoc.IH s0(1) have IH: "sendbuf_ok s0" "holds_last ps s0" by blast+
  obtain q where q: "clone now pkt = Inr q" using snoc.prems(1) [of "length ps"] p by auto
  show ?case using holds_last_step [OF IH(2,1) q s0(2)] send_core [OF IH(1) q] s0(2) p by auto
qed

text \<open>
  C16. The retransmission buffer is the window of the latest packets: after consecutively numbered
  packets from any number but 0 on, across the wrap of the numbers until the window starts at 0,
  the buffer holds exactly the last 800 (video) or 100 packets, each with the bytes that were sent.
\<close>

theorem send_buffer_window:
  assumes "consecutive a ps" "a \<noteq> 0" "n = buffer_max (new_rtp_send_stream mt ne)" "length ps \<le> n + (65536 - unat a)"
  shows "\<exists>s. send_all ps (new_rtp_send_stream mt ne) = Inr s \<and>
    buffer_keys s = (\<lambda>p. get_seq (snd p)) ` set (drop (length ps - n) ps) \<and>
    (\<forall>i. length ps - n \<le> i \<and> i < length ps \<longrightarrow>
      (\<exists>np. map_of (rs_rtp_buffer_map s) (get_seq (snd (ps ! i))) = Some np \<and> get_data (np_packet np) = get_data (snd (ps ! i))))"
proof -
  have n: "n \<le> 800" using assms(3) buffer_max_le by simp
  have seq: "get_seq (snd (ps ! i)) = a + of_nat i" "\<exists>q. clone (fst (ps ! i)) (snd (ps ! i)) = Inr q" if "i < length ps" for i
    using assms(1) that by (simp_all add: consecutive_def)
  have "length ps \<le> 131072 - unat a" using assms(4) n u16_lt [of a] by linarith
  from window_run [OF assms(1,2) this, of mt ne] obtain s where s: "send_all ps (new_rtp_send_stream mt ne) = Inr s"
    and W: "buffer_max s = n" "window_state a (length ps) s" using assms(3) by blast
  have "moved a n (length ps) = length ps" using assms(4) by (simp add: moved_def)
  with W have bk: "buffer_keys s = numbers a {length ps - n..<length ps}" by (simp add: window_state_def Let_def)
  note s = s bk
  have "set (drop (length ps - n) ps) = (!) ps ` {length ps - n..<length ps}"
    by (metis map_nth drop_map drop_upt add_0 set_map set_upt)
  then have keys: "buffer_keys s = (\<lambda>p. get_seq (snd p)) ` set (drop (length ps - n) ps)"
    using s(2) seq(1) by (simp add: image_image)
  have "\<exists>np. map_of (rs_rtp_buffer_map s) (get_seq (snd (ps ! i))) = Some np \<and> get_data (np_packet np) = get_data (snd (ps ! i))"
    if i: "length ps - n \<le> i" "i < length ps" for i
  proof -
    have "a + of_nat i \<in> buffer_keys s" using s(2) i by simp
    then obtain np where np: "map_of (rs_rtp_buffer_map s) (a + of_nat i) = Some np"
      using map_of_key_iff [of "rs_rtp_buffer_map s"] by (auto simp: buffer_keys_def)
    then obtain i' where i': "i' < length ps" "get_seq (snd (ps ! i')) = a + of_nat i" "get_data (np_packet np) = get_data (snd (ps ! i'))"
      "\<not> (i' < i \<and> i < length ps)" using holds_last_run [OF seq(2) s(1)] seq(1) [OF i(2)] unfolding holds_last_def by metis
    then have "a + of_nat i = a + of_nat i'" using seq(1) by simp
    then have "i' = i" using i' i n mod_eq_near [of i i'] unfolding add_of_nat_eq_iff by linarith
    with np i' seq(1) [OF i(2)] show ?thesis by simp
  qed
  with s(1) keys show ?thesis by blast
qed

lemma consecutive_sample: "consecutive a (map (\<lambda>i. (0, sample_packet (a + of_nat i))) [0..<k])"
  by (simp add: consecutive_def clone_sample)

theorem send_buffer_window_witness:
  "\<exists>s. send_all (map (\<lambda>i. (0, sample_packet (5 + of_nat i))) [0..<300]) (new_rtp_send_stream (lit ''audio'') True) = Inr s \<and>
    buffer_keys s = (\<lambda>i. 5 + of_nat i) ` {200..<300}"
proof -
  have n: "(100 :: nat) = buffer_max (new_rtp_send_stream (lit ''audio'') True)"
    by (simp add: buffer_max_def new_rtp_send_stream_def RTP_AUDIO_BUFFER_MAX_def lit_def)
  let ?ps = "map (\<lambda>i. (0 :: int, sample_packet (5 + of_nat i))) [0..<300]"
  have "unat (5 :: u16) = 5" by simp
  then have "length ?ps \<le> 100 + (65536 - unat (5 :: u16))" by (simp only: length_map length_upt)
  moreover have "(5 :: u16) \<noteq> 0" by simp
  ultimately obtain s where
    s: "send_all ?ps (new_rtp_send_stream (lit ''audio'') True) = Inr s"
    "buffer_keys s = (\<lambda>p. get_seq (snd p)) ` set (drop (length ?ps - 100) ?ps)" using send_buffer_window [OF consecutive_sample [of 5 300] _ n] by blast
  have "set (drop (length ?ps - 100) ?ps) = (\<lambda>i. (0, sample_packet (5 + of_nat i))) ` {200..<300}"
    by (simp only: length_map length_upt drop_map drop_upt set_map set_upt) simp
  with s show ?thesis by (auto simp: image_image)
qed

lemma resend_all_missing: "(\<And>k. k \<in> set seqs \<Longrightarrow> map_of m k = None) \<Longrightarrow> resend_all rtt now seqs m = ([], m)"
  by (induction seqs) auto

text \<open>
  C38. Once the window has reached the wrap of the sequence numbers the buffer is frozen: for the rest
  of that cycle it holds the packets 0 to 799 (0 to 99) and nothing newer, since \<open>first_seq_\<close> is 0 there,
  which the code takes for ``not set''. So no request for a packet of that time is answered.
\<close>

theorem send_buffer_frozen:
  assumes "consecutive a ps" "a \<noteq> 0" "n = buffer_max (new_rtp_send_stream mt ne)"
    and "n + (65536 - unat a) \<le> length ps" "length ps \<le> 131072 - unat a"
  shows "\<exists>s. send_all ps (new_rtp_send_stream mt ne) = Inr s \<and> buffer_keys s = of_nat ` {..<n} \<and>
    (\<forall>now nack seqs. get_lost_seqs nack = Inr seqs \<and> (\<forall>k \<in> set seqs. n \<le> unat k) \<longrightarrow> handle_fb_rtp_nack now nack s = Inr ([], s))"
proof -
  from window_run [OF assms(1,2,5), of mt ne] obtain s where s: "send_all ps (new_rtp_send_stream mt ne) = Inr s"
    "buffer_max s = n" "window_state a (length ps) s" using assms(3) by blast
  have "moved a n (length ps) = n + (65536 - unat a)" using assms(4) by (simp add: moved_def)
  with s(2,3) have keys: "buffer_keys s = of_nat ` {..<n}"
    using numbers_cycle [OF assms(2), of n] by (simp add: window_state_def Let_def add.commute)
  have none: "map_of (rs_rtp_buffer_map s) k = None" if "n \<le> unat k" for k
  proof -
    have "unat (of_nat i :: u16) < n" if "i < n" for i using that assms(3) buffer_max_le [of "new_rtp_send_stream mt ne"] by (simp add: unat_of_nat)
    then have "k \<notin> buffer_keys s" using that unfolding keys by (metis imageE lessThan_iff not_less)
    then show ?thesis by (simp add: buffer_keys_def map_of_eq_None_iff)
  qed
  have "handle_fb_rtp_nack now nack s = Inr ([], s)" if "get_lost_seqs nack = Inr seqs" "\<forall>k \<in> set seqs. n \<le> unat k" for now nack seqs
    using that none resend_all_missing [of seqs "rs_rtp_buffer_map s"] by (simp add: handle_fb_rtp_nack_def)
  with s(1) keys show ?thesis by blast
qed

theorem send_buffer_frozen_witness:
  "\<exists>s. send_all (map (\<lambda>i. (0, sample_packet (65535 + of_nat i))) [0..<1000]) (new_rtp_send_stream (lit ''audio'') True) = Inr s \<and>
    buffer_keys s = of_nat ` {..<100}"
proof -
  have n: "(100 :: nat) = buffer_max (new_rtp_send_stream (lit ''audio'') True)"
    by (simp add: buffer_max_def new_rtp_send_stream_def RTP_AUDIO_BUFFER_MAX_def lit_def)
  let ?ps = "map (\<lambda>i. (0 :: int, sample_packet (65535 + of_nat i))) [0..<1000]"
  have len: "length ?ps = 1000" by (simp only: length_map length_upt)
  have "unat (65535 :: u16) = 65535" "(65535 :: u16) \<noteq> 0" by simp_all
  with send_buffer_frozen [OF consecutive_sample [of 65535 1000] _ n] show ?thesis unfolding len by auto
qed

subsection \<open>Retransmissions\<close>

text \<open>
  The guard against early retransmission never fires: the time of the last retransmission is
  kept in 32 bits and compared with the 64-bit clock, so with a clock after February 1970 every
  request for a buffered packet that was sent less than 20 times is answered at once, however
  short the time since the last one.
\<close>

theorem resend_guard_never_fires:
  assumes "2 ^ 32 + 150 \<le> now" "rs_rtt s \<le> 150" "get_lost_seqs nack = Inr [k]"
    and "map_of (rs_rtp_buffer_map s) k = Some np" "np_sent_count np < 20"
  shows "\<exists>s'. handle_fb_rtp_nack now nack s = Inr ([get_data (np_packet np)], s')"
proof -
  have "uint (np_last_sent_timestamp np) < 2 ^ 32" using uint_lt2p [of "np_last_sent_timestamp np"] by simp
  then have "\<not> now - uint (np_last_sent_timestamp np) < rs_rtt s - 5" using assms(1,2) by simp
  with assms(3-5) show ?thesis by (auto simp: handle_fb_rtp_nack_def resend_def RETRANSMIT_MAX_COUNT_def)
qed

theorem resend_guard_never_fires_witness:
  "let s = (new_rtp_send_stream (lit ''audio'') True)\<lparr>rs_rtp_buffer_map :=
      [(7, \<lparr>np_last_sent_timestamp = word_of_int 1700000000000, np_sent_count = 1, np_packet = sample_packet 7\<rparr>)]\<rparr>;
    nack = \<lparr>nk_data = [0, 0, 0, 0, 0, 0, 0, 0, 0, 0, 0, 0, 0, 7, 0, 0], nk_blocks = [12]\<rparr> in
    \<exists>s'. handle_fb_rtp_nack 1700000000000 nack s = Inr ([get_data (sample_packet 7)], s')"
  unfolding Let_def
  by (rule resend_guard_never_fires [where k = 7 and np = "\<lparr>np_last_sent_timestamp = word_of_int 1700000000000, np_sent_count = 1, np_packet = sample_packet 7\<rparr>", simplified])
    (simp_all add: new_rtp_send_stream_def RTT_DEFAULT_def get_lost_seqs_def block_seqs_def be16_def from_mem.simps)

text \<open>How often an entry can still be retransmitted.\<close>

definition resends_left :: "NACK_PACKET \<Rightarrow> nat" where
  "resends_left np = (if np_last_sent_timestamp np = 0 then 20 else nat (20 - np_sent_count np))"

lemma resend_left:
  assumes "(word_of_int now :: u32) \<noteq> 0" "resend rtt now np = (sent, np')"
  shows "length sent + resends_left np' \<le> resends_left np"
  using assms by (auto simp: resend_def resends_left_def RETRANSMIT_MAX_COUNT_def split: if_splits)

definition total_left :: "(u16 \<times> NACK_PACKET) list \<Rightarrow> nat" where
  "total_left m = sum_list (map (\<lambda>(k, np). resends_left np) m)"

lemma total_left_assign:
  "sm_ok m \<Longrightarrow> map_of m k = Some np \<Longrightarrow> total_left (sm_assign k np' m) + resends_left np = total_left m + resends_left np'"
proof (induction m)
  case (Cons p m)
  obtain j v where p: "p = (j, v)" by (cases p)
  have "j < k" if "j \<noteq> k" using Cons.prems p that by (auto simp: sm_ok_Cons dest!: map_of_SomeD)
  then show ?case using Cons p by (auto simp: sm_ok_Cons total_left_def)
qed simp

lemma resend_all_left:
  assumes "(word_of_int now :: u32) \<noteq> 0" "sm_ok m"
  shows "length (fst (resend_all rtt now seqs m)) + total_left (snd (resend_all rtt now seqs m)) \<le> total_left m \<and>
    sm_ok (snd (resend_all rtt now seqs m))"
  using assms(2)
proof (induction seqs arbitrary: m)
  case (Cons k seqs)
  show ?case
  proof (cases "map_of m k")
    case None
    with Cons show ?thesis by simp
  next
    case (Some np)
    obtain sent np' where r: "resend rtt now np = (sent, np')" by (cases "resend rtt now np")
    have "length sent + resends_left np' \<le> resends_left np" by (rule resend_left [OF assms(1) r])
    moreover have "total_left (sm_assign k np' m) + resends_left np = total_left m + resends_left np'"
      by (rule total_left_assign [OF Cons.prems Some])
    moreover have "sm_ok (sm_assign k np' m)" using Cons.prems by simp
    ultimately show ?thesis using Cons.IH [of "sm_assign k np' m"] Some r
      by (auto simp: case_prod_unfold Let_def)
  qed
qed simp

text \<open>A run of requests with their times: everything that is sent for them.\<close>

fun nacks :: "(int \<times> rtcp_fb_nack) list \<Rightarrow> rtp_send_stream \<Rightarrow> (bytes list \<times> rtp_send_stream) cxx" where
  "nacks [] s = Inr ([], s)"
| "nacks ((now, nack) # ns) s =
     cxx_bind (handle_fb_rtp_nack now nack s) (\<lambda>(sent, s'). cxx_bind (nacks ns s') (\<lambda>(more, s''). Inr (sent @ more, s'')))"

lemma nacks_left:
  assumes "sm_ok (rs_rtp_buffer_map s)" "nacks ns s = Inr (sent, s')" "\<And>now nack. (now, nack) \<in> set ns \<Longrightarrow> (word_of_int now :: u32) \<noteq> 0"
  shows "length sent + total_left (rs_rtp_buffer_map s') \<le> total_left (rs_rtp_buffer_map s)"
  using assms
proof (induction ns s arbitrary: sent rule: nacks.induct)
  case (2 now nack ns s)
  obtain seqs where seqs: "get_lost_seqs nack = Inr seqs"
    using "2.prems"(2) by (auto simp: handle_fb_rtp_nack_def cxx_bind_Inr_iff)
  define r where "r = resend_all (rs_rtt s) now seqs (rs_rtp_buffer_map s)"
  have h: "handle_fb_rtp_nack now nack s = Inr (fst r, s\<lparr>rs_rtp_buffer_map := snd r\<rparr>)"
    using seqs by (simp add: handle_fb_rtp_nack_def r_def case_prod_unfold Let_def)
  with "2.prems"(2) obtain more where more: "nacks ns (s\<lparr>rs_rtp_buffer_map := snd r\<rparr>) = Inr (more, s')" "sent = fst r @ more"
    by (auto simp: cxx_bind_Inr_iff)
  have L: "length (fst r) + total_left (snd r) \<le> total_left (rs_rtp_buffer_map s)" "sm_ok (snd r)"
    using resend_all_left [OF _ "2.prems"(1), of now] "2.prems"(3) by (auto simp: r_def)
  have "length more + total_left (rs_rtp_buffer_map s') \<le> total_left (snd r)"
    using "2.IH" [OF h refl _ more(1)] L(2) "2.prems"(3) by auto
  with L more(2) show ?case by simp
qed simp

lemma total_left_fresh: "(\<And>k np. (k, np) \<in> set m \<Longrightarrow> 0 \<le> np_sent_count np) \<Longrightarrow> total_left m \<le> 20 * length m"
  by (induction m) (fastforce simp: total_left_def resends_left_def)+



subsection \<open>The round-trip time\<close>

lemma clamp_rtt_range: "0 \<le> clamp_rtt r \<and> clamp_rtt r \<le> 150"
  by (simp add: clamp_rtt_def Let_def)

lemma clamp_rtt_id: "0 \<le> r \<Longrightarrow> r \<le> 150 \<Longrightarrow> clamp_rtt r = r"
  by (simp add: clamp_rtt_def)

definition rtt_ok :: "rtp_send_stream \<Rightarrow> bool" where
  "rtt_ok s \<longleftrightarrow> 0 \<le> rs_rtt s \<and> rs_rtt s \<le> 150 \<and> 0 \<le> rs_avg_rtt s \<and> rs_avg_rtt s \<le> 150"

lemma avg_step:
  assumes "0 \<le> (r :: int)" "r \<le> 150" "0 \<le> a" "a \<le> 150" shows "0 \<le> a + (r - a) sdiv 16 \<and> a + (r - a) sdiv 16 \<le> 150"
proof (cases "a \<le> r")
  case True
  then show ?thesis using assms by (simp add: sdiv_nonneg)
next
  case False
  then have "(r - a) sdiv 16 = - ((a - r) div 16)" by (simp add: signed_divide_int_def sgn_if)
  moreover have "0 \<le> (a - r) div 16" using False by simp
  moreover have "(a - r) div 16 * 16 \<le> a - r" using div_mult_mod_eq [of "a - r" 16] pos_mod_sign [of 16 "a - r"] by linarith
  ultimately show ?thesis using assms by linarith
qed

text \<open>Cutting a time stamp to the 16 low bits of the seconds and the 16 high bits of the fraction keeps its milliseconds.\<close>

lemma high_half_mask: "(0xffff0000 :: u32) = push_bit 16 (mask 16)"
  by (simp add: mask_eq_exp_minus_1 push_bit_eq_mult)

lemma low_half_mask: "(0xffff :: u32) = mask 16"
  by (simp add: mask_eq_exp_minus_1)

lemma bit_high_half: "bit ((f :: u32) AND 0xffff0000) n \<longleftrightarrow> 16 \<le> n \<and> bit f n"
  unfolding high_half_mask by (auto simp: bit_simps dest: bit_imp_le_length)

lemma bit_low_half: "bit ((f :: u32) AND 0xffff) n \<longleftrightarrow> n < 16 \<and> bit f n"
  unfolding low_half_mask by (auto simp: bit_simps)

lemma uint_high_half: "uint ((f :: u32) AND 0xffff0000) = uint f - uint f mod 65536"
proof -
  have "f AND 0xffff0000 = push_bit 16 (drop_bit 16 f)"
    by (rule bit_word_eqI, unfold bit_high_half) (auto simp: bit_simps)
  moreover have "take_bit 32 (uint f) = uint f" using uint_lt2p [of f] by (intro take_bit_int_eq_self) simp_all
  ultimately have "uint (f AND 0xffff0000) = take_bit 32 (uint f div 65536 * 65536)"
    by (simp only: unsigned_push_bit_eq unsigned_drop_bit_eq) (simp add: push_bit_eq_mult drop_bit_eq_div)
  also have "\<dots> = uint f div 65536 * 65536"
    using uint_lt2p [of f] by (intro take_bit_int_eq_self) (auto simp: minus_mod_eq_div_mult [symmetric] zmod_le_nonneg_dividend intro: le_less_trans)
  finally show ?thesis by (simp add: minus_mod_eq_div_mult)
qed

lemma uint_low_half: "uint ((f :: u32) AND 0xffff) = uint f mod 65536"
  unfolding low_half_mask by (simp only: take_bit_eq_mask [symmetric] unsigned_take_bit_eq) (simp add: take_bit_eq_mod)

lemma ntp_cut:
  assumes "0 \<le> ms" "millisec_to_ntp ms = Inr ntp"
  shows "ntp_to_millisec \<lparr>ntp_sec = ntp_sec ntp AND 0x0000ffff, ntp_frac = ntp_frac ntp AND 0xffff0000\<rparr> = ms mod 65536000"
proof -
  obtain f where f: "ntp = \<lparr>ntp_sec = word_of_int (ms div 1000), ntp_frac = f\<rparr>"
    "\<bar>of_int (uint f) - of_int (ms mod 1000) * 2 ^ 32 / 1000\<bar> \<le> (2 :: rat)"
    using ntp_of_millisec [OF assms(1)] assms(2) by auto
  let ?f = "uint (f AND 0xffff0000)"
  let ?y = "of_int (?f * 1000) / 2 ^ 32 :: rat"
  have "\<bar>?f - uint f\<bar> \<le> 65535" unfolding uint_high_half by simp
  then have "\<bar>of_int ?f - of_int (uint f)\<bar> \<le> (65535 :: rat)" by linarith
  then have "\<bar>of_int ?f - of_int (ms mod 1000) * 2 ^ 32 / 1000\<bar> \<le> (65537 :: rat)" using f(2) by linarith
  then have "\<bar>?y - of_int (ms mod 1000)\<bar> < 1 / 2" by (simp add: abs_if field_simps split: if_splits)
  moreover have "0 \<le> ?y" by (intro divide_nonneg_nonneg) (simp_all del: of_int_uint)
  ultimately have "cround ?y = ms mod 1000" unfolding cround_def by (simp add: floor_eq_iff abs_if split: if_splits)
  moreover have "fl (fl (fl (of_int ?f) * 1000) / of_int NTP_FRACT_UNIT) = ?y"
    by (rule ntp_back) (use uint_lt2p [of "f AND 0xffff0000"] in simp_all)
  moreover have "uint (word_of_int (ms div 1000) AND (0x0000ffff :: u32)) = ms div 1000 mod 65536"
    by (simp add: uint_low_half uint_word_of_int_eq take_bit_eq_mod mod_mod_cancel)
  ultimately have "ntp_to_millisec \<lparr>ntp_sec = ntp_sec ntp AND 0x0000ffff, ntp_frac = ntp_frac ntp AND 0xffff0000\<rparr> =
      ms div 1000 mod 65536 * 1000 + ms mod 1000"
    by (simp only: ntp_to_millisec_def NTP_TIMESTAMP.select_convs f(1))
  also have "\<dots> = ms mod 65536000" using mod_mult2_eq' [of ms 1000 65536] by simp
  finally show ?thesis .
qed

text \<open>The middle 32 bits of a time stamp, which RFC 3550 puts into the LSR field, are decoded to the cut stamp.\<close>

definition middle_bits :: "NTP_TIMESTAMP \<Rightarrow> u32" where
  "middle_bits ntp = push_bit 16 (ntp_sec ntp) OR drop_bit 16 (ntp_frac ntp)"

lemma decode_middle:
  "drop_bit 16 (middle_bits ntp AND 0xffff0000) = ntp_sec ntp AND 0x0000ffff"
  "push_bit 16 (middle_bits ntp AND 0xffff) = ntp_frac ntp AND 0xffff0000"
proof -
  show "drop_bit 16 (middle_bits ntp AND 0xffff0000) = ntp_sec ntp AND 0x0000ffff"
  proof (rule bit_word_eqI)
    fix n assume n: "n < LENGTH(32)"
    then show "bit (drop_bit 16 (middle_bits ntp AND 0xffff0000)) n = bit (ntp_sec ntp AND 0x0000ffff) n"
      using bit_imp_le_length [of "ntp_frac ntp" "n + 32"]
      by (simp only: bit_drop_bit_eq comp_def bit_high_half bit_low_half) (auto simp: middle_bits_def bit_simps dest: bit_imp_le_length)
  qed
  show "push_bit 16 (middle_bits ntp AND 0xffff) = ntp_frac ntp AND 0xffff0000"
  proof (rule bit_word_eqI)
    fix n assume n: "n < LENGTH(32)"
    then show "bit (push_bit 16 (middle_bits ntp AND 0xffff)) n = bit (ntp_frac ntp AND 0xffff0000) n"
      by (simp only: bit_push_bit_iff bit_high_half bit_low_half) (auto simp: middle_bits_def bit_simps)
  qed
qed

lemma millisec_to_ntp_ok: "0 \<le> ms \<Longrightarrow> \<exists>ntp. millisec_to_ntp ms = Inr ntp"
  using ntp_of_millisec by metis

lemma reported_rtt_eq:
  assumes "0 \<le> now" "0 \<le> t0" "millisec_to_ntp t0 = Inr ntp"
  shows "reported_rtt now (middle_bits ntp) dlsr = Inr (to_int32 (now mod 65536000 - t0 mod 65536000 - uint (dlsr * 1000 div 65536)))"
proof -
  obtain n where n: "millisec_to_ntp now = Inr n" using millisec_to_ntp_ok [OF assms(1)] by blast
  have "uint (word_of_int (now mod 65536000) :: u32) = now mod 65536000"
    by (simp add: uint_word_of_int_eq take_bit_int_eq_self)
  then show ?thesis using n ntp_cut [OF assms(1) n] ntp_cut [OF assms(2,3)] unfolding reported_rtt_def decode_middle by (simp add: Let_def)
qed

lemma dlsr_ms: "uint dlsr < 4294968 \<Longrightarrow> uint ((dlsr :: u32) * 1000 div 65536) = uint dlsr * 1000 div 65536"
  by (simp add: uint_div uint_word_ariths)

lemma to_int32_id: "- 2147483648 \<le> v \<Longrightarrow> v < 2147483648 \<Longrightarrow> to_int32 v = v"
  unfolding to_int32_def by (simp add: sint_sbintrunc' signed_take_bit_int_eq_self)

text \<open>
  C22. The round-trip time is exact: when the receiver reports the middle bits of the time stamp of a
  sender report made at \<open>t0\<close> and holds it back for \<open>dlsr\<close> units of 1/65536 s (at most 65 s), the
  stream computes \<open>now - t0 - \<close> that delay to the millisecond, limited to 150 ms (and a negative
  value becomes 1), as long as the 16 bits of seconds have not wrapped in between.
\<close>

theorem rtt_exact:
  assumes "0 \<le> t0" "t0 \<le> now" "now div 65536000 = t0 div 65536000" "millisec_to_ntp t0 = Inr ntp"
    and "rr_get_lsr rr = middle_bits ntp" "middle_bits ntp \<noteq> 0" "uint (rr_get_dlsr rr) < 4294968"
  shows "\<exists>s'. handle_rtcp_rr now rr s = Inr s' \<and>
    rs_rtt s' = clamp_rtt (now - t0 - uint (rr_get_dlsr rr) * 1000 div 65536)"
proof -
  have "now - t0 = now mod 65536000 - t0 mod 65536000" 
    using div_mult_mod_eq [of now 65536000] div_mult_mod_eq [of t0 65536000] assms(3) by linarith
  moreover have "0 \<le> now mod 65536000" "now mod 65536000 < 65536000" "0 \<le> t0 mod 65536000" "t0 mod 65536000 < 65536000" by simp_all
  moreover have "0 \<le> uint (rr_get_dlsr rr) * 1000 div 65536" by (simp add: pos_imp_zdiv_nonneg_iff)
  moreover have "uint (rr_get_dlsr rr) * 1000 div 65536 \<le> 65536" using assms(7) by simp
  ultimately have "to_int32 (now mod 65536000 - t0 mod 65536000 - uint (rr_get_dlsr rr) * 1000 div 65536) =
      now - t0 - uint (rr_get_dlsr rr) * 1000 div 65536" by (subst to_int32_id) linarith+
  with reported_rtt_eq [of now t0 ntp "rr_get_dlsr rr"] assms show ?thesis
    by (simp add: handle_rtcp_rr_def Let_def dlsr_ms)
qed

theorem rtt_exact_witness:
  "let rr = \<lparr>rr_data = replicate 24 0 @ write_4bytes (push_bit 16 1700000000) @ write_4bytes 0\<rparr> in
    \<exists>s'. handle_rtcp_rr 1700000000050 rr (new_rtp_send_stream [] True) = Inr s' \<and> rs_rtt s' = 50"
proof -
  let ?rr = "\<lparr>rr_data = replicate 24 0 @ write_4bytes (push_bit 16 1700000000) @ write_4bytes 0\<rparr>"
  let ?ntp = "\<lparr>ntp_sec = 1700000000, ntp_frac = 0\<rparr>"
  have ntp: "millisec_to_ntp 1700000000000 = Inr ?ntp"
    by (simp add: millisec_to_ntp_def sdiv_nonneg to_unsigned_def ctrunc_def Let_def)
  have lsr: "rr_get_lsr ?rr = middle_bits ?ntp" "rr_get_dlsr ?rr = 0"
    using be_at(2) [of "replicate 24 0" 24] be_at(2) [of "replicate 24 0 @ write_4bytes (push_bit 16 1700000000)" 28 0 "[]"]
    by (simp_all add: rr_get_lsr_def rr_get_dlsr_def middle_bits_def)
  have "middle_bits ?ntp \<noteq> 0" by (simp add: middle_bits_def)
  with rtt_exact [of 1700000000000 1700000000050 ?ntp ?rr "new_rtp_send_stream [] True"] ntp lsr show ?thesis
    by (simp add: clamp_rtt_def)
qed

text \<open>The invariant of the round-trip times, whatever is reported.\<close>

lemma rtt_bounded:
  assumes "rtt_ok s" "0 \<le> now" shows "\<exists>s'. handle_rtcp_rr now rr s = Inr s' \<and> rtt_ok s'"
proof (cases "rr_get_lsr rr = 0")
  case True
  then show ?thesis using assms by (simp add: handle_rtcp_rr_def rtt_ok_def RTT_DEFAULT_def Let_def)
next
  case False
  obtain n where "millisec_to_ntp now = Inr n" using millisec_to_ntp_ok [OF assms(2)] by blast
  then obtain r where "reported_rtt now (rr_get_lsr rr) (rr_get_dlsr rr) = Inr r" by (simp add: reported_rtt_def Let_def)
  with False assms(1) clamp_rtt_range [of r] avg_step [of "clamp_rtt r" "rs_avg_rtt s"] show ?thesis
    by (auto simp: handle_rtcp_rr_def rtt_ok_def Let_def)
qed

end
