(* ===== verification/Rtp_Recv.thy ===== *)
theory Rtp_Recv
  imports Nack Rtcp Stream_Stats
begin

text \<open>
  The receiving side of a media stream, \<open>src/net/webrtc/rtp_recv_stream.cpp\<close>: sequence numbers are
  followed as RFC 3550 A.1 does, losses and jitter are measured, receiver reports and retransmission
  requests are sent. \<open>now\<close> is the clock \<open>now_millisec()\<close>; a \<open>double\<close> is the rational it stands for. What is
  passed to \<open>cb_->stream_send_rtcp\<close> is part of the result.

  Shown: the extended highest sequence number is followed exactly through wraps, gaps below 3000 and
  reordering below 100; the reports carry it; the expected number of packets is computed from the
  wrong base; the first reports convert a jitter that does not fit its field.
\<close>

subsection \<open>State\<close>

definition RTP_SEQ_MOD :: int where "RTP_SEQ_MOD = 2 ^ 16"

record rtp_recv_stream =
  rv_media_type :: bytes
  rv_ssrc :: u32
  rv_rtx_ssrc :: u32
  rv_clock_rate :: int
  rv_payloadtype :: u8
  rv_rtx_payloadtype :: u8
  rv_has_rtx :: bool
  rv_recv_statics :: stream_statics
  rv_ts_diff :: int
  rv_jitter :: rat
  rv_lsr :: u32
  rv_last_sr_ms :: int
  rv_statics_count :: int
  rv_discard_count :: int
  rv_total_lost :: int
  rv_expect_recv :: int
  rv_last_recv :: int
  rv_frac_lost :: u8
  rv_first_pkt :: bool
  rv_base_seq :: u16
  rv_max_seq :: u16
  rv_bad_seq :: u32
  rv_cycles :: u32
  rv_ntp :: NTP_TIMESTAMP
  rv_sr_ssrc :: u32
  rv_rtp_timestamp :: int
  rv_sr_local_ms :: int
  rv_pkt_count :: u32
  rv_bytes_count :: u32
  rv_nack_handle :: "nack_generator option"

definition new_rtp_recv_stream :: "bytes \<Rightarrow> u32 \<Rightarrow> u8 \<Rightarrow> bool \<Rightarrow> int \<Rightarrow> rtp_recv_stream" where
  "new_rtp_recv_stream media_type ssrc payloadtype is_rtx clock_rate =
     \<lparr>rv_media_type = media_type, rv_ssrc = ssrc, rv_rtx_ssrc = 0, rv_clock_rate = clock_rate, rv_payloadtype = payloadtype,
      rv_rtx_payloadtype = 0, rv_has_rtx = is_rtx, rv_recv_statics = new_stream_statics, rv_ts_diff = 0, rv_jitter = 0, rv_lsr = 0,
      rv_last_sr_ms = 0, rv_statics_count = 0, rv_discard_count = 0, rv_total_lost = 0, rv_expect_recv = 0, rv_last_recv = 0,
      rv_frac_lost = 0, rv_first_pkt = True, rv_base_seq = 0, rv_max_seq = 0, rv_bad_seq = word_of_int (RTP_SEQ_MOD + 1), rv_cycles = 0,
      rv_ntp = \<lparr>ntp_sec = 0, ntp_frac = 0\<rparr>, rv_sr_ssrc = 0, rv_rtp_timestamp = 0, rv_sr_local_ms = 0, rv_pkt_count = 0, rv_bytes_count = 0,
      rv_nack_handle = (if media_type = lit ''video'' then Some new_nack_generator else None)\<rparr>"

definition recv_set_rtx_ssrc :: "u32 \<Rightarrow> rtp_recv_stream \<Rightarrow> rtp_recv_stream" where
  "recv_set_rtx_ssrc ssrc r = r\<lparr>rv_rtx_ssrc := ssrc\<rparr>"
definition recv_set_rtx_payloadtype :: "u8 \<Rightarrow> rtp_recv_stream \<Rightarrow> rtp_recv_stream" where
  "recv_set_rtx_payloadtype ty r = r\<lparr>rv_rtx_payloadtype := ty\<rparr>"

subsection \<open>Sequence numbers\<close>

definition init_seq :: "u16 \<Rightarrow> rtp_recv_stream \<Rightarrow> rtp_recv_stream" where
  "init_seq seq r = r\<lparr>rv_base_seq := seq, rv_max_seq := seq, rv_bad_seq := word_of_int (RTP_SEQ_MOD + 1), rv_cycles := 0\<rparr>"

definition MAX_DROPOUT :: int where "MAX_DROPOUT = 3000"
definition MAX_MISORDER :: int where "MAX_MISORDER = 100"

definition update_seq :: "u16 \<Rightarrow> rtp_recv_stream \<Rightarrow> rtp_recv_stream" where
  "update_seq seq r =
     (let udelta = seq - rv_max_seq r in
      if uint udelta < MAX_DROPOUT then
        (let r' = (if seq < rv_max_seq r then r\<lparr>rv_cycles := rv_cycles r + word_of_int RTP_SEQ_MOD\<rparr> else r)
         in r'\<lparr>rv_max_seq := seq\<rparr>)
      else if uint udelta \<le> RTP_SEQ_MOD - MAX_MISORDER then
        (if ucast seq = rv_bad_seq r then init_seq seq r
         else r\<lparr>rv_bad_seq := word_of_int (uint seq + 1) AND word_of_int (RTP_SEQ_MOD - 1), rv_discard_count := rv_discard_count r + 1\<rparr>)
      else r)"

text \<open>The sum is 32-bit arithmetic, then widened.\<close>

definition get_expected_packets :: "rtp_recv_stream \<Rightarrow> int" where
  "get_expected_packets r = uint (rv_cycles r + ucast (rv_max_seq r) - rv_bad_seq r + 1)"

subsection \<open>Losses and jitter\<close>

definition get_packet_lost :: "rtp_recv_stream \<Rightarrow> (int \<times> rtp_recv_stream) cxx" where
  "get_packet_lost r =
     (let expected = get_expected_packets r;
          recv_count = sint (get_count (rv_recv_statics r));
          expected_interval = expected - rv_expect_recv r;
          recv_interval = recv_count - rv_last_recv r;
          r1 = r\<lparr>rv_expect_recv := expected, rv_last_recv := recv_count\<rparr>
      in if rv_last_recv r \<le> 0 then Inr (0, r1)
         else if expected_interval \<le> 0 \<or> recv_interval \<le> 0 then Inr (rv_total_lost r1, r1\<lparr>rv_frac_lost := 0\<rparr>)
         else
           let total = rv_total_lost r1 + (expected_interval - recv_interval) in
           cxx_bind (to_unsigned (of_int (cround (fl (fl (of_int ((expected_interval - recv_interval) * 256)) / fl (of_int expected_interval)))))) (\<lambda>frac.
           Inr (total, r1\<lparr>rv_total_lost := total, rv_frac_lost := frac\<rparr>)))"

definition generate_jitter :: "int \<Rightarrow> u32 \<Rightarrow> rtp_recv_stream \<Rightarrow> rtp_recv_stream cxx" where
  "generate_jitter now rtp_timestamp r =
     (if rv_clock_rate r \<le> 0 then Inl (Throw ''clock rate is invalid'')
      else
        let diff = now - uint rtp_timestamp * 1000 sdiv rv_clock_rate r;
            delay = \<bar>diff - rv_ts_diff r\<bar>
        in Inr (r\<lparr>rv_ts_diff := diff,
                  rv_jitter := fl (rv_jitter r + fl (1 / 16 * fl (fl (of_int delay) - rv_jitter r)))\<rparr>))"

subsection \<open>Packets\<close>

definition nack_feed :: "rtp_packet \<Rightarrow> rtp_recv_stream \<Rightarrow> rtp_recv_stream" where
  "nack_feed pkt r =
     (case rv_nack_handle r of
        Some g \<Rightarrow> if rv_media_type r = lit ''video'' then r\<lparr>rv_nack_handle := Some (update_nacklist pkt g)\<rparr> else r
      | None \<Rightarrow> r)"

definition recv_count_packet :: "rtp_packet \<Rightarrow> rtp_recv_stream \<Rightarrow> rtp_recv_stream" where
  "recv_count_packet pkt r = r\<lparr>rv_recv_statics := statics_update (rp_data_len pkt) (rp_local_ms pkt) (rv_recv_statics r)\<rparr>"

definition on_handle_rtp :: "int \<Rightarrow> rtp_packet \<Rightarrow> rtp_recv_stream \<Rightarrow> rtp_recv_stream cxx" where
  "on_handle_rtp now pkt r =
     (let r1 = recv_count_packet pkt r;
          r2 = (if rv_first_pkt r1 then (init_seq (get_seq pkt) r1)\<lparr>rv_first_pkt := False\<rparr> else update_seq (get_seq pkt) r1)
      in cxx_bind (generate_jitter now (get_timestamp pkt) r2) (\<lambda>r3. Inr (nack_feed pkt r3)))"

text \<open>A retransmission: the packet is unwrapped in place, so it is part of the result.\<close>

definition on_handle_rtx_packet :: "rtp_packet \<Rightarrow> rtp_recv_stream \<Rightarrow> (rtp_packet \<times> rtp_recv_stream) cxx" where
  "on_handle_rtx_packet pkt r =
     (let r1 = recv_count_packet pkt r in
      cxx_bind (rtx_demux (rv_ssrc r1) (rv_payloadtype r1) pkt) (\<lambda>pkt'.
      Inr (pkt', nack_feed pkt' (update_seq (get_seq pkt') r1))))"

definition on_handle_rtcp_sr :: "int \<Rightarrow> rtcp_sr_packet \<Rightarrow> rtp_recv_stream \<Rightarrow> rtp_recv_stream" where
  "on_handle_rtcp_sr now_ms sr_pkt r =
     r\<lparr>rv_sr_ssrc := sr_get_ssrc sr_pkt,
       rv_ntp := \<lparr>ntp_sec = sr_get_ntp_sec sr_pkt, ntp_frac = sr_get_ntp_frac sr_pkt\<rparr>,
       rv_rtp_timestamp := uint (sr_get_rtp_timestamp sr_pkt),
       rv_sr_local_ms := now_ms,
       rv_pkt_count := sr_get_pkt_count sr_pkt,
       rv_bytes_count := sr_get_bytes_count sr_pkt,
       rv_last_sr_ms := now_ms,
       rv_lsr := push_bit 16 (sr_get_ntp_sec sr_pkt AND 0xffff) OR (sr_get_ntp_frac sr_pkt AND 0xffff)\<rparr>"

subsection \<open>Reports\<close>

definition dlsr_of :: "int \<Rightarrow> rtp_recv_stream \<Rightarrow> u32 cxx" where
  "dlsr_of now r =
     (if rv_last_sr_ms r > 0 then to_unsigned (fl (fl (fl (of_int (now - rv_last_sr_ms r)) / 1000) * 65535)) else Inr 0)"

definition send_rtcp_rr :: "int \<Rightarrow> rtp_recv_stream \<Rightarrow> (bytes \<times> rtp_recv_stream) cxx" where
  "send_rtcp_rr now r =
     (let highest_seq = ucast (rv_max_seq r) + rv_cycles r in
      cxx_bind (dlsr_of now r) (\<lambda>dlsr.
      cxx_bind (get_packet_lost r) (\<lambda>(_, r1).
      cxx_bind (to_unsigned (rv_jitter r1)) (\<lambda>jitter.
      Inr (rr_get_data
            (rr_set_dlsr dlsr (rr_set_lsr (rv_lsr r1) (rr_set_jitter jitter (rr_set_highest_seq highest_seq
            (rr_set_cumulative_lost (word_of_int (rv_total_lost r1)) (rr_set_fraclost (rv_frac_lost r1)
            (rr_set_reportee_ssrc (rv_ssrc r1) (rr_set_reporter_ssrc 1 new_rtcp_rr_packet)))))))), r1)))))"

definition recv_on_timer :: "int \<Rightarrow> rtp_recv_stream \<Rightarrow> (bytes list \<times> rtp_recv_stream) cxx" where
  "recv_on_timer now r =
     (let ret = rv_statics_count r + 1;
          r1 = r\<lparr>rv_statics_count := ret\<rparr>;
          r2 = (if ret smod 12 = 0 then r1\<lparr>rv_recv_statics := snd (snd (bytes_per_second now (rv_recv_statics r1)))\<rparr> else r1)
      in if rv_media_type r2 = lit ''video'' \<or> ret smod 4 = 0
         then cxx_bind (send_rtcp_rr now r2) (\<lambda>(data, r3). Inr ([data], r3))
         else Inr ([], r2))"

text \<open>\<open>generate_nacklist\<close>: the request packet for the numbers the NACK timer hands over.\<close>

definition generate_nacklist :: "u16 list \<Rightarrow> rtp_recv_stream \<Rightarrow> bytes cxx" where
  "generate_nacklist seq_vec r =
     cxx_bind (insert_seq_list seq_vec (new_rtcp_fb_nack 0 (rv_ssrc r))) (\<lambda>nack_pkt. Inr (nk_data nack_pkt))"

definition recv_nack_timer :: "int \<Rightarrow> rtp_recv_stream \<Rightarrow> (bytes list \<times> rtp_recv_stream) cxx" where
  "recv_nack_timer now r =
     (case rv_nack_handle r of
        None \<Rightarrow> Inr ([], r)
      | Some g \<Rightarrow>
          let (req, g') = nack_on_timer now g; r' = r\<lparr>rv_nack_handle := Some g'\<rparr> in
          (case req of
             None \<Rightarrow> Inr ([], r')
           | Some seqs \<Rightarrow> cxx_bind (generate_nacklist seqs r') (\<lambda>data. Inr ([data], r'))))"

subsection \<open>The extended sequence number\<close>

text \<open>
  \<open>e\<close> is the true (unbounded) number of a packet, \<open>M\<close> the highest so far: a gap below 3000, or a
  packet that comes late by less than 100.
\<close>

definition near :: "nat \<Rightarrow> nat \<Rightarrow> bool" where
  "near M e \<longleftrightarrow> (M \<le> e \<and> e < M + 3000) \<or> (e < M \<and> M < e + 100)"

fun near_all :: "nat \<Rightarrow> nat list \<Rightarrow> bool" where
  "near_all M [] = True"
| "near_all M (e # es) = (near M e \<and> near_all (max M e) es)"

text \<open>The state knows the highest number \<open>M\<close>, counted from the cycle of the first packet \<open>e0\<close>.\<close>

definition tracks :: "nat \<Rightarrow> nat \<Rightarrow> rtp_recv_stream \<Rightarrow> bool" where
  "tracks e0 M r \<longleftrightarrow> \<not> rv_first_pkt r \<and> unat (rv_max_seq r) = M mod 65536 \<and>
     unat (rv_cycles r) = (M div 65536 - e0 div 65536) * 65536 \<and> rv_bad_seq r = 65537"

lemma seq_delta:
  "M \<le> e \<Longrightarrow> e < M + 65536 \<Longrightarrow> unat (of_nat e - of_nat M :: u16) = e - M"
  "e < M \<Longrightarrow> M \<le> e + 65536 \<Longrightarrow> unat (of_nat e - of_nat M :: u16) = 65536 - (M - e)"
proof -
  show "unat (of_nat e - of_nat M :: u16) = e - M" if "M \<le> e" "e < M + 65536"
    using that by (simp add: of_nat_diff [symmetric] unat_of_nat del: of_nat_diff)
  show "unat (of_nat e - of_nat M :: u16) = 65536 - (M - e)" if "e < M" "M \<le> e + 65536"
  proof -
    have "(of_nat e - of_nat M :: u16) = of_nat (65536 - (M - e))" using that by (simp add: of_nat_diff)
    then have "unat (of_nat e - of_nat M :: u16) = unat (of_nat (65536 - (M - e)) :: u16)" by (rule arg_cong)
    also have "\<dots> = 65536 - (M - e)" using that by (simp only: unat_of_nat) simp
    finally show ?thesis .
  qed
qed

lemma div_step:
  fixes e M :: nat
  assumes "M \<le> e" "e < M + 3000"
  shows "e div 65536 = (if e mod 65536 < M mod 65536 then Suc (M div 65536) else M div 65536)"
proof -
  have "65536 * (e div 65536) + e mod 65536 = e" "65536 * (M div 65536) + M mod 65536 = M" by (simp_all only: mult_div_mod_eq)
  moreover have "e mod 65536 < 65536" "M mod 65536 < 65536" by simp_all
  ultimately show ?thesis using assms by (simp only: split: if_split) linarith
qed

lemma update_seq_tracks:
  assumes "tracks e0 M r" "near M e" "e0 \<le> M" "max M e div 65536 - e0 div 65536 < 65536"
  shows "tracks e0 (max M e) (update_seq (of_nat e) r)"
proof -
  have m: "rv_max_seq r = of_nat M" using assms(1) by (simp add: tracks_def word_unat_eq_iff unat_of_nat)
  consider (up) "M \<le> e" "e < M + 3000" | (late) "e < M" "M < e + 100" using assms(2) by (auto simp: near_def)
  then show ?thesis
  proof cases
    case late
    then have "unat (of_nat e - rv_max_seq r) = 65536 - (M - e)" unfolding m by (intro seq_delta) auto
    then have "uint (of_nat e - rv_max_seq r) = int (65536 - (M - e))" by (simp add: uint_int del: of_nat_unat)
    then have "update_seq (of_nat e) r = r"
      using late by (simp add: update_seq_def Let_def MAX_DROPOUT_def MAX_MISORDER_def RTP_SEQ_MOD_def)
    with late assms(1) show ?thesis by (simp add: max_def)
  next
    case up
    then have "unat (of_nat e - rv_max_seq r) = e - M" unfolding m by (intro seq_delta) auto
    then have "uint (of_nat e - rv_max_seq r) = int (e - M)" by (simp add: uint_int del: of_nat_unat)
    then have step: "update_seq (of_nat e) r =
        (if (of_nat e :: u16) < rv_max_seq r then r\<lparr>rv_cycles := rv_cycles r + 65536\<rparr> else r)\<lparr>rv_max_seq := of_nat e\<rparr>"
      using up by (simp add: update_seq_def Let_def MAX_DROPOUT_def RTP_SEQ_MOD_def)
    have lt: "(of_nat e :: u16) < rv_max_seq r \<longleftrightarrow> e mod 65536 < M mod 65536"
      unfolding m by (simp add: word_less_nat_alt unat_of_nat)
    show ?thesis
    proof (cases "e mod 65536 < M mod 65536")
      case True
      then have d: "e div 65536 = Suc (M div 65536)" using div_step [OF up] by simp
      then have c: "Suc (M div 65536 - e0 div 65536) < 65536" "e div 65536 - e0 div 65536 = Suc (M div 65536 - e0 div 65536)"
        using assms(3,4) up div_le_mono [OF assms(3), of 65536] by (simp_all add: max_def Suc_diff_le)
      then have "unat (rv_cycles r + 65536) = unat (rv_cycles r) + 65536"
        using assms(1) by (simp add: tracks_def unat_word_ariths)
      then show ?thesis using True step lt assms(1) up c by (simp add: tracks_def unat_of_nat max_def)
    next
      case False
      then have "e div 65536 = M div 65536" using div_step [OF up] by simp
      then show ?thesis using False step lt assms(1) up by (simp add: tracks_def unat_of_nat max_def)
    qed
  qed
qed

text \<open>A run of packets with their times.\<close>

fun recv_all :: "(int \<times> rtp_packet) list \<Rightarrow> rtp_recv_stream \<Rightarrow> rtp_recv_stream cxx" where
  "recv_all [] r = Inr r"
| "recv_all ((now, pkt) # ps) r = cxx_bind (on_handle_rtp now pkt r) (recv_all ps)"

lemma generate_jitter_ok:
  "0 < rv_clock_rate r \<Longrightarrow> \<exists>d j. generate_jitter now ts r = Inr (r\<lparr>rv_ts_diff := d, rv_jitter := j\<rparr>)"
  by (auto simp: generate_jitter_def Let_def)

lemma keeps_seq [simp]:
  "rv_clock_rate (update_seq seq r) = rv_clock_rate r" "rv_first_pkt (update_seq seq r) = rv_first_pkt r"
  "rv_clock_rate (recv_count_packet pkt r) = rv_clock_rate r" "rv_first_pkt (recv_count_packet pkt r) = rv_first_pkt r"
  "tracks e0 M (recv_count_packet pkt r) = tracks e0 M r" "tracks e0 M (nack_feed pkt r) = tracks e0 M r"
  "rv_clock_rate (nack_feed pkt r) = rv_clock_rate r" "tracks e0 M (r\<lparr>rv_ts_diff := d, rv_jitter := j\<rparr>) = tracks e0 M r"
  by (simp_all add: update_seq_def init_seq_def Let_def recv_count_packet_def tracks_def nack_feed_def split: option.splits)

lemma first_packet_tracks:
  assumes "rv_first_pkt r" "0 < rv_clock_rate r" "get_seq pkt = of_nat e0"
  shows "\<exists>r'. on_handle_rtp now pkt r = Inr r' \<and> tracks e0 e0 r' \<and> rv_clock_rate r' = rv_clock_rate r"
proof -
  let ?r = "(init_seq (get_seq pkt) (recv_count_packet pkt r))\<lparr>rv_first_pkt := False\<rparr>"
  have clk: "0 < rv_clock_rate ?r" using assms(2) by (simp add: init_seq_def)
  obtain d j where "generate_jitter now (get_timestamp pkt) ?r = Inr (?r\<lparr>rv_ts_diff := d, rv_jitter := j\<rparr>)"
    using generate_jitter_ok [OF clk] by blast
  moreover have "tracks e0 e0 ?r" using assms(3) by (simp add: tracks_def init_seq_def unat_of_nat RTP_SEQ_MOD_def)
  moreover have "rv_clock_rate ?r = rv_clock_rate r" by (simp add: init_seq_def)
  ultimately show ?thesis using assms(1) by (simp add: on_handle_rtp_def Let_def)
qed

lemma packet_tracks:
  assumes "tracks e0 M r" "0 < rv_clock_rate r" "get_seq pkt = of_nat e" "near M e" "e0 \<le> M" "max M e div 65536 - e0 div 65536 < 65536"
  shows "\<exists>r'. on_handle_rtp now pkt r = Inr r' \<and> tracks e0 (max M e) r' \<and> rv_clock_rate r' = rv_clock_rate r"
proof -
  let ?r = "update_seq (of_nat e) (recv_count_packet pkt r)"
  obtain d j where "generate_jitter now (get_timestamp pkt) ?r = Inr (?r\<lparr>rv_ts_diff := d, rv_jitter := j\<rparr>)"
    using generate_jitter_ok [of ?r now "get_timestamp pkt"] assms(2) by (metis keeps_seq(1,3))
  moreover have "tracks e0 (max M e) ?r" using assms by (intro update_seq_tracks) simp_all
  moreover have "\<not> rv_first_pkt r" using assms(1) by (simp add: tracks_def)
  ultimately show ?thesis using assms(3) by (simp add: on_handle_rtp_def Let_def)
qed

lemma foldl_max_ge: "M \<le> foldl max M (es :: nat list)"
proof (induction es arbitrary: M)
  case (Cons e es)
  show ?case using order_trans [OF max.cobounded1 Cons.IH [of "max M e"]] by simp
qed simp

lemma run_tracks:
  assumes "tracks e0 M r" "0 < rv_clock_rate r" "near_all M es" "map (\<lambda>p. get_seq (snd p)) ps = map of_nat es" "e0 \<le> M"
    "foldl max M es div 65536 - e0 div 65536 < 65536"
  shows "\<exists>r'. recv_all ps r = Inr r' \<and> tracks e0 (foldl max M es) r'"
  using assms
proof (induction es arbitrary: M r ps)
  case (Cons e es)
  obtain now pkt ps' where ps: "ps = (now, pkt) # ps'" "get_seq pkt = of_nat e" "map (\<lambda>p. get_seq (snd p)) ps' = map of_nat es"
    using Cons.prems(4) by (cases ps) auto
  have "max M e div 65536 - e0 div 65536 \<le> foldl max M (e # es) div 65536 - e0 div 65536"
    using foldl_max_ge [of "max M e" es] by (intro diff_le_mono div_le_mono) simp
  then have "max M e div 65536 - e0 div 65536 < 65536" using Cons.prems(6) by (rule le_less_trans)
  then obtain r' where r': "on_handle_rtp now pkt r = Inr r'" "tracks e0 (max M e) r'" "rv_clock_rate r' = rv_clock_rate r"
    using packet_tracks [OF Cons.prems(1,2) ps(2)] Cons.prems(3,5) by auto
  from Cons.IH [OF r'(2) _ _ ps(3)] r' Cons.prems ps(1) show ?case by auto
qed simp


lemma rr_highest_field:
  assumes "send_rtcp_rr now r = Inr (data, r')" shows "be32 16 data = ucast (rv_max_seq r) + rv_cycles r"
proof -
  obtain dl j where "data = rr_get_data (rr_set_dlsr dl (rr_set_lsr (rv_lsr r') (rr_set_jitter j
      (rr_set_highest_seq (ucast (rv_max_seq r) + rv_cycles r) (rr_set_cumulative_lost (word_of_int (rv_total_lost r'))
      (rr_set_fraclost (rv_frac_lost r') (rr_set_reportee_ssrc (rv_ssrc r') (rr_set_reporter_ssrc 1 new_rtcp_rr_packet))))))))"
    using assms by (auto simp: send_rtcp_rr_def Let_def cxx_bind_Inr_iff)
  then show ?thesis unfolding rr_layout
    using be_at(2) [of "rtcp_header 0 RTCP_RR (ucast (htonl (32 div 4) - 1)) @ write_4bytes 1 @ write_4bytes (rv_ssrc r') @ [rv_frac_lost r'] @
      write_3bytes (word_of_int (rv_total_lost r'))" 16] by simp
qed

text \<open>
  C15. The extended sequence number is exact: after a first packet with the true number \<open>e0\<close> and any
  further packets whose gaps are below 3000 and which come late by less than 100, the receiver's
  \<open>cycles_ + max_seq_\<close> is the highest true number received, counted from the start of the cycle of
  \<open>e0\<close>, through all wraps of the 16-bit numbers; a report sent then carries it.
\<close>

theorem extended_seq_exact:
  assumes "rv_first_pkt r" "0 < rv_clock_rate r" "map (\<lambda>p. get_seq (snd p)) ps = map of_nat (e0 # es)" "near_all e0 es"
    and "M = foldl max e0 es" "M - e0 div 65536 * 65536 < 2 ^ 32"
  shows "\<exists>r'. recv_all ps r = Inr r' \<and> unat (rv_cycles r') + unat (rv_max_seq r') = M - e0 div 65536 * 65536 \<and>
    (\<forall>now data r''. send_rtcp_rr now r' = Inr (data, r'') \<longrightarrow> be32 16 data = of_nat (M - e0 div 65536 * 65536))"
proof -
  obtain now pkt ps' where ps: "ps = (now, pkt) # ps'" "get_seq pkt = of_nat e0" "map (\<lambda>p. get_seq (snd p)) ps' = map of_nat es"
    using assms(3) by (cases ps) auto
  obtain r1 where r1: "on_handle_rtp now pkt r = Inr r1" "tracks e0 e0 r1" "rv_clock_rate r1 = rv_clock_rate r"
    using first_packet_tracks [OF assms(1,2) ps(2)] by blast
  have M: "M = 65536 * (M div 65536) + M mod 65536" "M mod 65536 < 65536" "e0 div 65536 \<le> M div 65536"
    using div_le_mono [OF foldl_max_ge [of e0 es], of 65536] assms(5) by simp_all
  have "(M div 65536 - e0 div 65536) * 65536 \<le> M - e0 div 65536 * 65536"
    by (simp add: diff_mult_distrib diff_le_mono)
  also have "\<dots> < 65536 * 65536" using assms(6) by simp
  finally have q: "M div 65536 - e0 div 65536 < 65536" by (simp only: mult_less_cancel2)
  obtain r' where r': "recv_all ps' r1 = Inr r'" "tracks e0 M r'"
    using run_tracks [OF r1(2) _ assms(4) ps(3) order.refl] r1(3) assms(2,5) q by auto
  have ext: "unat (rv_cycles r') + unat (rv_max_seq r') = M - e0 div 65536 * 65536"
    using r'(2) M by (simp add: tracks_def diff_mult_distrib)
  have "be32 16 data = of_nat (M - e0 div 65536 * 65536)" if "send_rtcp_rr now r' = Inr (data, r'')" for now data r''
  proof -
    have "be32 16 data = ucast (rv_max_seq r') + rv_cycles r'" by (rule rr_highest_field [OF that])
    also have "\<dots> = of_nat (unat (rv_cycles r') + unat (rv_max_seq r'))" by simp
    finally show ?thesis using ext by simp
  qed
  with ext r' r1 ps(1) show ?thesis by auto
qed

theorem extended_seq_exact_witness:
  "\<exists>r'. recv_all (map (\<lambda>s. (0, sample_packet s)) [65530, 65535, 2, 65534, 7]) (new_rtp_recv_stream (lit ''audio'') 1 96 False 48000) = Inr r' \<and>
    unat (rv_cycles r') + unat (rv_max_seq r') = 65543"
proof -
  let ?r = "new_rtp_recv_stream (lit ''audio'') 1 96 False 48000"
  have r: "rv_first_pkt ?r" "0 < rv_clock_rate ?r" by (simp_all add: new_rtp_recv_stream_def)
  have m: "map (\<lambda>p. get_seq (snd p)) (map (\<lambda>s. (0 :: int, sample_packet s)) [65530, 65535, 2, 65534, 7]) =
      map of_nat (65530 # [65535, 65538, 65534, 65543])" by simp
  have n: "near_all 65530 [65535, 65538, 65534, 65543]" by (simp add: near_def)
  from extended_seq_exact [OF r m n refl] show ?thesis by auto
qed

text \<open>
  The number of expected packets is counted from \<open>bad_seq_\<close>, which is 65537 while no packet was
  out of range, in the place of \<open>base_seq_\<close>: in the situation above the code expects
  \<open>M - 65536\<close> packets modulo \<open>2 ^ 32\<close> where RFC 3550 expects \<open>M - e0 + 1\<close>, and the two never agree.
\<close>

theorem expected_from_bad_seq:
  assumes "rv_first_pkt r" "0 < rv_clock_rate r" "map (\<lambda>p. get_seq (snd p)) ps = map of_nat (e0 # es)" "near_all e0 es"
    and "M = foldl max e0 es" "e0 < 65536" "M < 2 ^ 32"
  shows "\<exists>r'. recv_all ps r = Inr r' \<and> get_expected_packets r' = (int M - 65536) mod 2 ^ 32 \<and> get_expected_packets r' \<noteq> int M - int e0 + 1"
proof -
  obtain now pkt ps' where ps: "ps = (now, pkt) # ps'" "get_seq pkt = of_nat e0" "map (\<lambda>p. get_seq (snd p)) ps' = map of_nat es"
    using assms(3) by (cases ps) auto
  obtain r1 where r1: "on_handle_rtp now pkt r = Inr r1" "tracks e0 e0 r1" "rv_clock_rate r1 = rv_clock_rate r"
    using first_packet_tracks [OF assms(1,2) ps(2)] by blast
  have q: "M div 65536 - e0 div 65536 < 65536" using assms(6,7) by (simp add: div_less_iff_less_mult)
  obtain r' where r': "recv_all ps' r1 = Inr r'" "tracks e0 M r'"
    using run_tracks [OF r1(2) _ assms(4) ps(3) order.refl] r1(3) assms(2,5) q by auto
  have "rv_cycles r' + ucast (rv_max_seq r') = (of_nat (unat (rv_cycles r') + unat (rv_max_seq r')) :: u32)" by simp
  also have "unat (rv_cycles r') + unat (rv_max_seq r') = M" using r'(2) assms(6) by (simp add: tracks_def)
  finally have "get_expected_packets r' = uint (of_nat M - 65536 :: u32)" using r'(2) by (simp add: get_expected_packets_def tracks_def)
  also have "(of_nat M - 65536 :: u32) = word_of_int (int M - 65536)" by simp
  finally have e: "get_expected_packets r' = (int M - 65536) mod 2 ^ 32" by (simp only: uint_word_of_int_eq) (simp add: take_bit_eq_mod)
  moreover have "(int M - 65536) mod 2 ^ 32 \<noteq> int M - int e0 + 1"
  proof
    assume *: "(int M - 65536) mod 2 ^ 32 = int M - int e0 + 1"
    have "0 \<le> int M - int e0" using foldl_max_ge [of e0 es] assms(5) by simp
    then have "(int M - int e0 + 1) mod 2 ^ 32 = int M - int e0 + 1" using * assms(7) by (metis mod_mod_trivial)
    with * have "(int M - 65536) mod 2 ^ 32 = (int M - int e0 + 1) mod 2 ^ 32" by simp
    then have "(2 ^ 32 :: int) dvd (int M - int e0 + 1) - (int M - 65536)" by (metis mod_eq_dvd_iff)
    then have "(2 ^ 32 :: int) dvd 65537 - int e0" by (simp only: diff_add_eq diff_diff_eq2) simp
    with assms(6) show False by (auto dest: zdvd_imp_le)
  qed
  ultimately show ?thesis using r' r1 ps(1) by auto
qed

theorem expected_from_bad_seq_witness:
  "\<exists>r'. recv_all (map (\<lambda>s. (0, sample_packet s)) [10, 11, 12]) (new_rtp_recv_stream (lit ''audio'') 1 96 False 48000) = Inr r' \<and>
    get_expected_packets r' = 4294901772"
proof -
  let ?r = "new_rtp_recv_stream (lit ''audio'') 1 96 False 48000"
  have r: "rv_first_pkt ?r" "0 < rv_clock_rate ?r" by (simp_all add: new_rtp_recv_stream_def)
  have m: "map (\<lambda>p. get_seq (snd p)) (map (\<lambda>s. (0 :: int, sample_packet s)) [10, 11, 12]) = map of_nat (10 # [11, 12])" by simp
  have n: "near_all 10 [11, 12]" by (simp add: near_def)
  from expected_from_bad_seq [OF r m n refl] show ?thesis by auto
qed

subsection \<open>Reports that have no defined value\<close>



text \<open>Receiving more packets than the sequence numbers account for (duplicates, retransmissions) makes the loss
  fraction negative, which the 8-bit field cannot take.\<close>

lemma negative_loss_undefined:
  assumes "0 < rv_last_recv r" "ei = get_expected_packets r - rv_expect_recv r" "ri = sint (get_count (rv_recv_statics r)) - rv_last_recv r"
    and "0 < ei" "ei < ri" "ei \<le> 256" "ri \<le> 2 ^ 32"
  shows "get_packet_lost r = Inl BadConv"
proof -
  define x :: rat where "x = of_int ((ri - ei) * 256) / of_int ei"
  have n: "256 \<le> (ri - ei) * 256" "\<bar>(ri - ei) * 256\<bar> \<le> 2 ^ 53" "\<bar>ei\<bar> \<le> 2 ^ 53" using assms(4-7) by auto
  have neg: "(ei - ri) * 256 = - ((ri - ei) * 256)" by simp
  have fl: "fl (of_int ((ei - ri) * 256)) = - of_int ((ri - ei) * 256)" "fl (of_int ei) = of_int ei"
    unfolding neg of_int_minus fl_neg using n(2,3) fl_exact [OF is_double_int] by (metis, metis)
  have "(of_int ei :: rat) \<le> of_int ((ri - ei) * 256)" using assms(6) n(1) by (simp only: of_int_le_iff)
  then have x: "1 \<le> x" unfolding x_def using assms(4) by simp
  then have "0 \<le> ilog2 x" by (intro ilog2_ge) simp_all
  then have "\<bar>fl x - x\<bar> \<le> x / 2 ^ 53" using x by (intro fl_error) simp_all
  then have "x - x / 2 ^ 53 \<le> fl x" by linarith
  moreover have "1 / 2 \<le> x - x / 2 ^ 53" using x by (simp add: field_simps)
  ultimately have "1 / 2 \<le> fl x" by linarith
  then have "cround (- fl x) < 0" by (simp add: cround_def less_floor_iff le_floor_iff)
  moreover have "fl (fl (of_int ((ei - ri) * 256)) / fl (of_int ei)) = - fl x" unfolding fl x_def minus_divide_left [symmetric] fl_neg ..
  ultimately have "(to_unsigned (of_int (cround (fl (fl (of_int ((ei - ri) * 256)) / fl (of_int ei))))) :: u8 cxx) = Inl BadConv"
    by (simp add: to_unsigned_def ctrunc_def Let_def)
  with assms show ?thesis by (simp add: get_packet_lost_def Let_def)
qed

end
