(* ===== verification/Stun.thy ===== *)
theory Stun
  imports Byte_Stream Byte_Crypto
begin

text \<open>
  STUN messages, \<open>src/net/stun/stun_packet.cpp\<close>: parsing with all its checks, serialising with message
  integrity and fingerprint, and the check of a request's credentials. HMAC-SHA1 is OpenSSL's, a
  parameter. A pointer into the message is the offset from \<open>origin_data\<close>; \<open>sp_origin\<close> is \<open>None\<close> when
  \<open>origin_data\<close> is the packet's own buffer.

  Shown: the parser never leaves its input; what \<open>serialize\<close> writes, \<open>parse\<close> reads back and \<open>check_auth\<close>
  accepts under the same password; a message that ends with an empty attribute is refused.
\<close>

subsection \<open>Data\<close>

datatype STUN_CLASS_ENUM = STUN_REQUEST | STUN_INDICATION | STUN_SUCCESS_RESPONSE | STUN_ERROR_RESPONSE

fun class_num :: "STUN_CLASS_ENUM \<Rightarrow> u16" where
  "class_num STUN_REQUEST = 0"
| "class_num STUN_INDICATION = 1"
| "class_num STUN_SUCCESS_RESPONSE = 2"
| "class_num STUN_ERROR_RESPONSE = 3"

definition to_class :: "u16 \<Rightarrow> STUN_CLASS_ENUM" where
  "to_class n = (if n = 0 then STUN_REQUEST else if n = 1 then STUN_INDICATION else if n = 2 then STUN_SUCCESS_RESPONSE
     else STUN_ERROR_RESPONSE)"

datatype STUN_AUTHENTICATION = OK | UNAUTHORIZED | BAD_REQUEST

definition STUN_HEADER_SIZE :: nat where "STUN_HEADER_SIZE = 20"
definition BINDING :: u16 where "BINDING = 1"
definition STUN_USERNAME :: u16 where "STUN_USERNAME = 0x0006"
definition STUN_MESSAGE_INTEGRITY :: u16 where "STUN_MESSAGE_INTEGRITY = 0x0008"
definition STUN_ERROR_CODE :: u16 where "STUN_ERROR_CODE = 0x0009"
definition STUN_XOR_MAPPED_ADDRESS :: u16 where "STUN_XOR_MAPPED_ADDRESS = 0x0020"
definition STUN_PRIORITY :: u16 where "STUN_PRIORITY = 0x0024"
definition STUN_USE_CANDIDATE :: u16 where "STUN_USE_CANDIDATE = 0x0025"
definition STUN_FINGERPRINT :: u16 where "STUN_FINGERPRINT = 0x8028"
definition STUN_ICE_CONTROLLED :: u16 where "STUN_ICE_CONTROLLED = 0x8029"
definition STUN_ICE_CONTROLLING :: u16 where "STUN_ICE_CONTROLLING = 0x802A"

lemmas attr_numbers = STUN_USERNAME_def STUN_MESSAGE_INTEGRITY_def STUN_ERROR_CODE_def STUN_XOR_MAPPED_ADDRESS_def STUN_PRIORITY_def
  STUN_USE_CANDIDATE_def STUN_FINGERPRINT_def STUN_ICE_CONTROLLED_def STUN_ICE_CONTROLLING_def

definition magic_cookie :: bytes where "magic_cookie = [0x21, 0x12, 0xA4, 0x42]"

text \<open>A \<open>sockaddr\<close>: the family, and for \<open>AF_INET\<close> the port and the address as they are in memory (network order).\<close>

record sockaddr =
  sa_family :: nat
  sin_port :: bytes
  sin_addr :: bytes

definition AF_INET :: nat where "AF_INET = 2"

record stun_packet =
  sp_class :: STUN_CLASS_ENUM
  sp_method :: u16
  sp_transaction_id :: bytes
  sp_user_name :: bytes
  sp_password :: bytes
  sp_priority :: u32
  sp_ice_controlling :: u64
  sp_ice_controlled :: u64
  sp_fingerprint :: u32
  sp_error_code :: u16
  sp_message_integrity :: "nat option"
  sp_xor_address :: "sockaddr option"
  sp_has_use_candidate :: bool
  sp_has_fingerprint :: bool
  sp_origin :: "bytes option"
  sp_data :: bytes
  sp_data_len :: nat

text \<open>The two constructors; class, method and transaction id are set by the callers.\<close>

definition new_stun_packet :: "STUN_CLASS_ENUM \<Rightarrow> u16 \<Rightarrow> bytes \<Rightarrow> stun_packet" where
  "new_stun_packet cls meth tid =
     \<lparr>sp_class = cls, sp_method = meth, sp_transaction_id = tid, sp_user_name = [], sp_password = [], sp_priority = 0,
      sp_ice_controlling = 0, sp_ice_controlled = 0, sp_fingerprint = 0, sp_error_code = 0, sp_message_integrity = None,
      sp_xor_address = None, sp_has_use_candidate = False, sp_has_fingerprint = False, sp_origin = None,
      sp_data = replicate 1500 0, sp_data_len = 0\<rparr>"

definition stun_packet_from :: "STUN_CLASS_ENUM \<Rightarrow> u16 \<Rightarrow> bytes \<Rightarrow> bytes \<Rightarrow> stun_packet cxx" where
  "stun_packet_from cls meth tid d =
     (if length d > 1500 then Inl (Throw ''the input packet len is larger than stun packet max len'')
      else Inr ((new_stun_packet cls meth tid)\<lparr>sp_origin := Some d, sp_data := d @ replicate (1500 - length d) 0, sp_data_len := length d\<rparr>))"

subsection \<open>Parsing\<close>

definition is_stun :: "bytes \<Rightarrow> bool" where
  "is_stun d \<longleftrightarrow> STUN_HEADER_SIZE \<le> length d \<and> d ! 0 < 3 \<and> d ! 4 = magic_cookie ! 0 \<and> d ! 5 = magic_cookie ! 1 \<and>
     d ! 6 = magic_cookie ! 2 \<and> d ! 7 = magic_cookie ! 3"

text \<open>The packet being filled, with the local variables of \<open>parse\<close>.\<close>

record stun_parse =
  pa_pkt :: stun_packet
  pa_has_fingerprint :: bool
  pa_has_message_integrity :: bool
  pa_fingerprint_pos :: nat

definition parse_attr :: "bytes \<Rightarrow> nat \<Rightarrow> u16 \<Rightarrow> u16 \<Rightarrow> stun_parse \<Rightarrow> stun_parse cxx" where
  "parse_attr d q attr_type attr_len st =
     (let upd = (\<lambda>f. Inr (st\<lparr>pa_pkt := f (pa_pkt st)\<rparr>)) in
      if attr_type = STUN_USERNAME then
        cxx_bind (mem_read d q (unat attr_len)) (\<lambda>s. upd (sp_user_name_update (\<lambda>_. s)))
      else if attr_type = STUN_PRIORITY then
        if attr_len \<noteq> 4 then Inl (Throw ''stun attribute priority len is not 4'')
        else cxx_bind (read_4bytes (drop q d)) (\<lambda>v. upd (sp_priority_update (\<lambda>_. v)))
      else if attr_type = STUN_ICE_CONTROLLING then
        if attr_len \<noteq> 8 then Inl (Throw ''stun attribute icecontrolling len is not 8'')
        else cxx_bind (read_8bytes (drop q d)) (\<lambda>v. upd (sp_ice_controlling_update (\<lambda>_. v)))
      else if attr_type = STUN_ICE_CONTROLLED then
        if attr_len \<noteq> 8 then Inl (Throw ''stun attribute icecontrolled len is not 8'')
        else cxx_bind (read_8bytes (drop q d)) (\<lambda>v. upd (sp_ice_controlled_update (\<lambda>_. v)))
      else if attr_type = STUN_USE_CANDIDATE then
        if attr_len \<noteq> 0 then Inl (Throw ''stun attribute use candidate len is not 0'')
        else upd (sp_has_use_candidate_update (\<lambda>_. True))
      else if attr_type = STUN_MESSAGE_INTEGRITY then
        if attr_len \<noteq> 20 then Inl (Throw ''stun attribute message integrity len is not 20'')
        else Inr (st\<lparr>pa_has_message_integrity := True, pa_pkt := (pa_pkt st)\<lparr>sp_message_integrity := Some q\<rparr>\<rparr>)
      else if attr_type = STUN_FINGERPRINT then
        if attr_len \<noteq> 4 then Inl (Throw ''stun attribute fingerprint len is not 4'')
        else cxx_bind (read_4bytes (drop q d)) (\<lambda>v.
             Inr (st\<lparr>pa_has_fingerprint := True, pa_pkt := (pa_pkt st)\<lparr>sp_fingerprint := v\<rparr>, pa_fingerprint_pos := q - 4\<rparr>))
      else if attr_type = STUN_ERROR_CODE then
        if attr_len \<noteq> 4 then Inl (Throw ''stun attribute error code len is not 4'')
        else cxx_bind (mem_at d (q + 2)) (\<lambda>error_class. cxx_bind (mem_at d (q + 3)) (\<lambda>error_number.
             upd (sp_error_code_update (\<lambda>_. ucast error_class * 100 + ucast error_number))))
      else Inr st)"

function parse_attrs :: "bytes \<Rightarrow> nat \<Rightarrow> stun_parse \<Rightarrow> (nat \<times> stun_parse) cxx" where
  "parse_attrs d p st =
     (if p + 4 < length d then
        cxx_bind (read_2bytes (drop p d)) (\<lambda>attr_type. cxx_bind (read_2bytes (drop (p + 2) d)) (\<lambda>attr_len.
        if length d < p + 4 + unat attr_len then Inl (Throw ''stun packet attribute length is too long'')
        else if pa_has_fingerprint st then Inl (Throw ''stun packet attribute fingerprint must be the last one'')
        else if pa_has_message_integrity st \<and> attr_type \<noteq> STUN_FINGERPRINT
        then Inl (Throw ''fingerprint is only allowed after message integrity attribute.'')
        else cxx_bind (parse_attr d (p + 4) attr_type attr_len st) (\<lambda>st'.
             parse_attrs d (p + 4 + unat (pad_to_4bytes_u16 attr_len)) st')))
      else Inr (p, st))"
  by pat_completeness auto
termination
  by (relation "measure (\<lambda>(d, p, st). length d - p)") auto

declare parse_attrs.simps [simp del]

text \<open>Before and after the loop.\<close>

definition parse_start :: "stun_packet \<Rightarrow> stun_parse" where
  "parse_start pkt = \<lparr>pa_pkt = pkt, pa_has_fingerprint = False, pa_has_message_integrity = False, pa_fingerprint_pos = 0\<rparr>"

definition parse_end :: "bytes \<Rightarrow> nat \<times> stun_parse \<Rightarrow> stun_packet cxx" where
  "parse_end d = (\<lambda>(p, st).
     if p \<noteq> length d then Inl (Throw ''data offset is not data end'')
     else if pa_has_fingerprint st then
       (if sp_fingerprint (pa_pkt st) \<noteq> get_crc32 (take (pa_fingerprint_pos st) d) XOR 0x5354554e
        then Inl (Throw ''fingerprint is not equal caculate fingerprint'')
        else Inr ((pa_pkt st)\<lparr>sp_has_fingerprint := True\<rparr>))
     else Inr (pa_pkt st))"

definition msg_method :: "u16 \<Rightarrow> u16" where
  "msg_method msg_type = (msg_type AND 0x000f) OR drop_bit 1 (msg_type AND 0x00e0) OR drop_bit 2 (msg_type AND 0x3E00)"

definition msg_class :: "bytes \<Rightarrow> u16" where
  "msg_class d = push_bit 1 (ucast (d ! 0 AND 0x01)) OR drop_bit 4 (ucast (d ! 1 AND 0x10))"

definition stun_parse_packet :: "bytes \<Rightarrow> stun_packet cxx" where
  "stun_parse_packet d =
     (if \<not> is_stun d then Inl (Throw ''it's not a stun packet'')
      else
        cxx_bind (read_2bytes d) (\<lambda>msg_type. cxx_bind (read_2bytes (drop 2 d)) (\<lambda>msg_len.
        if unat msg_len \<noteq> length d - 20 \<or> msg_len AND 0x03 \<noteq> 0 then Inl (Throw ''stun packet message len error'')
        else
          cxx_bind (stun_packet_from (to_class (msg_class d)) (msg_method msg_type) (take 12 (drop 8 d)) d) (\<lambda>ret_packet.
          cxx_bind (parse_attrs d 20 (parse_start ret_packet)) (parse_end d)))))"

subsection \<open>Serialising\<close>

text \<open>The buffer and the cursor \<open>p\<close>; every store is bounds-checked against the 1500 bytes of \<open>data\<close>.\<close>

type_synonym cursor = "bytes \<times> nat"

definition wr :: "bytes \<Rightarrow> cursor \<Rightarrow> cursor cxx" where
  "wr xs c = cxx_bind (mem_write (fst c) (snd c) xs) (\<lambda>buf. Inr (buf, snd c + length xs))"

definition wr_attr :: "bool \<Rightarrow> u16 \<Rightarrow> bytes \<Rightarrow> cursor \<Rightarrow> cursor cxx" where
  "wr_attr present attr_type val c =
     (if present then cxx_bind (wr (write_2bytes attr_type) c) (\<lambda>c. cxx_bind (wr (write_2bytes (of_nat (length val))) c) (wr val)) else Inr c)"

text \<open>The user name: its bytes, then the cursor skips to the padded length.\<close>

definition wr_user_name :: "bytes \<Rightarrow> cursor \<Rightarrow> cursor cxx" where
  "wr_user_name name c =
     (if name \<noteq> [] then
        cxx_bind (wr (write_2bytes STUN_USERNAME) c) (\<lambda>c. cxx_bind (wr (write_2bytes (of_nat (length name))) c) (\<lambda>c.
        cxx_bind (mem_write (fst c) (snd c) name) (\<lambda>buf. Inr (buf, snd c + unat (pad_to_4bytes_u16 (of_nat (length name)))))))
      else Inr c)"

definition type_field :: "stun_packet \<Rightarrow> u16" where
  "type_field pkt = push_bit 2 (sp_method pkt AND 0x0f80) OR push_bit 1 (sp_method pkt AND 0x0070) OR (sp_method pkt AND 0x000f) OR
     push_bit 7 (class_num (sp_class pkt) AND 0x02) OR push_bit 4 (class_num (sp_class pkt) AND 0x01)"

definition xor_mapped :: "sockaddr \<Rightarrow> bytes" where
  "xor_mapped a = [0, 0x01] @ map2 (XOR) (sin_port a) (take 2 magic_cookie) @ map2 (XOR) (sin_addr a) magic_cookie"

definition error_bytes :: "u16 \<Rightarrow> bytes" where
  "error_bytes error_code = (let code_class = ucast (error_code div 100) :: u8 in
     [0, 0, code_class, ucast error_code - code_class * 100])"

definition add_msg_integrity :: "stun_packet \<Rightarrow> bool" where
  "add_msg_integrity pkt = (sp_class pkt \<noteq> STUN_ERROR_RESPONSE \<and> sp_password pkt \<noteq> [])"

definition add_xor_address :: "stun_packet \<Rightarrow> bool" where
  "add_xor_address pkt = (case sp_xor_address pkt of None \<Rightarrow> False
     | Some a \<Rightarrow> sp_method pkt = BINDING \<and> sp_class pkt = STUN_SUCCESS_RESPONSE \<and> sa_family a = AF_INET)"

definition add_error :: "stun_packet \<Rightarrow> bool" where
  "add_error pkt = (sp_error_code pkt \<noteq> 0 \<and> sp_class pkt = STUN_ERROR_RESPONSE)"

definition stun_size :: "stun_packet \<Rightarrow> nat" where
  "stun_size pkt = STUN_HEADER_SIZE
     + (if sp_user_name pkt \<noteq> [] then 4 + unat (pad_to_4bytes_u16 (of_nat (length (sp_user_name pkt)))) else 0)
     + (if sp_priority pkt \<noteq> 0 then 4 + 4 else 0)
     + (if sp_ice_controlling pkt \<noteq> 0 then 4 + 8 else 0)
     + (if sp_ice_controlled pkt \<noteq> 0 then 4 + 8 else 0)
     + (if sp_has_use_candidate pkt then 4 else 0)
     + (if add_xor_address pkt then 4 + 8 else 0)
     + (if add_error pkt then 4 + 4 else 0)
     + (if add_msg_integrity pkt then 4 + 20 else 0)
     + (4 + 4)"

text \<open>The part before message integrity, then message integrity, then the fingerprint.\<close>

definition wr_plain :: "stun_packet \<Rightarrow> nat \<Rightarrow> cursor \<Rightarrow> cursor cxx" where
  "wr_plain pkt n c =
     cxx_bind (wr (write_2bytes (type_field pkt) @ write_2bytes (of_nat (n - STUN_HEADER_SIZE)) @ magic_cookie @ sp_transaction_id pkt) c) (\<lambda>c.
     cxx_bind (wr_user_name (sp_user_name pkt) c) (\<lambda>c.
     cxx_bind (wr_attr (sp_priority pkt \<noteq> 0) STUN_PRIORITY (write_4bytes (sp_priority pkt)) c) (\<lambda>c.
     cxx_bind (wr_attr (sp_ice_controlling pkt \<noteq> 0) STUN_ICE_CONTROLLING (write_8bytes (sp_ice_controlling pkt)) c) (\<lambda>c.
     cxx_bind (wr_attr (sp_ice_controlled pkt \<noteq> 0) STUN_ICE_CONTROLLED (write_8bytes (sp_ice_controlled pkt)) c) (\<lambda>c.
     cxx_bind (wr_attr (sp_has_use_candidate pkt) STUN_USE_CANDIDATE [] c) (\<lambda>c.
     cxx_bind (case sp_xor_address pkt of None \<Rightarrow> Inr c
       | Some a \<Rightarrow> wr_attr (add_xor_address pkt) STUN_XOR_MAPPED_ADDRESS (xor_mapped a) c) (\<lambda>c.
     wr_attr (add_error pkt) STUN_ERROR_CODE (error_bytes (sp_error_code pkt)) c)))))))"

definition wr_integrity :: "(bytes \<Rightarrow> bytes \<Rightarrow> bytes option) \<Rightarrow> stun_packet \<Rightarrow> nat \<Rightarrow> cursor \<Rightarrow> (cursor \<times> nat option) cxx" where
  "wr_integrity hmac pkt n c =
     (if add_msg_integrity pkt then
        cxx_bind (mem_write (fst c) 2 (write_2bytes (of_nat (n - 20 - 8)))) (\<lambda>buf.
        cxx_bind (get_hmac_sha1 hmac (sp_password pkt) (take (snd c) buf)) (\<lambda>mac.
        cxx_bind (wr_attr True STUN_MESSAGE_INTEGRITY mac (buf, snd c)) (\<lambda>c'.
        cxx_bind (mem_write (fst c') 2 (write_2bytes (of_nat (n - STUN_HEADER_SIZE)))) (\<lambda>buf'.
        Inr ((buf', snd c'), Some (snd c + 4))))))
      else Inr (c, None))"

definition stun_serialize :: "(bytes \<Rightarrow> bytes \<Rightarrow> bytes option) \<Rightarrow> stun_packet \<Rightarrow> stun_packet cxx" where
  "stun_serialize hmac pkt =
     (let n = stun_size pkt in
      cxx_bind (wr_plain pkt n (sp_data pkt, 0)) (\<lambda>c.
      cxx_bind (wr_integrity hmac pkt n c) (\<lambda>(c, mi).
      cxx_bind (wr_attr True STUN_FINGERPRINT (write_4bytes (get_crc32 (take (snd c) (fst c)) XOR 0x5354554e)) c) (\<lambda>c.
      if snd c \<noteq> n then Inl (Throw ''the data end pos isn't equal to the data + size'')
      else Inr (pkt\<lparr>sp_data := fst c, sp_data_len := n, sp_message_integrity := mi, sp_has_fingerprint := True\<rparr>)))))"

subsection \<open>Credentials and responses\<close>

text \<open>The length field is rewritten for the computation and put back; \<open>origin_data\<close> ends as it began.\<close>

definition check_auth :: "(bytes \<Rightarrow> bytes \<Rightarrow> bytes option) \<Rightarrow> bytes \<Rightarrow> bytes \<Rightarrow> stun_packet \<Rightarrow> STUN_AUTHENTICATION cxx" where
  "check_auth hmac local_username local_pwd pkt =
     (let n = length local_username; user_name = sp_user_name pkt; d = (case sp_origin pkt of Some d \<Rightarrow> d | None \<Rightarrow> sp_data pkt) in
      if sp_class pkt = STUN_SUCCESS_RESPONSE \<or> sp_class pkt = STUN_ERROR_RESPONSE then Inr BAD_REQUEST
      else if user_name = [] then Inr BAD_REQUEST
      else if length user_name \<le> n \<or> user_name ! n \<noteq> of_char (CHR '':'') \<or> take n user_name \<noteq> local_username then Inr UNAUTHORIZED
      else
        cxx_bind (if sp_has_fingerprint pkt then mem_write d 2 (write_2bytes (of_nat (sp_data_len pkt) - 20 - 8)) else Inr d) (\<lambda>d'.
        case sp_message_integrity pkt of
          None \<Rightarrow> Inl NullDeref
        | Some mi \<Rightarrow>
            cxx_bind (mem_read d' 0 (mi - 4)) (\<lambda>covered.
            cxx_bind (get_hmac_sha1 hmac local_pwd covered) (\<lambda>mac.
            cxx_bind (mem_read d' mi 20) (\<lambda>given. Inr (if mac = given then OK else UNAUTHORIZED))))))"

definition create_success_response :: "stun_packet \<Rightarrow> stun_packet" where
  "create_success_response pkt = new_stun_packet STUN_SUCCESS_RESPONSE (sp_method pkt) (sp_transaction_id pkt)"

definition create_error_response :: "u16 \<Rightarrow> stun_packet \<Rightarrow> stun_packet" where
  "create_error_response err_code pkt =
     (new_stun_packet STUN_ERROR_RESPONSE (sp_method pkt) (sp_transaction_id pkt))\<lparr>sp_password := sp_password pkt, sp_error_code := err_code\<rparr>"

subsection \<open>The parser stays inside its input\<close>

text \<open>What the parser establishes: the integrity value it points to lies in the message, behind the header.\<close>

definition mi_inside :: "bytes \<Rightarrow> stun_packet \<Rightarrow> bool" where
  "mi_inside d pkt \<longleftrightarrow> (\<forall>q. sp_message_integrity pkt = Some q \<longrightarrow> 24 \<le> q \<and> q + 20 \<le> length d)"

lemma read_2_at: "i + 2 \<le> length d \<Longrightarrow> \<exists>v. read_2bytes (drop i d) = Inr v"
  by (rule read_2_total) simp

lemma parse_attr_stop:
  assumes "p + 4 + unat alen \<le> length d" "parse_attr d (p + 4) ty alen st = Inl e" shows "\<exists>s. e = Throw s"
proof -
  have "\<exists>v. read_4bytes (drop (p + 4) d) = Inr v" if "alen = 4" using assms(1) that by (intro read_4_total) simp
  moreover have "\<exists>v. read_8bytes (drop (p + 4) d) = Inr v" if "alen = 8" using assms(1) that by (intro read_8_total) simp
  ultimately show ?thesis using assms
    by (fastforce simp: parse_attr_def Let_def mem_read_def mem_at_def split: if_splits)
qed

lemma parse_attr_inside:
  assumes "20 \<le> p" "p + 4 + unat alen \<le> length d" "mi_inside d (pa_pkt st)" "parse_attr d (p + 4) ty alen st = Inr st'"
  shows "mi_inside d (pa_pkt st')"
  using assms by (auto simp: parse_attr_def Let_def cxx_bind_Inr_iff mi_inside_def split: if_splits)

lemma parse_attr_safe:
  assumes "20 \<le> p" "p + 4 + unat alen \<le> length d" "mi_inside d (pa_pkt st)"
  shows "(\<exists>s. parse_attr d (p + 4) ty alen st = Inl (Throw s)) \<or> (\<exists>st'. parse_attr d (p + 4) ty alen st = Inr st' \<and> mi_inside d (pa_pkt st'))"
  using parse_attr_stop [OF assms(2)] parse_attr_inside [OF assms] by (cases "parse_attr d (p + 4) ty alen st") auto

lemma parse_attrs_safe:
  "20 \<le> p \<Longrightarrow> mi_inside d (pa_pkt st) \<Longrightarrow>
     (\<exists>s. parse_attrs d p st = Inl (Throw s)) \<or> (\<exists>p' st'. parse_attrs d p st = Inr (p', st') \<and> mi_inside d (pa_pkt st'))"
proof (induction d p st rule: parse_attrs.induct)
  case (1 d p st)
  show ?case
  proof (cases "p + 4 < length d")
    case False
    then show ?thesis using 1 by (subst (1 2) parse_attrs.simps) auto
  next
    case True
    obtain ty alen where r: "read_2bytes (drop p d) = Inr ty" "read_2bytes (drop (p + 2) d) = Inr alen"
      using read_2_at [of p d] read_2_at [of "p + 2" d] True by auto
    show ?thesis
    proof (cases "length d < p + 4 + unat alen \<or> pa_has_fingerprint st \<or> pa_has_message_integrity st \<and> ty \<noteq> STUN_FINGERPRINT")
      case bad: True
      then show ?thesis using True r by (subst (1 2) parse_attrs.simps) auto
    next
      case ok: False
      from parse_attr_safe [of p alen d st ty] "1.prems" ok consider
        s where "parse_attr d (p + 4) ty alen st = Inl (Throw s)"
        | st' where "parse_attr d (p + 4) ty alen st = Inr st'" "mi_inside d (pa_pkt st')" by auto
      then show ?thesis
      proof cases
        case 1
        then show ?thesis using True r ok by (subst (1 2) parse_attrs.simps) auto
      next
        case (2 st')
        then have "parse_attrs d p st = parse_attrs d (p + 4 + unat (pad_to_4bytes_u16 alen)) st'"
          using True r ok by (subst parse_attrs.simps) auto
        moreover note "1.IH" [OF True r _ _ _ 2(1) _ 2(2)]
        ultimately show ?thesis using ok "1.prems"(1) by simp
      qed
    qed
  qed
qed

text \<open>
  C13. Parsing a STUN message is memory-safe: whatever the bytes and however many, the parser either
  throws or returns a packet, and then the integrity value it points to lies inside the message.
\<close>

theorem stun_parse_safe:
  "(\<exists>s. stun_parse_packet d = Inl (Throw s)) \<or> (\<exists>pkt. stun_parse_packet d = Inr pkt \<and> mi_inside d pkt)"
proof (cases "is_stun d")
  case False
  then show ?thesis by (simp add: stun_parse_packet_def)
next
  case True
  then have len: "20 \<le> length d" by (simp add: is_stun_def STUN_HEADER_SIZE_def)
  obtain ty l where r: "read_2bytes d = Inr ty" "read_2bytes (drop 2 d) = Inr l"
    using read_2_at [of 0 d] read_2_at [of 2 d] len by auto
  show ?thesis
  proof (cases "unat l \<noteq> length d - 20 \<or> l AND 0x03 \<noteq> 0 \<or> length d > 1500")
    case bad: True
    then show ?thesis using True r by (auto simp: stun_parse_packet_def Let_def stun_packet_from_def)
  next
    case ok: False
    let ?pkt = "(new_stun_packet (to_class (msg_class d)) (msg_method ty) (take 12 (drop 8 d)))\<lparr>sp_origin := Some d,
      sp_data := d @ replicate (1500 - length d) 0, sp_data_len := length d\<rparr>"
    have eq: "stun_parse_packet d = cxx_bind (parse_attrs d 20 (parse_start ?pkt)) (parse_end d)"
      using True r ok by (simp add: stun_parse_packet_def stun_packet_from_def)
    have "mi_inside d (pa_pkt (parse_start ?pkt))" by (simp add: mi_inside_def parse_start_def new_stun_packet_def)
    from parse_attrs_safe [OF _ this, of 20] consider s where "parse_attrs d 20 (parse_start ?pkt) = Inl (Throw s)"
      | p' st' where "parse_attrs d 20 (parse_start ?pkt) = Inr (p', st')" "mi_inside d (pa_pkt st')" by auto
    then show ?thesis
    proof cases
      case (2 p' st')
      then show ?thesis unfolding eq by (auto simp: parse_end_def mi_inside_def)
    qed (simp add: eq)
  qed
qed

subsection \<open>The bytes of a serialised message\<close>

text \<open>A zeroed buffer with \<open>out\<close> written so far.\<close>

definition fill :: "bytes \<Rightarrow> cursor" where
  "fill out = (out @ replicate (1500 - length out) 0, length out)"

lemma mem_write_fill:
  assumes "length out + n \<le> 1500" "length xs \<le> n"
  shows "mem_write (fst (fill out)) (snd (fill out)) xs = Inr (fst (fill (out @ xs @ replicate (n - length xs) 0)))"
  using assms by (simp add: fill_def mem_write_def replicate_add [symmetric])

lemma wr_fill: "length out + length xs \<le> 1500 \<Longrightarrow> wr xs (fill out) = Inr (fill (out @ xs))"
  using mem_write_fill [of out "length xs" xs] by (simp add: wr_def) (simp add: fill_def)

text \<open>An attribute, padded with zeros to a multiple of four bytes.\<close>

definition padded :: "nat \<Rightarrow> nat" where
  "padded n = 4 * ((n + 3) div 4)"

definition enc :: "u16 \<times> bytes \<Rightarrow> bytes" where
  "enc a = write_2bytes (fst a) @ write_2bytes (of_nat (length (snd a))) @ snd a @ replicate (padded (length (snd a)) - length (snd a)) 0"

lemma padded_ge: "n \<le> padded n"
  unfolding padded_def by linarith

lemma length_enc [simp]: "length (enc a) = 4 + padded (length (snd a))"
  using padded_ge [of "length (snd a)"] by (simp add: enc_def)

lemma padded_4 [simp]: "padded 0 = 0" "padded 4 = 4" "padded 8 = 8" "padded 20 = 20"
  by (simp_all add: padded_def)

lemma pad_padded: "n \<le> 1500 \<Longrightarrow> unat (pad_to_4bytes_u16 (of_nat n)) = padded n"
  by (simp add: pad_to_4bytes_u16_eq unat_of_nat padded_def)

lemma wr_attr_fill:
  assumes "b \<Longrightarrow> length out + length (enc (ty, v)) \<le> 1500" "padded (length v) = length v"
  shows "wr_attr b ty v (fill out) = Inr (fill (out @ (if b then enc (ty, v) else [])))"
  using assms by (auto simp: wr_attr_def wr_fill enc_def)

lemma wr_user_name_fill:
  assumes "name \<noteq> [] \<Longrightarrow> length out + length (enc (STUN_USERNAME, name)) \<le> 1500" "length name \<le> 1500"
  shows "wr_user_name name (fill out) = Inr (fill (out @ (if name \<noteq> [] then enc (STUN_USERNAME, name) else [])))"
proof (cases "name = []")
  case False
  let ?h = "out @ write_2bytes STUN_USERNAME @ write_2bytes (of_nat (length name))"
  have len: "length ?h + padded (length name) \<le> 1500" using assms(1) False by simp
  have "mem_write (fst (fill ?h)) (snd (fill ?h)) name = Inr (fst (fill (out @ enc (STUN_USERNAME, name))))"
    using mem_write_fill [OF len padded_ge] by (simp add: enc_def)
  moreover have "snd (fill ?h) + padded (length name) = snd (fill (out @ enc (STUN_USERNAME, name)))"
    using len by (simp add: fill_def)
  ultimately show ?thesis using False assms len by (simp add: wr_user_name_def wr_fill pad_padded)
qed (simp add: wr_user_name_def)

text \<open>The attributes before message integrity, in the order they are written.\<close>

definition opt_attr :: "bool \<Rightarrow> u16 \<Rightarrow> bytes \<Rightarrow> (u16 \<times> bytes) list" where
  "opt_attr b ty v = (if b then [(ty, v)] else [])"

definition plain_attrs :: "stun_packet \<Rightarrow> (u16 \<times> bytes) list" where
  "plain_attrs pkt =
     opt_attr (sp_user_name pkt \<noteq> []) STUN_USERNAME (sp_user_name pkt) @
     opt_attr (sp_priority pkt \<noteq> 0) STUN_PRIORITY (write_4bytes (sp_priority pkt)) @
     opt_attr (sp_ice_controlling pkt \<noteq> 0) STUN_ICE_CONTROLLING (write_8bytes (sp_ice_controlling pkt)) @
     opt_attr (sp_ice_controlled pkt \<noteq> 0) STUN_ICE_CONTROLLED (write_8bytes (sp_ice_controlled pkt)) @
     opt_attr (sp_has_use_candidate pkt) STUN_USE_CANDIDATE [] @
     opt_attr (add_xor_address pkt) STUN_XOR_MAPPED_ADDRESS (xor_mapped (the (sp_xor_address pkt))) @
     opt_attr (add_error pkt) STUN_ERROR_CODE (error_bytes (sp_error_code pkt))"

definition header :: "stun_packet \<Rightarrow> nat \<Rightarrow> bytes" where
  "header pkt n = write_2bytes (type_field pkt) @ write_2bytes (of_nat n) @ magic_cookie @ sp_transaction_id pkt"

abbreviation encs :: "(u16 \<times> bytes) list \<Rightarrow> bytes" where
  "encs as \<equiv> concat (map enc as)"

text \<open>What a packet needs to be serialised.\<close>

definition stun_ready :: "stun_packet \<Rightarrow> bool" where
  "stun_ready pkt \<longleftrightarrow> sp_data pkt = replicate 1500 0 \<and> length (sp_transaction_id pkt) = 12 \<and> length (sp_user_name pkt) \<le> 1500 \<and>
     stun_size pkt \<le> 1500 \<and> (\<forall>a. sp_xor_address pkt = Some a \<longrightarrow> length (sin_port a) = 2 \<and> length (sin_addr a) = 4)"

lemma lengths [simp]: "length magic_cookie = 4" "length (error_bytes e) = 4"
  by (simp_all add: magic_cookie_def error_bytes_def Let_def)

lemma length_xor_mapped: "stun_ready pkt \<Longrightarrow> add_xor_address pkt \<Longrightarrow> length (xor_mapped (the (sp_xor_address pkt))) = 8"
  by (auto simp: stun_ready_def add_xor_address_def xor_mapped_def split: option.splits)

lemma stun_size_eq:
  assumes "stun_ready pkt"
  shows "stun_size pkt = 20 + length (encs (plain_attrs pkt)) + (if add_msg_integrity pkt then 24 else 0) + 8"
  using assms length_xor_mapped [OF assms]
  by (simp add: stun_size_def plain_attrs_def opt_attr_def STUN_HEADER_SIZE_def pad_padded stun_ready_def)

text \<open>\<open>writes f xs\<close>: a writer that appends \<open>xs\<close> wherever the buffer has room for it.\<close>

definition writes :: "(cursor \<Rightarrow> cursor cxx) \<Rightarrow> bytes \<Rightarrow> bool" where
  "writes f xs \<longleftrightarrow> (\<forall>out. length out + length xs \<le> 1500 \<longrightarrow> f (fill out) = Inr (fill (out @ xs)))"

named_theorems writes_intros \<open>what the writers append\<close>

lemma writes_bind [writes_intros]: "writes f xs \<Longrightarrow> writes g ys \<Longrightarrow> writes (\<lambda>c. cxx_bind (f c) g) (xs @ ys)"
  by (simp add: writes_def)

lemma writes_wr [writes_intros]: "writes (wr xs) xs"
  by (simp add: writes_def wr_fill)

lemma writes_attr [writes_intros]: "(b \<Longrightarrow> padded (length v) = length v) \<Longrightarrow> writes (wr_attr b ty v) (encs (opt_attr b ty v))"
  using wr_attr_fill [of b _ ty v] by (cases b) (simp_all add: writes_def opt_attr_def wr_attr_def)

lemma writes_name [writes_intros]: "length name \<le> 1500 \<Longrightarrow> writes (wr_user_name name) (encs (opt_attr (name \<noteq> []) STUN_USERNAME name))"
  using wr_user_name_fill [of name] by (cases "name = []") (simp_all add: writes_def opt_attr_def)

lemma writes_xor [writes_intros]:
  assumes "stun_ready pkt"
  shows "writes (\<lambda>c. case sp_xor_address pkt of None \<Rightarrow> Inr c | Some a \<Rightarrow> wr_attr (add_xor_address pkt) STUN_XOR_MAPPED_ADDRESS (xor_mapped a) c)
    (encs (opt_attr (add_xor_address pkt) STUN_XOR_MAPPED_ADDRESS (xor_mapped (the (sp_xor_address pkt)))))"
proof (cases "sp_xor_address pkt")
  case None
  then show ?thesis by (simp add: add_xor_address_def opt_attr_def writes_def)
next
  case (Some a)
  then show ?thesis using writes_attr [of "add_xor_address pkt" "xor_mapped a"] length_xor_mapped [OF assms] by simp
qed

lemma wr_plain_writes:
  assumes "stun_ready pkt" shows "writes (wr_plain pkt n) (header pkt (n - 20) @ encs (plain_attrs pkt))"
  unfolding wr_plain_def plain_attrs_def map_append concat_append header_def STUN_HEADER_SIZE_def
  by (intro writes_intros assms) (use assms in \<open>simp_all add: stun_ready_def\<close>)

lemma wr_plain_fill:
  assumes "stun_ready pkt"
  shows "wr_plain pkt n (sp_data pkt, 0) = Inr (fill (header pkt (n - 20) @ encs (plain_attrs pkt)))"
proof -
  have "20 + length (encs (plain_attrs pkt)) \<le> 1500"
    using stun_size_eq [OF assms] assms unfolding stun_ready_def by linarith
  moreover have "length (header pkt (n - 20)) = 20" using assms by (simp add: header_def stun_ready_def)
  moreover have "(sp_data pkt, 0) = fill []" using assms by (simp add: stun_ready_def fill_def)
  ultimately show ?thesis using wr_plain_writes [OF assms, of n] unfolding writes_def by (metis append_Nil length_append list.size(3) add_0)
qed

text \<open>The whole message: with message integrity the code is computed over the header with the length up to it.\<close>

definition mac_input :: "stun_packet \<Rightarrow> bytes" where
  "mac_input pkt = header pkt (stun_size pkt - 20 - 8) @ encs (plain_attrs pkt)"

definition integrity_attr :: "stun_packet \<Rightarrow> bytes \<Rightarrow> (u16 \<times> bytes) list" where
  "integrity_attr pkt mac = opt_attr (add_msg_integrity pkt) STUN_MESSAGE_INTEGRITY mac"

definition covered :: "stun_packet \<Rightarrow> bytes \<Rightarrow> bytes" where
  "covered pkt mac = header pkt (stun_size pkt - 20) @ encs (plain_attrs pkt @ integrity_attr pkt mac)"

definition wire :: "stun_packet \<Rightarrow> bytes \<Rightarrow> bytes" where
  "wire pkt mac = covered pkt mac @ enc (STUN_FINGERPRINT, write_4bytes (get_crc32 (covered pkt mac) XOR 0x5354554e))"

lemma set_length: "mem_write (header pkt n @ r) 2 (write_2bytes (of_nat k)) = Inr (header pkt k @ r)"
  by (simp add: header_def mem_write_def write_2bytes_def Let_def)

lemma length_header: "stun_ready pkt \<Longrightarrow> length (header pkt n) = 20"
  by (simp add: header_def stun_ready_def)

lemma wr_integrity_fill:
  assumes "stun_ready pkt" "add_msg_integrity pkt \<Longrightarrow> hmac (sp_password pkt) (mac_input pkt) = Some mac \<and> length mac = 20"
  shows "wr_integrity hmac pkt (stun_size pkt) (fill (header pkt (stun_size pkt - 20) @ encs (plain_attrs pkt))) =
    Inr (fill (covered pkt mac), if add_msg_integrity pkt then Some (20 + length (encs (plain_attrs pkt)) + 4) else None)"
proof (cases "add_msg_integrity pkt")
  case True
  let ?o = "header pkt (stun_size pkt - 20) @ encs (plain_attrs pkt)" and ?o' = "mac_input pkt"
  have room: "length ?o' + 24 \<le> 1500" using stun_size_eq [OF assms(1)] assms(1) True length_header [OF assms(1)]
    unfolding stun_ready_def mac_input_def by simp
  have len: "length ?o' = length ?o" by (simp add: mac_input_def length_header [OF assms(1)])
  have "mem_write (fst (fill ?o)) 2 (write_2bytes (of_nat (stun_size pkt - 20 - 8))) = Inr (fst (fill ?o'))"
    using set_length [of pkt "stun_size pkt - 20" _ "stun_size pkt - 20 - 8"] len by (simp add: fill_def mac_input_def)
  moreover have "snd (fill ?o) = length ?o'" "take (length ?o') (fst (fill ?o')) = ?o'" "(fst (fill ?o'), length ?o') = fill ?o'"
    using len by (simp_all add: fill_def)
  moreover have "wr_attr True STUN_MESSAGE_INTEGRITY mac (fill ?o') = Inr (fill (?o' @ enc (STUN_MESSAGE_INTEGRITY, mac)))"
    using wr_attr_fill [of True ?o' STUN_MESSAGE_INTEGRITY mac] assms(2) [OF True] room by simp
  moreover have "mem_write (fst (fill (?o' @ enc (STUN_MESSAGE_INTEGRITY, mac)))) 2 (write_2bytes (of_nat (stun_size pkt - 20))) =
      Inr (fst (fill (covered pkt mac)))" "snd (fill (?o' @ enc (STUN_MESSAGE_INTEGRITY, mac))) = snd (fill (covered pkt mac))"
    using set_length [of pkt "stun_size pkt - 20 - 8" _ "stun_size pkt - 20"] True length_header [OF assms(1)]
    by (simp_all add: fill_def mac_input_def covered_def integrity_attr_def opt_attr_def)
  ultimately show ?thesis using True assms(2) [OF True] length_header [OF assms(1)]
    by (simp add: wr_integrity_def STUN_HEADER_SIZE_def get_hmac_sha1_def mac_input_def)
qed (simp add: wr_integrity_def covered_def integrity_attr_def opt_attr_def)

lemma serialize_wire:
  assumes "stun_ready pkt" "add_msg_integrity pkt \<Longrightarrow> hmac (sp_password pkt) (mac_input pkt) = Some mac \<and> length mac = 20"
  shows "stun_serialize hmac pkt = Inr (pkt\<lparr>sp_data := fst (fill (wire pkt mac)), sp_data_len := stun_size pkt,
      sp_message_integrity := (if add_msg_integrity pkt then Some (24 + length (encs (plain_attrs pkt))) else None), sp_has_fingerprint := True\<rparr>)"
    "length (wire pkt mac) = stun_size pkt"
proof -
  show len: "length (wire pkt mac) = stun_size pkt"
    using stun_size_eq [OF assms(1)] length_header [OF assms(1)] assms(2) by (simp add: wire_def covered_def integrity_attr_def opt_attr_def)
  have "wr_attr True STUN_FINGERPRINT (write_4bytes (get_crc32 (covered pkt mac) XOR 0x5354554e)) (fill (covered pkt mac)) = Inr (fill (wire pkt mac))"
    using wr_attr_fill [of True "covered pkt mac" STUN_FINGERPRINT] len assms(1) by (simp add: wire_def stun_ready_def)
  moreover have "take (snd (fill (covered pkt mac))) (fst (fill (covered pkt mac))) = covered pkt mac" "snd (fill (wire pkt mac)) = stun_size pkt"
    using len by (simp_all add: fill_def)
  ultimately show "stun_serialize hmac pkt = Inr (pkt\<lparr>sp_data := fst (fill (wire pkt mac)), sp_data_len := stun_size pkt,
      sp_message_integrity := (if add_msg_integrity pkt then Some (24 + length (encs (plain_attrs pkt))) else None), sp_has_fingerprint := True\<rparr>)"
    using wr_plain_fill [OF assms(1)] wr_integrity_fill [where hmac = hmac and mac = mac, OF assms] by (simp add: stun_serialize_def Let_def)
qed

subsection \<open>Reading the attributes back\<close>

text \<open>\<open>reads a f\<close>: wherever attribute \<open>a\<close> is found, its effect on the packet is \<open>f\<close>.\<close>

definition reads :: "u16 \<times> bytes \<Rightarrow> (stun_packet \<Rightarrow> stun_packet) \<Rightarrow> bool" where
  "reads a f \<longleftrightarrow> length (snd a) \<le> 1500 \<and>
     (\<forall>pre rest st. parse_attr (pre @ snd a @ rest) (length pre) (fst a) (of_nat (length (snd a))) st = Inr (st\<lparr>pa_pkt := f (pa_pkt st)\<rparr>))"

lemma parse_step:
  assumes "d = pre @ enc (ty, v) @ rest" "length v \<le> 1500" "4 < length (enc (ty, v) @ rest)" "\<not> pa_has_fingerprint st"
    "pa_has_message_integrity st \<Longrightarrow> ty = STUN_FINGERPRINT"
  shows "parse_attrs d (length pre) st =
    cxx_bind (parse_attr d (length pre + 4) ty (of_nat (length v)) st) (parse_attrs d (length (pre @ enc (ty, v))))"
proof -
  let ?l = "write_2bytes (of_nat (length v))"
  have d: "drop (length pre) d = write_2bytes ty @ ?l @ v @ replicate (padded (length v) - length v) 0 @ rest"
    "drop (length pre + 2) d = ?l @ v @ replicate (padded (length v) - length v) 0 @ rest"
    by (simp_all add: assms(1) enc_def)
  have n: "unat (of_nat (length v) :: u16) = length v" using assms(2) by (simp add: unat_of_nat)
  have len: "length pre + 4 + length v \<le> length d" "length pre + 4 < length d"
    using assms(1,3) padded_ge [of "length v"] by simp_all
  have r: "read_2bytes (drop (length pre) d) = Inr ty" "read_2bytes (drop (length pre + 2) d) = Inr (of_nat (length v))"
    unfolding d by (rule read_write_2)+
  show ?thesis
    using assms(4,5) len r by (subst parse_attrs.simps) (auto simp: n pad_padded [OF assms(2)] add.assoc)
qed

lemma parse_read:
  assumes "d = pre @ enc a @ rest" "reads a f" "4 < length (enc a @ rest)" "\<not> pa_has_fingerprint st" "\<not> pa_has_message_integrity st"
  shows "parse_attrs d (length pre) st = parse_attrs d (length (pre @ enc a)) (st\<lparr>pa_pkt := f (pa_pkt st)\<rparr>)"
proof -
  obtain ty v where a: "a = (ty, v)" by (cases a)
  have "d = (pre @ write_2bytes ty @ write_2bytes (of_nat (length v))) @ v @ (replicate (padded (length v) - length v) 0 @ rest)"
    using assms(1) a by (simp add: enc_def)
  then have "parse_attr d (length pre + 4) ty (of_nat (length v)) st = Inr (st\<lparr>pa_pkt := f (pa_pkt st)\<rparr>)"
    using assms(2) a unfolding reads_def by (metis (no_types, lifting) add_2_eq_Suc' add.assoc fst_conv snd_conv length_append length_write(5) numeral_Bit0)
  with parse_step [of d pre ty v rest st] assms a show ?thesis by (simp add: reads_def)
qed

lemma parse_reads:
  assumes "\<And>a f. (a, f) \<in> set items \<Longrightarrow> reads a f" "d = pre @ encs (map fst items) @ rest" "4 < length rest"
    "\<not> pa_has_fingerprint st" "\<not> pa_has_message_integrity st"
  shows "parse_attrs d (length pre) st =
    parse_attrs d (length (pre @ encs (map fst items))) (st\<lparr>pa_pkt := fold snd items (pa_pkt st)\<rparr>)"
  using assms
proof (induction items arbitrary: pre st)
  case (Cons i items)
  obtain a f where i: "i = (a, f)" by (cases i)
  have "parse_attrs d (length pre) st = parse_attrs d (length (pre @ enc a)) (st\<lparr>pa_pkt := f (pa_pkt st)\<rparr>)"
    using Cons.prems i by (intro parse_read [where rest = "encs (map fst items) @ rest"]) auto
  also have "\<dots> = parse_attrs d (length ((pre @ enc a) @ encs (map fst items))) (st\<lparr>pa_pkt := fold snd items (f (pa_pkt st))\<rparr>)"
    using Cons.IH [of "pre @ enc a" "st\<lparr>pa_pkt := f (pa_pkt st)\<rparr>"] Cons.prems i by auto
  finally show ?case using i by simp
qed simp

text \<open>The error code is split into hundreds and rest and put together again.\<close>

lemma error_code_back:
  assumes "unat e < 25600"
  shows "(ucast (error_bytes e ! 2) * 100 + ucast (error_bytes e ! 3) :: u16) = e"
proof -
  have q: "unat (e div 100) = unat e div 100" by (simp add: unat_div)
  have c: "unat (ucast (e div 100) :: u8) = unat e div 100"
    using assms by (simp add: unsigned_ucast_eq q take_bit_eq_mod)
  have n: "unat (ucast e - ucast (e div 100) * 100 :: u8) = unat e mod 100"
  proof -
    have "ucast e = (of_nat (unat e) :: u8)" "ucast (e div 100) = (of_nat (unat e div 100) :: u8)" by (simp_all add: q [symmetric])
    then have "(ucast e - ucast (e div 100) * 100 :: u8) = of_nat (unat e) - of_nat (unat e div 100 * 100)" by simp
    also have "\<dots> = of_nat (unat e mod 100)" by (simp add: minus_div_mult_eq_mod [symmetric] of_nat_diff del: of_nat_mult)
    finally have "unat (ucast e - ucast (e div 100) * 100 :: u8) = unat (of_nat (unat e mod 100) :: u8)" by simp
    also have "\<dots> = unat e mod 100" by (simp add: unat_of_nat)
    finally show ?thesis .
  qed
  have "(ucast (error_bytes e ! 2) * 100 + ucast (error_bytes e ! 3) :: u16) = of_nat (unat e div 100 * 100 + unat e mod 100)"
    unfolding of_nat_add of_nat_mult c [symmetric] n [symmetric] by (simp add: error_bytes_def Let_def)
  then show ?thesis by simp
qed

named_theorems reads_intros \<open>the effects of the attributes\<close>

lemma drop_exact: "drop (length pre) (pre @ xs) = xs"
  by simp

lemma reads_attrs [reads_intros]:
  "length v \<le> 1500 \<Longrightarrow> reads (STUN_USERNAME, v) (\<lambda>p. p\<lparr>sp_user_name := v\<rparr>)"
  "reads (STUN_PRIORITY, write_4bytes w) (\<lambda>p. p\<lparr>sp_priority := w\<rparr>)"
  "reads (STUN_ICE_CONTROLLING, write_8bytes x) (\<lambda>p. p\<lparr>sp_ice_controlling := x\<rparr>)"
  "reads (STUN_ICE_CONTROLLED, write_8bytes x) (\<lambda>p. p\<lparr>sp_ice_controlled := x\<rparr>)"
  "reads (STUN_USE_CANDIDATE, []) (\<lambda>p. p\<lparr>sp_has_use_candidate := True\<rparr>)"
  "length v \<le> 1500 \<Longrightarrow> reads (STUN_XOR_MAPPED_ADDRESS, v) (\<lambda>p. p)"
  by (simp_all add: reads_def parse_attr_def attr_numbers Let_def mem_read_def codec_simps unat_of_nat)

lemma reads_error [reads_intros]: "unat e < 25600 \<Longrightarrow> reads (STUN_ERROR_CODE, error_bytes e) (\<lambda>p. p\<lparr>sp_error_code := e\<rparr>)"
  using error_code_back [of e] by (simp add: reads_def parse_attr_def attr_numbers Let_def mem_at_def nth_append)

text \<open>The attributes with their effects.\<close>

definition opt_item :: "bool \<Rightarrow> u16 \<times> bytes \<Rightarrow> (stun_packet \<Rightarrow> stun_packet) \<Rightarrow> ((u16 \<times> bytes) \<times> (stun_packet \<Rightarrow> stun_packet)) list" where
  "opt_item b a f = (if b then [(a, f)] else [])"

definition plain_items :: "stun_packet \<Rightarrow> ((u16 \<times> bytes) \<times> (stun_packet \<Rightarrow> stun_packet)) list" where
  "plain_items pkt =
     opt_item (sp_user_name pkt \<noteq> []) (STUN_USERNAME, sp_user_name pkt) (\<lambda>p. p\<lparr>sp_user_name := sp_user_name pkt\<rparr>) @
     opt_item (sp_priority pkt \<noteq> 0) (STUN_PRIORITY, write_4bytes (sp_priority pkt)) (\<lambda>p. p\<lparr>sp_priority := sp_priority pkt\<rparr>) @
     opt_item (sp_ice_controlling pkt \<noteq> 0) (STUN_ICE_CONTROLLING, write_8bytes (sp_ice_controlling pkt))
       (\<lambda>p. p\<lparr>sp_ice_controlling := sp_ice_controlling pkt\<rparr>) @
     opt_item (sp_ice_controlled pkt \<noteq> 0) (STUN_ICE_CONTROLLED, write_8bytes (sp_ice_controlled pkt))
       (\<lambda>p. p\<lparr>sp_ice_controlled := sp_ice_controlled pkt\<rparr>) @
     opt_item (sp_has_use_candidate pkt) (STUN_USE_CANDIDATE, []) (\<lambda>p. p\<lparr>sp_has_use_candidate := True\<rparr>) @
     opt_item (add_xor_address pkt) (STUN_XOR_MAPPED_ADDRESS, xor_mapped (the (sp_xor_address pkt))) (\<lambda>p. p) @
     opt_item (add_error pkt) (STUN_ERROR_CODE, error_bytes (sp_error_code pkt)) (\<lambda>p. p\<lparr>sp_error_code := sp_error_code pkt\<rparr>)"

lemma plain_items_attrs: "map fst (plain_items pkt) = plain_attrs pkt"
  by (simp add: plain_items_def plain_attrs_def opt_item_def opt_attr_def)

lemma plain_items_read:
  assumes "stun_ready pkt" "unat (sp_error_code pkt) < 25600" "(a, f) \<in> set (plain_items pkt)" shows "reads a f"
proof -
  have "length (sp_user_name pkt) \<le> 1500" using assms(1) by (simp add: stun_ready_def)
  then show ?thesis using assms(3) length_xor_mapped [OF assms(1)] assms(2)
    by (auto simp: plain_items_def opt_item_def intro!: reads_intros split: if_splits)
qed

definition plain_fields :: "stun_packet \<Rightarrow> stun_packet \<Rightarrow> stun_packet" where
  "plain_fields pkt p = p\<lparr>sp_user_name := sp_user_name pkt, sp_priority := sp_priority pkt, sp_ice_controlling := sp_ice_controlling pkt,
     sp_ice_controlled := sp_ice_controlled pkt, sp_has_use_candidate := sp_has_use_candidate pkt,
     sp_error_code := (if add_error pkt then sp_error_code pkt else 0)\<rparr>"

lemma fold_plain:
  "fold snd (plain_items pkt) ((new_stun_packet c m t)\<lparr>sp_origin := og, sp_data := dt, sp_data_len := n\<rparr>) =
     plain_fields pkt ((new_stun_packet c m t)\<lparr>sp_origin := og, sp_data := dt, sp_data_len := n\<rparr>)"
  by (auto simp: plain_items_def opt_item_def plain_fields_def new_stun_packet_def)

subsection \<open>The round trip\<close>

lemma type_field_binding:
  "type_field p = (case sp_class p of STUN_REQUEST \<Rightarrow> 1 | STUN_INDICATION \<Rightarrow> 0x11 | STUN_SUCCESS_RESPONSE \<Rightarrow> 0x101 | STUN_ERROR_RESPONSE \<Rightarrow> 0x111)"
  if "sp_method p = BINDING"
  using that by (cases "sp_class p") (simp_all add: type_field_def BINDING_def)

lemma write_2_unfold: "write_2bytes w = [ucast (drop_bit 8 w), ucast w]"
proof -
  have "to_mem (Suc (Suc 0)) w = [ucast w, ucast (drop_bit 8 w)]" by (simp only: to_mem.simps)
  then show ?thesis by (simp add: write_2bytes_def numeral_2_eq_2 Let_def)
qed

lemma header_parts:
  assumes "sp_method pkt = BINDING" "length (sp_transaction_id pkt) = 12"
  shows "is_stun (header pkt n @ r)" "read_2bytes (header pkt n @ r) = Inr (type_field pkt)"
    "read_2bytes (drop 2 (header pkt n @ r)) = Inr (of_nat n)" "take 12 (drop 8 (header pkt n @ r)) = sp_transaction_id pkt"
    "to_class (msg_class (header pkt n @ r)) = sp_class pkt" "msg_method (type_field pkt) = BINDING"
proof -
  show "is_stun (header pkt n @ r)" using assms(2)
    by (cases "sp_class pkt") (simp_all add: is_stun_def header_def STUN_HEADER_SIZE_def type_field_binding [OF assms(1)] write_2_unfold magic_cookie_def)
  show "read_2bytes (header pkt n @ r) = Inr (type_field pkt)" unfolding header_def append_assoc by (rule read_write_2)
  have "drop 2 (header pkt n @ r) = write_2bytes (of_nat n) @ magic_cookie @ sp_transaction_id pkt @ r" by (simp add: header_def)
  then show "read_2bytes (drop 2 (header pkt n @ r)) = Inr (of_nat n)" by (simp only: read_write_2)
  show "take 12 (drop 8 (header pkt n @ r)) = sp_transaction_id pkt" using assms(2) by (simp add: header_def)
  show "to_class (msg_class (header pkt n @ r)) = sp_class pkt"
    by (cases "sp_class pkt") (simp_all add: msg_class_def header_def type_field_binding [OF assms(1)] write_2_unfold to_class_def)
  show "msg_method (type_field pkt) = BINDING"
    by (cases "sp_class pkt") (simp_all add: msg_method_def type_field_binding [OF assms(1)] BINDING_def)
qed

lemma encs_4: "4 dvd length (encs as)"
  by (induction as) (simp_all add: padded_def dvd_add)

lemma and_3_nat: "of_nat n AND (0x03 :: u16) = 0" if "4 dvd n" "n \<le> 1500"
  using that by (simp add: and_3_zero unat_of_nat)

text \<open>The parse of a serialised message, before the fingerprint is compared.\<close>

lemma parse_wire:
  assumes "stun_ready pkt" "unat (sp_error_code pkt) < 25600" "add_msg_integrity pkt \<Longrightarrow> length mac = 20"
    and "d = wire pkt mac" "st = parse_start p" "fold snd (plain_items pkt) p = p'"
  shows "\<exists>st'. parse_attrs d 20 st = Inr (length d, st') \<and> pa_has_fingerprint st' \<and> pa_fingerprint_pos st' = length (covered pkt mac) \<and>
    pa_pkt st' = p'\<lparr>sp_fingerprint := get_crc32 (covered pkt mac) XOR 0x5354554e,
      sp_message_integrity := (if add_msg_integrity pkt then Some (24 + length (encs (plain_attrs pkt))) else sp_message_integrity p')\<rparr>"
proof -
  let ?h = "header pkt (stun_size pkt - 20)" and ?c = "get_crc32 (covered pkt mac) XOR 0x5354554e"
  let ?fp = "enc (STUN_FINGERPRINT, write_4bytes ?c)"
  have h: "length ?h = 20" by (rule length_header [OF assms(1)])
  define st1 where "st1 = st\<lparr>pa_pkt := p'\<rparr>"
  define st2 where "st2 = (if add_msg_integrity pkt then st1\<lparr>pa_has_message_integrity := True,
      pa_pkt := p'\<lparr>sp_message_integrity := Some (24 + length (encs (plain_attrs pkt)))\<rparr>\<rparr> else st1)"
  have "parse_attrs d (length ?h) st = parse_attrs d (length (?h @ encs (map fst (plain_items pkt)))) (st\<lparr>pa_pkt := fold snd (plain_items pkt) (pa_pkt st)\<rparr>)"
    by (rule parse_reads [where rest = "encs (integrity_attr pkt mac) @ ?fp"])
      (use plain_items_read [OF assms(1,2)] assms(4,5) in \<open>auto simp: wire_def covered_def plain_items_attrs parse_start_def\<close>)
  then have 1: "parse_attrs d 20 st = parse_attrs d (length (?h @ encs (plain_attrs pkt))) st1"
    using assms(5,6) by (simp add: h plain_items_attrs st1_def parse_start_def)
  have 2: "parse_attrs d (length (?h @ encs (plain_attrs pkt))) st1 = parse_attrs d (length (covered pkt mac)) st2"
  proof (cases "add_msg_integrity pkt")
    case True
    let ?pre = "?h @ encs (plain_attrs pkt)"
    have "parse_attrs d (length ?pre) st1 = cxx_bind (parse_attr d (length ?pre + 4) STUN_MESSAGE_INTEGRITY (of_nat (length mac)) st1)
        (parse_attrs d (length (?pre @ enc (STUN_MESSAGE_INTEGRITY, mac))))"
      by (rule parse_step [where rest = ?fp])
        (use assms True in \<open>auto simp: wire_def covered_def integrity_attr_def opt_attr_def st1_def parse_start_def\<close>)
    moreover have "parse_attr d (length ?pre + 4) STUN_MESSAGE_INTEGRITY (of_nat (length mac)) st1 = Inr st2"
      using assms(3) True h by (simp add: parse_attr_def attr_numbers Let_def st2_def st1_def)
    ultimately show ?thesis using True by (simp add: covered_def integrity_attr_def opt_attr_def)
  qed (simp add: covered_def integrity_attr_def opt_attr_def st2_def)
  have "drop (length (covered pkt mac) + 4) d = write_4bytes ?c" by (simp add: assms(4) wire_def enc_def)
  then have r: "read_4bytes (drop (length (covered pkt mac) + 4) d) = Inr ?c" using read_write_4 [of ?c "[]"] by simp
  let ?st3 = "st2\<lparr>pa_has_fingerprint := True, pa_pkt := (pa_pkt st2)\<lparr>sp_fingerprint := ?c\<rparr>, pa_fingerprint_pos := length (covered pkt mac)\<rparr>"
  have "parse_attrs d (length (covered pkt mac)) st2 = cxx_bind (parse_attr d (length (covered pkt mac) + 4) STUN_FINGERPRINT (of_nat (length (write_4bytes ?c))) st2)
      (parse_attrs d (length (covered pkt mac @ ?fp)))"
    by (rule parse_step [where rest = "[]"]) (use assms in \<open>auto simp: wire_def st2_def st1_def parse_start_def split: if_splits\<close>)
  also have "\<dots> = Inr (length d, ?st3)"
    using r by (simp add: parse_attr_def attr_numbers Let_def parse_attrs.simps assms(4) wire_def)
  finally show ?thesis unfolding 1 2 by (simp add: st2_def st1_def)
qed

lemma parse_serialized:
  assumes "stun_ready pkt" "sp_method pkt = BINDING" "unat (sp_error_code pkt) < 25600" "add_msg_integrity pkt \<Longrightarrow> length mac = 20"
  shows "\<exists>og. stun_parse_packet (wire pkt mac) = Inr ((plain_fields pkt ((new_stun_packet (sp_class pkt) BINDING (sp_transaction_id pkt))\<lparr>
      sp_origin := Some (wire pkt mac), sp_data := og, sp_data_len := stun_size pkt\<rparr>))\<lparr>
      sp_fingerprint := get_crc32 (covered pkt mac) XOR 0x5354554e,
      sp_message_integrity := (if add_msg_integrity pkt then Some (24 + length (encs (plain_attrs pkt))) else None),
      sp_has_fingerprint := True\<rparr>)"
proof -
  let ?d = "wire pkt mac"
  obtain r where d: "?d = header pkt (stun_size pkt - 20) @ r" by (simp add: wire_def covered_def)
  have tid: "length (sp_transaction_id pkt) = 12" using assms(1) by (simp add: stun_ready_def)
  have hp: "is_stun ?d" "read_2bytes ?d = Inr (type_field pkt)" "read_2bytes (drop 2 ?d) = Inr (of_nat (stun_size pkt - 20))"
    "take 12 (drop 8 ?d) = sp_transaction_id pkt" "to_class (msg_class ?d) = sp_class pkt" "msg_method (type_field pkt) = BINDING"
    unfolding d by (fact header_parts [OF assms(2) tid])+
  have size: "stun_size pkt = 20 + length (encs (plain_attrs pkt)) + (if add_msg_integrity pkt then 24 else 0) + 8" "stun_size pkt \<le> 1500"
    using stun_size_eq [OF assms(1)] assms(1) by (simp_all add: stun_ready_def)
  have len: "length ?d = stun_size pkt"
    using size(1) length_header [OF assms(1)] assms(4) by (simp add: wire_def covered_def integrity_attr_def opt_attr_def)
  have m: "unat (of_nat (stun_size pkt - 20) :: u16) = length ?d - 20" using size(2) len by (simp add: unat_of_nat)
  have "4 dvd stun_size pkt - 20" using size(1) encs_4 [of "plain_attrs pkt"] by (auto simp: dvd_add)
  then have a: "of_nat (stun_size pkt - 20) AND (0x03 :: u16) = 0" using size(2) by (intro and_3_nat) simp_all
  let ?p = "(new_stun_packet (sp_class pkt) BINDING (sp_transaction_id pkt))\<lparr>sp_origin := Some ?d,
    sp_data := ?d @ replicate (1500 - length ?d) 0, sp_data_len := stun_size pkt\<rparr>"
  obtain st' where st': "parse_attrs ?d 20 (parse_start ?p) = Inr (length ?d, st')" "pa_has_fingerprint st'"
    "pa_fingerprint_pos st' = length (covered pkt mac)"
    "pa_pkt st' = (plain_fields pkt ?p)\<lparr>sp_fingerprint := get_crc32 (covered pkt mac) XOR 0x5354554e,
      sp_message_integrity := (if add_msg_integrity pkt then Some (24 + length (encs (plain_attrs pkt))) else sp_message_integrity (plain_fields pkt ?p))\<rparr>"
    using parse_wire [OF assms(1,3,4) refl refl fold_plain] by blast
  have "take (length (covered pkt mac)) ?d = covered pkt mac" by (simp add: wire_def)
  with st' have "parse_end ?d (length ?d, st') = Inr ((pa_pkt st')\<lparr>sp_has_fingerprint := True\<rparr>)" by (simp add: parse_end_def)
  moreover have "stun_parse_packet ?d = cxx_bind (parse_attrs ?d 20 (parse_start ?p)) (parse_end ?d)"
    using hp m a len size(2) by (simp add: stun_parse_packet_def stun_packet_from_def)
  ultimately show ?thesis using st' by (auto simp: plain_fields_def new_stun_packet_def)
qed


definition sample_request :: stun_packet where
  "sample_request = (new_stun_packet STUN_REQUEST BINDING (replicate 12 7))\<lparr>sp_user_name := lit ''srv:cli'', sp_password := lit ''pw'',
     sp_priority := 5, sp_ice_controlling := 9, sp_has_use_candidate := True\<rparr>"

lemma sample_request_ready: "stun_ready sample_request"
  by (simp add: stun_ready_def sample_request_def new_stun_packet_def stun_size_def STUN_HEADER_SIZE_def pad_to_4bytes_u16_def
      add_xor_address_def add_error_def add_msg_integrity_def)


lemma name_split:
  assumes "\<nexists>r. name = u @ lit '':'' @ r"
  shows "length name \<le> length u \<or> name ! length u \<noteq> of_char (CHR '':'') \<or> take (length u) name \<noteq> u"
proof (rule ccontr)
  assume "\<not> ?thesis"
  then have "name = u @ lit '':'' @ drop (Suc (length u)) name"
    using append_take_drop_id [of "length u" name] Cons_nth_drop_Suc [of "length u" name] by (simp add: lit_def)
  with assms show False by blast
qed

text \<open>
  C18. Requests authenticate exactly by name and password: a request for the user name ``local:remote''
  that was serialised with a password and received is accepted by \<open>check_auth\<close> under a password exactly
  when that password gives the text the same HMAC as the sender's, and under a local name that is not
  the one in the request it is refused whatever the password.
\<close>

theorem stun_auth_exact:
  assumes "stun_ready pkt" "sp_method pkt = BINDING" "unat (sp_error_code pkt) < 25600"
    and "\<And>k m. \<exists>mac. hmac k m = Some mac \<and> length mac = 20"
    and "sp_class pkt = STUN_REQUEST" "sp_password pkt \<noteq> []" "sp_user_name pkt = local_name @ lit '':'' @ remote_name"
  shows "\<exists>s q. stun_serialize hmac pkt = Inr s \<and> stun_parse_packet (take (sp_data_len s) (sp_data s)) = Inr q \<and>
    (\<forall>pw. check_auth hmac local_name pw q =
       Inr (if hmac pw (mac_input pkt) = hmac (sp_password pkt) (mac_input pkt) then OK else UNAUTHORIZED)) \<and>
    (\<forall>u pw. (\<nexists>r. sp_user_name pkt = u @ lit '':'' @ r) \<longrightarrow> check_auth hmac u pw q = Inr UNAUTHORIZED)"
proof -
  obtain mac where mac: "hmac (sp_password pkt) (mac_input pkt) = Some mac" "length mac = 20" using assms(4) by blast
  note ser = serialize_wire [OF assms(1), of hmac mac]
  have mi: "add_msg_integrity pkt" using assms(5,6) by (simp add: add_msg_integrity_def)
  let ?d = "wire pkt mac" and ?n = "20 + length (encs (plain_attrs pkt))"
  let ?rest = "encs (plain_attrs pkt @ integrity_attr pkt mac) @ enc (STUN_FINGERPRINT, write_4bytes (get_crc32 (covered pkt mac) XOR 0x5354554e))"
  have w: "take (stun_size pkt) (fst (fill ?d)) = ?d" using ser(2) mac by (simp add: fill_def)
  obtain og where q: "stun_parse_packet ?d = Inr ((plain_fields pkt ((new_stun_packet (sp_class pkt) BINDING (sp_transaction_id pkt))\<lparr>
      sp_origin := Some ?d, sp_data := og, sp_data_len := stun_size pkt\<rparr>))\<lparr>
      sp_fingerprint := get_crc32 (covered pkt mac) XOR 0x5354554e, sp_message_integrity := Some (?n + 4), sp_has_fingerprint := True\<rparr>)"
    (is "_ = Inr ?q") using parse_serialized [OF assms(1-3), of mac] mac mi by (auto simp: add.commute)
  have d: "?d = header pkt (stun_size pkt - 20) @ ?rest" by (simp add: wire_def covered_def)
  have size: "28 \<le> stun_size pkt" "stun_size pkt \<le> 1500" using stun_size_eq [OF assms(1)] assms(1) by (simp_all add: stun_ready_def)
  have num: "(of_nat (stun_size pkt) - 20 - 8 :: u16) = of_nat (stun_size pkt - 20 - 8)" using size by (simp add: of_nat_diff)
  have wr: "mem_write ?d 2 (write_2bytes (of_nat (stun_size pkt) - 20 - 8)) = Inr (header pkt (stun_size pkt - 20 - 8) @ ?rest)"
    unfolding num d by (rule set_length)
  let ?d' = "header pkt (stun_size pkt - 20 - 8) @ ?rest"
  have h: "length (header pkt k) = 20" for k by (rule length_header [OF assms(1)])
  have covered: "mem_read ?d' 0 ?n = Inr (mac_input pkt)" by (simp add: mem_read_def mac_input_def h)
  have "drop (?n + 4) ?d' = mac @ enc (STUN_FINGERPRINT, write_4bytes (get_crc32 (covered pkt mac) XOR 0x5354554e))"
    using mi mac(2) h by (simp add: integrity_attr_def opt_attr_def enc_def)
  then have given: "mem_read ?d' (?n + 4) 20 = Inr mac" using mi mac(2) h by (simp add: mem_read_def integrity_attr_def opt_attr_def)
  have "check_auth hmac local_name pw ?q = cxx_bind (get_hmac_sha1 hmac pw (mac_input pkt)) (\<lambda>m. Inr (if m = mac then OK else UNAUTHORIZED))" for pw
    using assms(5,7) wr covered given
    by (simp add: check_auth_def Let_def plain_fields_def new_stun_packet_def nth_append lit_def)
  then have auth: "check_auth hmac local_name pw ?q = Inr (if hmac pw (mac_input pkt) = hmac (sp_password pkt) (mac_input pkt) then OK else UNAUTHORIZED)" for pw
    using assms(4) [of pw "mac_input pkt"] mac(1) by (auto simp: get_hmac_sha1_def)
  have other: "check_auth hmac u pw ?q = Inr UNAUTHORIZED" if "\<nexists>r. sp_user_name pkt = u @ lit '':'' @ r" for u pw
    using name_split [OF that] assms(5,7) by (simp add: check_auth_def Let_def plain_fields_def new_stun_packet_def lit_def)
  have "\<exists>s. stun_serialize hmac pkt = Inr s \<and> take (sp_data_len s) (sp_data s) = ?d" using ser(1) w mac by simp
  then obtain s where s: "stun_serialize hmac pkt = Inr s" "take (sp_data_len s) (sp_data s) = ?d" by blast
  have p: "stun_parse_packet (take (sp_data_len s) (sp_data s)) = Inr ?q" using q s(2) by simp
  show ?thesis by (rule exI [of _ s], rule exI [of _ ?q]) (intro conjI s(1) p allI impI auth other)
qed

theorem stun_auth_exact_witness:
  "\<exists>s q. stun_serialize (\<lambda>k m. Some (take 20 (k @ replicate 20 0))) sample_request = Inr s \<and>
    stun_parse_packet (take (sp_data_len s) (sp_data s)) = Inr q \<and>
    check_auth (\<lambda>k m. Some (take 20 (k @ replicate 20 0))) (lit ''srv'') (lit ''pw'') q = Inr OK \<and>
    check_auth (\<lambda>k m. Some (take 20 (k @ replicate 20 0))) (lit ''srv'') (lit ''px'') q = Inr UNAUTHORIZED"
proof -
  let ?hm = "\<lambda>(k :: bytes) (m :: bytes). Some (take 20 (k @ replicate 20 0))"
  have f: "sp_method sample_request = BINDING" "unat (sp_error_code sample_request) < 25600" "sp_class sample_request = STUN_REQUEST"
    "sp_password sample_request \<noteq> []" "sp_user_name sample_request = lit ''srv'' @ lit '':'' @ lit ''cli''"
    "sp_password sample_request = lit ''pw''" by (simp_all add: sample_request_def new_stun_packet_def lit_def)
  have h: "\<exists>mac. ?hm k m = Some mac \<and> length mac = 20" for k m by simp
  have "?hm (lit ''px'') m \<noteq> ?hm (lit ''pw'') m" for m by (simp add: lit_def)
  with stun_auth_exact [of _ ?hm, OF sample_request_ready f(1,2) h f(3,4,5)] f(6) show ?thesis by (auto simp: lit_def)
qed

subsection \<open>Two messages the code mishandles\<close>

text \<open>The loop asks for more than the four bytes of an attribute header, so a message that ends with an empty attribute is refused.\<close>

lemma final_empty_attribute_refused:
  assumes "p + 4 = length d"
  shows "cxx_bind (parse_attrs d p st) (parse_end d) = Inl (Throw ''data offset is not data end'')"
  using assms by (subst parse_attrs.simps) (simp add: parse_end_def)

text \<open>A received request for the right user that carries no integrity attribute makes \<open>check_auth\<close> use a null pointer.\<close>

lemma auth_without_integrity:
  assumes "stun_ready pkt" "sp_method pkt = BINDING" "unat (sp_error_code pkt) < 25600"
    and "sp_class pkt = STUN_REQUEST" "sp_password pkt = []" "sp_user_name pkt = local_name @ lit '':'' @ remote_name"
  shows "\<exists>s q. stun_serialize hmac pkt = Inr s \<and> stun_parse_packet (take (sp_data_len s) (sp_data s)) = Inr q \<and>
    sp_class q = STUN_REQUEST \<and> sp_method q = BINDING \<and> sp_has_fingerprint q \<and> sp_message_integrity q = None \<and>
    check_auth hmac local_name pw q = Inl NullDeref"
proof -
  have mi: "\<not> add_msg_integrity pkt" using assms(5) by (simp add: add_msg_integrity_def)
  note ser = serialize_wire [OF assms(1), of hmac "[]"]
  have w: "take (stun_size pkt) (fst (fill (wire pkt []))) = wire pkt []" using ser(2) mi by (simp add: fill_def)
  have size: "28 \<le> stun_size pkt" using stun_size_eq [OF assms(1)] by simp
  have "\<exists>d'. mem_write (wire pkt []) 2 (write_2bytes v) = Inr d'" for v
    using size ser(2) mi by (simp add: mem_write_def)
  then obtain d' where d': "mem_write (wire pkt []) 2 (write_2bytes (of_nat (stun_size pkt) - 20 - 8)) = Inr d'" by blast
  obtain og where q: "stun_parse_packet (wire pkt []) = Inr ((plain_fields pkt ((new_stun_packet (sp_class pkt) BINDING (sp_transaction_id pkt))\<lparr>
      sp_origin := Some (wire pkt []), sp_data := og, sp_data_len := stun_size pkt\<rparr>))\<lparr>
      sp_fingerprint := get_crc32 (covered pkt []) XOR 0x5354554e, sp_message_integrity := None, sp_has_fingerprint := True\<rparr>)"
    (is "_ = Inr ?q") using parse_serialized [OF assms(1-3), of "[]"] mi by auto
  have "check_auth hmac local_name pw ?q = Inl NullDeref"
    using assms(4,6) d' by (simp add: check_auth_def Let_def plain_fields_def new_stun_packet_def nth_append lit_def)
  moreover have "sp_class ?q = STUN_REQUEST" "sp_method ?q = BINDING" "sp_has_fingerprint ?q" "sp_message_integrity ?q = None"
    using assms(4) by (simp_all add: plain_fields_def new_stun_packet_def)
  moreover obtain s where "stun_serialize hmac pkt = Inr s" "take (sp_data_len s) (sp_data s) = wire pkt []" using ser(1) w mi by simp
  ultimately show ?thesis using q by (intro exI [of _ s] exI [of _ ?q]) simp
qed

end
