(* ===== verification/Spec2Isabelle.thy ===== *)
theory Spec2Isabelle
  imports Players Tcp_Session Rtmp_Client Nack Rtcp Rtp_Send Rtp_Recv Stun
begin

text \<open>
  A verification library for the media server. The server receives live streams over RTMP (and
  RTP packets over WebRTC) and forwards them to players over RTMP and HTTP-FLV. This development
  models its C++ code, file by file under \<open>src/\<close>, as executable definitions, and proves what makes
  each component correct.

  \<^bold>\<open>How the program fits together.\<close> A TCP session (\<open>net/tcp\<close>) hands received bytes to a protocol
  session and sends what it is given in order. An RTMP server session (\<open>net/rtmp\<close>) does the
  handshake, reads chunks into messages, answers commands (AMF0) and turns media messages into
  \<open>MEDIA_PACKET\<close>s, which it gives to the media stream manager (\<open>utils/av\<close>). The manager keeps, for
  every stream, a GOP cache and the writers of its players, and passes every packet to them: an
  RTMP writer sends it as chunks, an HTTP-FLV writer (\<open>net/httpflv\<close>) as FLV tags in an HTTP
  response. The RTMP client session plays or publishes from a server. The WebRTC part
  (\<open>net/webrtc\<close>, \<open>net/rtprtcp\<close>) receives RTP packets.

  \<^bold>\<open>Conventions.\<close> \<open>MS_Prelude\<close> has the machine types, bounds-checked memory and the type
  \<open>'a cxx = stop + 'a\<close> of an execution that may stop: \<open>Inl\<close> is an out-of-bounds access, a null
  dereference, an assertion, a division by zero, a thrown exception and so on, so that ``never
  reads out of bounds'' is a statement about values. Functions of the source keep their names;
  where two components have a function of the same name, one of them has a prefix.

  \<^bold>\<open>Theories, sources, results.\<close>
  \<^item> \<open>Byte_Stream\<close> (\<open>utils/byte_stream.cpp\<close>): big-endian fields; locale \<open>field_codec\<close>, interpreted for
    every width. \<open>Data_Buffer\<close> (\<open>utils/data_buffer.cpp\<close>): the growable buffer with its indices,
    refining a byte queue. \<open>Sorted_Map\<close>: \<open>std::map\<close> in key order.
  \<^item> \<open>Media_Packet\<close>, \<open>Gop_Cache\<close>, \<open>Media_Stream\<close> (\<open>utils/av\<close>): packets and the interface of writers
    (locale \<open>av_writer\<close>), the cache for late joiners, the manager with its steps and invariant.
    \<open>Players\<close> (\<open>net/rtmp/rtmp_writer.cpp\<close>): the RTMP writer, and the manager with both kinds of
    writers: a published packet reaches every player and never follows a dangling pointer.
  \<^item> \<open>Flv\<close> (\<open>format/flv\<close>): muxer and demuxer; what is muxed is demuxed unchanged however it is
    fragmented. \<open>Httpflv\<close> (\<open>net/httpflv\<close>): what a player receives is a correct FLV stream; the
    liveness check is memory-safe. \<open>Http\<close> (\<open>net/http\<close>): request parsing. \<open>Tcp_Session\<close>
    (\<open>net/tcp/tcp_session.hpp\<close>): first in, first out, one write at a time.
  \<^item> \<open>Chunk_Stream\<close>, \<open>Rtmp_Session\<close> (\<open>net/rtmp/chunk_stream.cpp\<close>, \<open>rtmp_session_base.cpp\<close>): the chunk
    reader always returns, stays in its buffer, and reads back what the chunk writer sent. \<open>Amf0\<close>
    (\<open>net/rtmp/amf/amf0.hpp\<close>): encoding and decoding of commands. \<open>Rtmp_Control\<close>, \<open>Rtmp_Server\<close>,
    \<open>Rtmp_Client\<close> (\<open>rtmp_control_handler.cpp\<close>, \<open>rtmp_server_session.cpp\<close>, \<open>rtmp_client_session.cpp\<close>):
    the session state machines, closed exactly once, reading on until closed.
  \<^item> \<open>Rtp\<close>, \<open>Rtcp\<close> (\<open>net/rtprtcp\<close>): RTP packets, retransmissions, sequence numbers, RTCP reports and
    negative acknowledgements. \<open>Nack\<close> (\<open>net/webrtc/nack_generator.cpp\<close>): the list of numbers to request.

  \<^bold>\<open>Bounds, fuel and parameters.\<close> The AMF0 decoder recurses with fuel \<open>2 * n + 2\<close> on \<open>n\<close> bytes, which
  its termination property shows to be enough; its outer loop, which may not end, is a
  \<open>partial_function\<close>. \<open>string_split\<close> has the length of its input as fuel. All other loops are
  total functions with a measure. Code outside the repository is a parameter: the usable size of a
  heap block (\<open>malloc_usable_size\<close>), the cryptographic part of the RTMP handshake, the clock.

  \<^bold>\<open>Not modelled.\<close> Sockets, timers, logging and random identifiers (boost::asio and the operating
  system); websockets (boost::beast); DTLS and SRTP (OpenSSL and libsrtp); SDP and the signalling
  of rooms (JSON by vendored third-party code); the digest of the complex RTMP handshake (HMAC and
  Diffie-Hellman of OpenSSL).
\<close>

end
